(* ===== verification/Prelude.thy ===== *)
theory Prelude
  imports Main "HOL-Library.Word" "HOL-Library.AList" "HOL-Library.Monad_Syntax"
    "HOL-Library.Sublist"
begin

text \<open>
  Shared vocabulary of the development: machine types, the error value every fallible
  operation of the model has, the Rust string operations the sources use, the hash map,
  and decimal printing.

  An operation that follows a raw pointer returns \<^typ>\<open>'a option\<close>: \<^const>\<open>None\<close> is a memory
  fault (a struct that was never allocated, or that has been freed), so "the code never
  follows a dangling pointer" is the statement that the operation returns. The predicate
  \<open>returns\<close> below states this together with a postcondition, and its equations turn the
  do-blocks of the model into verification conditions.
\<close>

named_theorems returns_simps \<open>equations that push returns through a do-block\<close>
named_theorems frame_simps \<open>fields of the state an operation does not write\<close>

type_synonym ptr = nat
type_synonym usize = nat
type_synonym tid = nat
type_synonym u32 = "32 word"
type_synonym u64 = "64 word"

abbreviation (input) is_null :: "ptr \<Rightarrow> bool" where
  "is_null p \<equiv> p = 0"

section \<open>Total correctness of operations that can fault\<close>

definition returns :: "'a option \<Rightarrow> ('a \<Rightarrow> bool) \<Rightarrow> bool" where
  "returns m Q = (case m of None \<Rightarrow> False | Some x \<Rightarrow> Q x)"

lemma returns_Some [simp, returns_simps]: "returns (Some x) Q = Q x"
  by (simp add: returns_def)

lemma returns_None [simp]: "\<not> returns None Q"
  by (simp add: returns_def)

lemma returns_bind [simp, returns_simps]:
  "returns (Option.bind m f) Q = returns m (\<lambda>x. returns (f x) Q)"
  by (cases m) (simp_all add: returns_def)

lemma returns_case_prod [returns_simps]:
  "returns (case p of (a, b) \<Rightarrow> f a b) Q = (case p of (a, b) \<Rightarrow> returns (f a b) Q)"
  by (cases p) simp

lemma returns_if [simp, returns_simps]:
  "returns (if b then m else n) Q = (if b then returns m Q else returns n Q)"
  by simp

lemma returns_weaken: "returns m P \<Longrightarrow> (\<And>x. P x \<Longrightarrow> Q x) \<Longrightarrow> returns m Q"
  by (cases m) simp_all

lemma returns_conj: "returns m P \<Longrightarrow> returns m Q \<Longrightarrow> returns m (\<lambda>x. P x \<and> Q x)"
  by (cases m) simp_all

lemma returnsD: "returns m Q \<Longrightarrow> \<exists>x. m = Some x \<and> Q x"
  by (cases m) simp_all

lemma returns_SomeD: "returns m Q \<Longrightarrow> m = Some x \<Longrightarrow> Q x"
  by simp

lemma returnsI: "m = Some x \<Longrightarrow> Q x \<Longrightarrow> returns m Q"
  by simp

section \<open>Hash maps\<close>

text \<open>
  \<open>HashMap<usize, V>\<close> as an association list with distinct keys. The list order stands for
  the map's iteration order, which the standard library leaves open: a theorem about every
  association list is a theorem about every iteration order.
\<close>

type_synonym ('k, 'v) hmap = "('k \<times> 'v) list"

definition hm_get :: "('k, 'v) hmap \<Rightarrow> 'k \<Rightarrow> 'v option" where
  "hm_get m k = map_of m k"

definition hm_insert :: "'k \<Rightarrow> 'v \<Rightarrow> ('k, 'v) hmap \<Rightarrow> ('k, 'v) hmap" where
  "hm_insert k v m = AList.update k v m"

definition hm_remove :: "'k \<Rightarrow> ('k, 'v) hmap \<Rightarrow> ('k, 'v) hmap" where
  "hm_remove k m = filter (\<lambda>(k', v). k' \<noteq> k) m"

definition hm_values :: "('k, 'v) hmap \<Rightarrow> 'v list" where
  "hm_values m = map snd m"

definition hm_retain :: "('k \<Rightarrow> 'v \<Rightarrow> bool) \<Rightarrow> ('k, 'v) hmap \<Rightarrow> ('k, 'v) hmap" where
  "hm_retain P m = filter (\<lambda>(k, v). P k v) m"

definition hm_ok :: "('k, 'v) hmap \<Rightarrow> bool" where
  "hm_ok m = distinct (map fst m)"

text \<open>What a client relies on: the laws of a finite map, and what its values are.\<close>

locale hash_map =
  fixes get :: "'m \<Rightarrow> 'k \<Rightarrow> 'v option"
    and ins :: "'k \<Rightarrow> 'v \<Rightarrow> 'm \<Rightarrow> 'm"
    and rem :: "'k \<Rightarrow> 'm \<Rightarrow> 'm"
    and vals :: "'m \<Rightarrow> 'v list"
    and new_map :: 'm
    and ok :: "'m \<Rightarrow> bool"
  assumes get_new: "get new_map k = None"
    and get_ins: "get (ins k v m) k' = (if k' = k then Some v else get m k')"
    and get_rem: "get (rem k m) k' = (if k' = k then None else get m k')"
    and vals_get: "ok m \<Longrightarrow> v \<in> set (vals m) \<longleftrightarrow> (\<exists>k. get m k = Some v)"
    and ok_new: "ok new_map"
    and ok_ins: "ok m \<Longrightarrow> ok (ins k v m)"
    and ok_rem: "ok m \<Longrightarrow> ok (rem k m)"
begin

lemma get_ins_rem: "get (rem k (ins k v m)) k' = (if k' = k then None else get m k')"
  by (simp add: get_ins get_rem)

lemma get_ins_overwrites: "get (ins k v (ins k w m)) = get (ins k v m)"
  by (rule ext) (simp add: get_ins)

lemma vals_ins: "ok m \<Longrightarrow> w \<in> set (vals (ins k v m)) \<longleftrightarrow> w = v \<or> (\<exists>k'. k' \<noteq> k \<and> get m k' = Some w)"
  by (auto simp: vals_get ok_ins get_ins)

lemma vals_rem: "ok m \<Longrightarrow> w \<in> set (vals (rem k m)) \<longleftrightarrow> (\<exists>k'. k' \<noteq> k \<and> get m k' = Some w)"
  by (auto simp: vals_get ok_rem get_rem)

end

lemma map_of_filter_key: "map_of (filter (\<lambda>(k', v). k' \<noteq> k) m) k' = (if k' = k then None else map_of m k')"
  by (induction m) auto

lemma hm_get_remove [simp]: "hm_get (hm_remove k m) k' = (if k' = k then None else hm_get m k')"
  by (simp add: hm_get_def hm_remove_def map_of_filter_key)

lemma hm_get_insert [simp]: "hm_get (hm_insert k v m) k' = (if k' = k then Some v else hm_get m k')"
  by (simp add: hm_get_def hm_insert_def update_conv)

lemma hm_get_Nil [simp]: "hm_get [] k = None"
  by (simp add: hm_get_def)

lemma hm_ok_Nil [simp]: "hm_ok []"
  by (simp add: hm_ok_def)

lemma hm_ok_insert [simp]: "hm_ok m \<Longrightarrow> hm_ok (hm_insert k v m)"
  by (simp add: hm_ok_def hm_insert_def distinct_update)

lemma hm_ok_filter: "hm_ok m \<Longrightarrow> hm_ok (filter P m)"
  by (auto simp: hm_ok_def distinct_map intro: inj_on_subset)

lemma hm_ok_remove [simp]: "hm_ok m \<Longrightarrow> hm_ok (hm_remove k m)"
  by (simp add: hm_remove_def hm_ok_filter)

lemma hm_ok_retain [simp]: "hm_ok m \<Longrightarrow> hm_ok (hm_retain P m)"
  by (simp add: hm_retain_def hm_ok_filter)

lemma hm_get_retain: "hm_ok m \<Longrightarrow>
    hm_get (hm_retain P m) k = (case hm_get m k of None \<Rightarrow> None | Some v \<Rightarrow> if P k v then Some v else None)"
proof (induction m)
  case Nil
  then show ?case by (simp add: hm_retain_def)
next
  case (Cons a m)
  obtain k' v' where a: "a = (k', v')" by (cases a)
  from Cons.prems have "hm_ok m" and fresh: "k' \<notin> fst ` set m"
    by (auto simp: hm_ok_def a)
  then have "map_of (filter (\<lambda>(k, v). P k v) m) k' = None"
    by (auto simp: map_of_eq_None_iff)
  with Cons.IH [OF \<open>hm_ok m\<close>] show ?case
    by (auto simp: hm_retain_def hm_get_def a split: option.splits)
qed

lemma hm_values_get: "hm_ok m \<Longrightarrow> v \<in> set (hm_values m) \<longleftrightarrow> (\<exists>k. hm_get m k = Some v)"
  by (force simp: hm_values_def hm_ok_def hm_get_def dest: map_of_SomeD intro: map_of_is_SomeI)

interpretation hm: hash_map hm_get hm_insert hm_remove hm_values "[]" hm_ok
  by unfold_locales (simp_all add: hm_values_get)

section \<open>Rust strings\<close>

text \<open>
  Strings are sequences of bytes; the character classes below are those of the Rust
  standard library on ASCII, which is what SQL keywords, identifiers, SQLSTATEs and file
  names here are made of. White space beyond ASCII (a no-break space in the middle of a
  statement, say) is outside the model.
\<close>

abbreviation char_code :: "char \<Rightarrow> nat" where
  "char_code c \<equiv> of_char c"

definition is_ascii_whitespace :: "char \<Rightarrow> bool" where
  "is_ascii_whitespace c \<longleftrightarrow> char_code c \<in> {9, 10, 12, 13, 32}"

definition is_whitespace :: "char \<Rightarrow> bool" where
  "is_whitespace c \<longleftrightarrow> char_code c \<in> {9, 10, 11, 12, 13, 32}"

definition is_ascii_digit :: "char \<Rightarrow> bool" where
  "is_ascii_digit c \<longleftrightarrow> 48 \<le> char_code c \<and> char_code c \<le> 57"

definition is_ascii_upper :: "char \<Rightarrow> bool" where
  "is_ascii_upper c \<longleftrightarrow> 65 \<le> char_code c \<and> char_code c \<le> 90"

definition is_ascii_lower :: "char \<Rightarrow> bool" where
  "is_ascii_lower c \<longleftrightarrow> 97 \<le> char_code c \<and> char_code c \<le> 122"

definition is_ascii_alphanumeric :: "char \<Rightarrow> bool" where
  "is_ascii_alphanumeric c \<longleftrightarrow> is_ascii_digit c \<or> is_ascii_upper c \<or> is_ascii_lower c"

definition ascii_lower :: "char \<Rightarrow> char" where
  "ascii_lower c = (if is_ascii_upper c then char_of (char_code c + 32) else c)"

definition to_ascii_lowercase :: "string \<Rightarrow> string" where
  "to_ascii_lowercase s = map ascii_lower s"

definition trim_start :: "string \<Rightarrow> string" where
  "trim_start s = dropWhile is_whitespace s"

definition trim_end_matches :: "(char \<Rightarrow> bool) \<Rightarrow> string \<Rightarrow> string" where
  "trim_end_matches P s = rev (dropWhile P (rev s))"

definition trim_end :: "string \<Rightarrow> string" where
  "trim_end s = trim_end_matches is_whitespace s"

definition trim :: "string \<Rightarrow> string" where
  "trim s = trim_end (trim_start s)"

definition starts_with :: "string \<Rightarrow> string \<Rightarrow> bool" where
  "starts_with p s = prefix p s"

definition ends_with :: "string \<Rightarrow> string \<Rightarrow> bool" where
  "ends_with p s = suffix p s"

definition str_contains :: "string \<Rightarrow> string \<Rightarrow> bool" where
  "str_contains p s = sublist p s"

function split_whitespace :: "string \<Rightarrow> string list" where
  "split_whitespace [] = []"
| "split_whitespace (c # cs) =
     (if is_whitespace c then split_whitespace cs
      else (c # takeWhile (\<lambda>d. \<not> is_whitespace d) cs)
           # split_whitespace (dropWhile (\<lambda>d. \<not> is_whitespace d) cs))"
  by pat_completeness auto
termination
  by (relation "measure length") (auto simp: less_Suc_eq_le length_dropWhile_le)

definition strip_prefix :: "string \<Rightarrow> string \<Rightarrow> string option" where
  "strip_prefix p s = (if starts_with p s then Some (drop (length p) s) else None)"

definition strip_suffix :: "string \<Rightarrow> string \<Rightarrow> string option" where
  "strip_suffix p s = (if ends_with p s then Some (take (length s - length p) s) else None)"

text \<open>\<open>str::split\<close> by one character: never empty, and empty parts are kept.\<close>

fun split_on :: "char \<Rightarrow> string \<Rightarrow> string list" where
  "split_on c [] = [[]]"
| "split_on c (x # xs) =
     (if x = c then [] # split_on c xs
      else case split_on c xs of [] \<Rightarrow> [[x]] | y # ys \<Rightarrow> (x # y) # ys)"

text \<open>\<open>str::parse::<i32>\<close>: an optional sign, at least one digit, no overflow.\<close>

definition digits_value :: "string \<Rightarrow> int" where
  "digits_value ds = foldl (\<lambda>a c. a * 10 + (int (char_code c) - 48)) 0 ds"

definition parse_i32 :: "string \<Rightarrow> int option" where
  "parse_i32 s =
     (let neg = (s \<noteq> [] \<and> hd s = CHR ''-'');
          ds = (if s \<noteq> [] \<and> (hd s = CHR ''-'' \<or> hd s = CHR ''+'') then tl s else s);
          v = (if neg then - digits_value ds else digits_value ds)
      in if ds \<noteq> [] \<and> list_all is_ascii_digit ds \<and> -2147483648 \<le> v \<and> v \<le> 2147483647
         then Some v else None)"

text \<open>Decimal printing, as \<open>format!("{}", n)\<close> does it for an unsigned integer.\<close>

definition digit_char :: "nat \<Rightarrow> char" where
  "digit_char d = char_of (48 + d)"

fun show_nat :: "nat \<Rightarrow> string" where
  "show_nat n = (if n < 10 then [digit_char n] else show_nat (n div 10) @ [digit_char (n mod 10)])"

declare show_nat.simps [simp del]

definition show_int :: "int \<Rightarrow> string" where
  "show_int n = (if n < 0 then CHR ''-'' # show_nat (nat (- n)) else show_nat (nat n))"

lemma ascii_lower_idem [simp]: "ascii_lower (ascii_lower c) = ascii_lower c"
  by (auto simp: ascii_lower_def is_ascii_upper_def)

lemma to_ascii_lowercase_idem [simp]: "to_ascii_lowercase (to_ascii_lowercase s) = to_ascii_lowercase s"
  by (simp add: to_ascii_lowercase_def)

lemma digit_char_inject: "a < 10 \<Longrightarrow> b < 10 \<Longrightarrow> digit_char a = digit_char b \<Longrightarrow> a = b"
proof -
  assume "a < 10" "b < 10" "digit_char a = digit_char b"
  then have "(of_char (digit_char a) :: nat) = of_char (digit_char b)" by simp
  with \<open>a < 10\<close> \<open>b < 10\<close> show ?thesis by (simp add: digit_char_def)
qed

lemma show_nat_nonempty [simp]: "show_nat n \<noteq> []"
  by (subst show_nat.simps) simp

lemma show_nat_small: "n < 10 \<Longrightarrow> show_nat n = [digit_char n]"
  by (subst show_nat.simps) simp

lemma show_nat_large: "\<not> n < 10 \<Longrightarrow> show_nat n = show_nat (n div 10) @ [digit_char (n mod 10)]"
  by (subst show_nat.simps) simp

lemma show_nat_length_one: "length (show_nat n) = 1 \<Longrightarrow> n < 10"
  by (cases "n < 10") (auto simp: show_nat_large)

lemma show_nat_inject: "show_nat m = show_nat n \<Longrightarrow> m = n"
proof (induction m arbitrary: n rule: show_nat.induct)
  case (1 m)
  show ?case
  proof (cases "m < 10 \<or> n < 10")
    case True
    with "1.prems" have "m < 10" "n < 10"
      by (metis One_nat_def length_Cons list.size(3) show_nat_length_one show_nat_small)+
    with "1.prems" show ?thesis
      by (simp add: show_nat_small digit_char_inject)
  next
    case False
    with "1.prems" have "show_nat (m div 10) = show_nat (n div 10)"
      and "digit_char (m mod 10) = digit_char (n mod 10)"
      by (simp_all add: show_nat_large)
    with "1.IH" False have "m div 10 = n div 10" and "m mod 10 = n mod 10"
      by (auto intro: digit_char_inject)
    then show ?thesis by (metis div_mult_mod_eq)
  qed
qed

lemma show_nat_eq [simp]: "show_nat m = show_nat n \<longleftrightarrow> m = n"
  by (auto dest: show_nat_inject)

lemma show_nat_digits: "c \<in> set (show_nat n) \<Longrightarrow> is_ascii_digit c"
proof (induction n rule: show_nat.induct)
  case (1 n)
  have "is_ascii_digit (digit_char d)" if "d < 10" for d
    using that by (simp add: digit_char_def is_ascii_digit_def)
  with 1 show ?case by (cases "n < 10") (auto simp: show_nat_small show_nat_large)
qed

lemma trim_end_matches_append_all: "list_all P t \<Longrightarrow> trim_end_matches P (s @ t) = trim_end_matches P s"
  by (induction t rule: rev_induct) (auto simp: trim_end_matches_def)

lemma trim_start_append_ws: "list_all is_whitespace w \<Longrightarrow> trim_start (w @ s) = trim_start s"
  by (induction w) (auto simp: trim_start_def)

text \<open>The last position that satisfies a predicate, \<open>Iterator::rposition\<close>.\<close>

fun rposition :: "('a \<Rightarrow> bool) \<Rightarrow> 'a list \<Rightarrow> nat option" where
  "rposition P [] = None"
| "rposition P (x # xs) =
     (case rposition P xs of Some i \<Rightarrow> Some (Suc i) | None \<Rightarrow> if P x then Some 0 else None)"

lemma rposition_None: "rposition P xs = None \<longleftrightarrow> (\<forall>x\<in>set xs. \<not> P x)"
  by (induction xs) (auto split: option.splits)

lemma rposition_Some:
  "rposition P xs = Some i \<Longrightarrow> i < length xs \<and> P (xs ! i) \<and> (\<forall>x\<in>set (drop (Suc i) xs). \<not> P x)"
proof (induction xs arbitrary: i)
  case (Cons y ys)
  show ?case
  proof (cases "rposition P ys")
    case None
    with Cons.prems have "i = 0" and "P y" by (auto split: if_splits)
    with None show ?thesis by (simp add: rposition_None)
  next
    case (Some j)
    with Cons show ?thesis by auto
  qed
qed simp

lemma rposition_append:
  "P x \<Longrightarrow> \<forall>y\<in>set ys. \<not> P y \<Longrightarrow> rposition P (xs @ x # ys) = Some (length xs)"
proof (induction xs)
  case Nil
  then have "rposition P ys = None" by (simp add: rposition_None)
  with Nil show ?case by simp
qed simp

lemma trim_end_matches_id: "s \<noteq> [] \<Longrightarrow> \<not> P (last s) \<Longrightarrow> trim_end_matches P s = s"
  by (cases s rule: rev_cases) (auto simp: trim_end_matches_def)

lemma trim_start_id: "\<not> is_whitespace (hd s) \<Longrightarrow> trim_start s = s"
  by (cases s) (auto simp: trim_start_def)

lemma trim_id: "s \<noteq> [] \<Longrightarrow> \<not> is_whitespace (hd s) \<Longrightarrow> \<not> is_whitespace (last s) \<Longrightarrow> trim s = s"
  by (simp add: trim_def trim_end_def trim_start_id trim_end_matches_id)

lemma split_whitespace_word: "w \<noteq> [] \<Longrightarrow> \<forall>c\<in>set w. \<not> is_whitespace c \<Longrightarrow> split_whitespace w = [w]"
proof (cases w)
  case (Cons a v)
  moreover assume "\<forall>c\<in>set w. \<not> is_whitespace c"
  ultimately have "dropWhile (\<lambda>d. \<not> is_whitespace d) v = []" and "takeWhile (\<lambda>d. \<not> is_whitespace d) v = v"
    and "\<not> is_whitespace a"
    by (simp_all add: dropWhile_eq_Nil_conv takeWhile_eq_all_conv)
  with Cons show ?thesis by (simp del: dropWhile_eq_Nil_conv takeWhile_eq_all_conv)
qed simp

end
