(* ===== verification/Libpq.thy ===== *)
theory Libpq
  imports Prelude
begin

text \<open>
  The C functions the shim calls and does not contain: libpq, the allocator and the few
  pthread, socket, clock and process calls of a connection's life. They are the fields of a record of
  functions, so that every definition that calls one takes them as an argument; \<open>'w\<close> is
  whatever they act on (the server, libpq's buffers, the process). A C string that may be
  null is a \<^typ>\<open>string option\<close>.

  The second part is \<^verbatim>\<open>libpq_helpers.rs\<close>: the null-checking wrappers through which
  everything else calls libpq, the probes of the server's settings, and the alignment of
  the pool's idle timeout with them.
\<close>

record 'w libpq =
  PQstatus :: "ptr \<Rightarrow> 'w \<Rightarrow> int"
  PQconnectdb :: "string \<Rightarrow> 'w \<Rightarrow> ptr \<times> 'w"
  PQreset :: "ptr \<Rightarrow> 'w \<Rightarrow> 'w"
  PQfinish :: "ptr \<Rightarrow> 'w \<Rightarrow> 'w"
  PQexec :: "ptr \<Rightarrow> string \<Rightarrow> 'w \<Rightarrow> ptr \<times> 'w"
  PQresultStatus :: "ptr \<Rightarrow> 'w \<Rightarrow> int"
  PQresultErrorMessage :: "ptr \<Rightarrow> 'w \<Rightarrow> string option"
  PQresultErrorField :: "ptr \<Rightarrow> int \<Rightarrow> 'w \<Rightarrow> string option"
  PQerrorMessage :: "ptr \<Rightarrow> 'w \<Rightarrow> string option"
  PQclear :: "ptr \<Rightarrow> 'w \<Rightarrow> 'w"
  PQtransactionStatus :: "ptr \<Rightarrow> 'w \<Rightarrow> int"
  PQsocket :: "ptr \<Rightarrow> 'w \<Rightarrow> int"
  PQconsumeInput :: "ptr \<Rightarrow> 'w \<Rightarrow> int \<times> 'w"
  PQisBusy :: "ptr \<Rightarrow> 'w \<Rightarrow> int"
  PQgetResult :: "ptr \<Rightarrow> 'w \<Rightarrow> ptr \<times> 'w"
  PQsetnonblocking :: "ptr \<Rightarrow> int \<Rightarrow> 'w \<Rightarrow> int \<times> 'w"
  PQgetCancel :: "ptr \<Rightarrow> 'w \<Rightarrow> ptr \<times> 'w"
  PQcancel :: "ptr \<Rightarrow> 'w \<Rightarrow> int \<times> 'w"
  PQfreeCancel :: "ptr \<Rightarrow> 'w \<Rightarrow> 'w"
  PQntuples :: "ptr \<Rightarrow> 'w \<Rightarrow> int"
  PQnfields :: "ptr \<Rightarrow> 'w \<Rightarrow> int"
  PQgetisnull :: "ptr \<Rightarrow> int \<Rightarrow> int \<Rightarrow> 'w \<Rightarrow> int"
  PQgetvalue :: "ptr \<Rightarrow> int \<Rightarrow> int \<Rightarrow> 'w \<Rightarrow> string option"
  setsockopt :: "int \<Rightarrow> 'w \<Rightarrow> int \<times> 'w"
  calloc :: "ptr set \<Rightarrow> 'w \<Rightarrow> ptr \<times> 'w"
  pthread_mutexattr_init :: "'w \<Rightarrow> int \<times> 'w"
  pthread_mutex_init :: "'w \<Rightarrow> int \<times> 'w"
  unix_time :: "'w \<Rightarrow> int"
  usleep :: "int \<Rightarrow> 'w \<Rightarrow> 'w"
  getpid :: "'w \<Rightarrow> nat"

text \<open>
  The allocator's contract: what \<open>calloc\<close> hands out is null or is no live allocation. The
  live allocations are its first argument, since they are state of the model.
\<close>

definition calloc_fresh :: "'w libpq \<Rightarrow> bool" where
  "calloc_fresh L \<longleftrightarrow> (\<forall>live w. fst (calloc L live w) = 0 \<or> fst (calloc L live w) \<notin> live)"

definition CONNECTION_OK :: int where "CONNECTION_OK = 0"
definition PGRES_COMMAND_OK :: int where "PGRES_COMMAND_OK = 1"
definition PGRES_TUPLES_OK :: int where "PGRES_TUPLES_OK = 2"
definition PQTRANS_INTRANS :: int where "PQTRANS_INTRANS = 2"
definition PQTRANS_INERROR :: int where "PQTRANS_INERROR = 3"
definition PG_DIAG_SQLSTATE :: int where "PG_DIAG_SQLSTATE = 67"

section \<open>The null-checking wrappers\<close>

definition rust_pq_set_nonblocking :: "'w libpq \<Rightarrow> ptr \<Rightarrow> int \<Rightarrow> 'w \<Rightarrow> int \<times> 'w" where
  "rust_pq_set_nonblocking L conn arg w = (if is_null conn then (-1, w) else PQsetnonblocking L conn arg w)"

definition rust_pq_is_busy :: "'w libpq \<Rightarrow> ptr \<Rightarrow> 'w \<Rightarrow> int" where
  "rust_pq_is_busy L conn w = (if is_null conn then 0 else PQisBusy L conn w)"

definition rust_pq_consume_input :: "'w libpq \<Rightarrow> ptr \<Rightarrow> 'w \<Rightarrow> int \<times> 'w" where
  "rust_pq_consume_input L conn w = (if is_null conn then (0, w) else PQconsumeInput L conn w)"

definition rust_pq_get_cancel :: "'w libpq \<Rightarrow> ptr \<Rightarrow> 'w \<Rightarrow> ptr \<times> 'w" where
  "rust_pq_get_cancel L conn w = (if is_null conn then (0, w) else PQgetCancel L conn w)"

definition rust_pq_cancel :: "'w libpq \<Rightarrow> ptr \<Rightarrow> 'w \<Rightarrow> int \<times> 'w" where
  "rust_pq_cancel L cancel w = (if is_null cancel then (0, w) else PQcancel L cancel w)"

definition rust_pq_free_cancel :: "'w libpq \<Rightarrow> ptr \<Rightarrow> 'w \<Rightarrow> 'w" where
  "rust_pq_free_cancel L cancel w = (if is_null cancel then w else PQfreeCancel L cancel w)"

definition rust_pq_get_result :: "'w libpq \<Rightarrow> ptr \<Rightarrow> 'w \<Rightarrow> ptr \<times> 'w" where
  "rust_pq_get_result L conn w = (if is_null conn then (0, w) else PQgetResult L conn w)"

definition rust_pq_result_status :: "'w libpq \<Rightarrow> ptr \<Rightarrow> 'w \<Rightarrow> int" where
  "rust_pq_result_status L res w = (if is_null res then -1 else PQresultStatus L res w)"

definition rust_pq_clear :: "'w libpq \<Rightarrow> ptr \<Rightarrow> 'w \<Rightarrow> 'w" where
  "rust_pq_clear L res w = (if is_null res then w else PQclear L res w)"

definition rust_pq_error_message :: "'w libpq \<Rightarrow> ptr \<Rightarrow> 'w \<Rightarrow> string option" where
  "rust_pq_error_message L conn w = (if is_null conn then None else PQerrorMessage L conn w)"

definition rust_pq_status :: "'w libpq \<Rightarrow> ptr \<Rightarrow> 'w \<Rightarrow> int" where
  "rust_pq_status L conn w = (if is_null conn then -1 else PQstatus L conn w)"

definition rust_pq_reset :: "'w libpq \<Rightarrow> ptr \<Rightarrow> 'w \<Rightarrow> 'w" where
  "rust_pq_reset L conn w = (if is_null conn then w else PQreset L conn w)"

definition rust_pq_connectdb :: "'w libpq \<Rightarrow> string option \<Rightarrow> 'w \<Rightarrow> ptr \<times> 'w" where
  "rust_pq_connectdb L conninfo w =
     (case conninfo of None \<Rightarrow> (0, w) | Some ci \<Rightarrow> PQconnectdb L ci w)"

definition rust_pq_finish :: "'w libpq \<Rightarrow> ptr \<Rightarrow> 'w \<Rightarrow> 'w" where
  "rust_pq_finish L conn w = (if is_null conn then w else PQfinish L conn w)"

definition rust_pq_exec :: "'w libpq \<Rightarrow> ptr \<Rightarrow> string option \<Rightarrow> 'w \<Rightarrow> ptr \<times> 'w" where
  "rust_pq_exec L conn command w =
     (case command of
        None \<Rightarrow> (0, w)
      | Some sql \<Rightarrow> if is_null conn then (0, w) else PQexec L conn sql w)"

definition rust_pq_ntuples :: "'w libpq \<Rightarrow> ptr \<Rightarrow> 'w \<Rightarrow> int" where
  "rust_pq_ntuples L res w = (if is_null res then 0 else PQntuples L res w)"

definition rust_pq_nfields :: "'w libpq \<Rightarrow> ptr \<Rightarrow> 'w \<Rightarrow> int" where
  "rust_pq_nfields L res w = (if is_null res then 0 else PQnfields L res w)"

definition rust_pq_result_error_message :: "'w libpq \<Rightarrow> ptr \<Rightarrow> 'w \<Rightarrow> string option" where
  "rust_pq_result_error_message L res w = (if is_null res then None else PQresultErrorMessage L res w)"

definition rust_pq_result_error_field :: "'w libpq \<Rightarrow> ptr \<Rightarrow> int \<Rightarrow> 'w \<Rightarrow> string option" where
  "rust_pq_result_error_field L res fieldcode w =
     (if is_null res then None else PQresultErrorField L res fieldcode w)"

definition rust_pq_transaction_status :: "'w libpq \<Rightarrow> ptr \<Rightarrow> 'w \<Rightarrow> int" where
  "rust_pq_transaction_status L conn w = (if is_null conn then -1 else PQtransactionStatus L conn w)"

definition rust_pq_socket :: "'w libpq \<Rightarrow> ptr \<Rightarrow> 'w \<Rightarrow> int" where
  "rust_pq_socket L conn w = (if is_null conn then -1 else PQsocket L conn w)"

text \<open>\<open>CString::new\<close>: refused when the text holds a NUL byte.\<close>

definition cstring_new :: "string \<Rightarrow> string option" where
  "cstring_new s = (if CHR 0x00 \<in> set s then None else Some s)"

section \<open>Probing the server's settings\<close>

definition read_pg_int :: "'w libpq \<Rightarrow> ptr \<Rightarrow> int \<Rightarrow> int \<Rightarrow> 'w \<Rightarrow> int option" where
  "read_pg_int L res row col w =
     (if is_null res then None
      else if PQgetisnull L res row col w \<noteq> 0 then None
      else case PQgetvalue L res row col w of
             None \<Rightarrow> None
           | Some v \<Rightarrow> if v = [] then None else parse_i32 (trim v))"

definition probe_conninfo :: "string \<Rightarrow> int \<Rightarrow> string \<Rightarrow> string \<Rightarrow> string \<Rightarrow> string" where
  "probe_conninfo host port db user password =
     ''host='' @ host @ '' port='' @ show_int port @ '' dbname='' @ db @ '' user='' @ user
     @ '' password='' @ password @ '' connect_timeout=3''"

definition rust_pg_probe_max_connections ::
  "'w libpq \<Rightarrow> string \<Rightarrow> int \<Rightarrow> string \<Rightarrow> string \<Rightarrow> string \<Rightarrow> 'w \<Rightarrow> int \<times> 'w" where
  "rust_pg_probe_max_connections L host port db user password w0 =
     (if port \<le> 0 then (0, w0)
      else if host = [] \<or> db = [] \<or> user = [] then (0, w0)
      else case cstring_new (probe_conninfo host port db user password) of
        None \<Rightarrow> (0, w0)
      | Some ci \<Rightarrow>
          (let (probe, w1) = PQconnectdb L ci w0 in
           if is_null probe \<or> PQstatus L probe w1 \<noteq> CONNECTION_OK
           then (0, if is_null probe then w1 else PQfinish L probe w1)
           else
             (let (res, w2) = PQexec L probe ''SHOW max_connections'' w1;
                  v = (if \<not> is_null res \<and> PQresultStatus L res w2 = PGRES_TUPLES_OK
                          \<and> 0 < PQntuples L res w2
                       then (case read_pg_int L res 0 0 w2 of None \<Rightarrow> 0 | Some v \<Rightarrow> v)
                       else 0);
                  w3 = (if is_null res then w2 else PQclear L res w2);
                  w4 = PQfinish L probe w3
              in (if 0 < v then v else 0, w4))))"

definition idle_timeouts_query :: string where
  "idle_timeouts_query =
     ''SELECT CASE WHEN current_setting('' @ [CHR 0x27] @ ''idle_session_timeout'' @ [CHR 0x27]
     @ '') = '' @ [CHR 0x27] @ ''0'' @ [CHR 0x27] @ '' THEN 0 ELSE GREATEST(1, CEIL(EXTRACT(EPOCH FROM current_setting(''
     @ [CHR 0x27] @ ''idle_session_timeout'' @ [CHR 0x27] @ '')::interval))::int) END, CASE WHEN current_setting(''
     @ [CHR 0x27] @ ''idle_in_transaction_session_timeout'' @ [CHR 0x27] @ '') = '' @ [CHR 0x27] @ ''0'' @ [CHR 0x27]
     @ '' THEN 0 ELSE GREATEST(1, CEIL(EXTRACT(EPOCH FROM current_setting('' @ [CHR 0x27]
     @ ''idle_in_transaction_session_timeout'' @ [CHR 0x27] @ '')::interval))::int) END''"

text \<open>
  The two out-parameters are the second and third component of the result; the first is the
  returned flag.
\<close>

definition rust_pg_probe_idle_timeouts ::
  "'w libpq \<Rightarrow> string \<Rightarrow> int \<Rightarrow> string \<Rightarrow> string \<Rightarrow> string \<Rightarrow> 'w \<Rightarrow> (int \<times> int \<times> int) \<times> 'w" where
  "rust_pg_probe_idle_timeouts L host port db user password w0 =
     (if port \<le> 0 then ((0, 0, 0), w0)
      else if host = [] \<or> db = [] \<or> user = [] then ((0, 0, 0), w0)
      else case cstring_new (probe_conninfo host port db user password) of
        None \<Rightarrow> ((0, 0, 0), w0)
      | Some ci \<Rightarrow>
          (let (probe, w1) = PQconnectdb L ci w0 in
           if is_null probe \<or> PQstatus L probe w1 \<noteq> CONNECTION_OK
           then ((0, 0, 0), if is_null probe then w1 else PQfinish L probe w1)
           else
             (let (res, w2) = PQexec L probe idle_timeouts_query w1;
                  rows = (\<not> is_null res \<and> PQresultStatus L res w2 = PGRES_TUPLES_OK
                          \<and> 0 < PQntuples L res w2 \<and> 2 \<le> PQnfields L res w2);
                  sess = (if rows then read_pg_int L res 0 0 w2 else None);
                  intx = (if rows then read_pg_int L res 0 1 w2 else None);
                  w3 = (if is_null res then w2 else PQclear L res w2);
                  w4 = PQfinish L probe w3
              in ((if sess \<noteq> None \<and> intx \<noteq> None then 1 else 0,
                   case sess of None \<Rightarrow> 0 | Some v \<Rightarrow> v,
                   case intx of None \<Rightarrow> 0 | Some v \<Rightarrow> v), w4))))"

definition idle_cutoff :: "int \<Rightarrow> int \<Rightarrow> int" where
  "idle_cutoff session_s in_tx_s =
     (let cutoff = (if 0 < session_s then session_s else 0)
      in if 0 < in_tx_s \<and> (cutoff = 0 \<or> in_tx_s < cutoff) then in_tx_s else cutoff)"

definition align_idle_timeout :: "int \<Rightarrow> int \<Rightarrow> int \<Rightarrow> int \<Rightarrow> int" where
  "align_idle_timeout idle_timeout ok session_s in_tx_s =
     (if ok = 0 then idle_timeout
      else let cutoff = idle_cutoff session_s in_tx_s in
        if cutoff \<le> 0 then idle_timeout
        else let target = (if cutoff - 10 < 10 then 10 else cutoff - 10)
             in if cutoff \<le> idle_timeout then target else idle_timeout)"

definition rust_pg_align_idle_timeout_with_server ::
  "'w libpq \<Rightarrow> int \<Rightarrow> string \<Rightarrow> int \<Rightarrow> string \<Rightarrow> string \<Rightarrow> string \<Rightarrow> 'w \<Rightarrow> int \<times> 'w" where
  "rust_pg_align_idle_timeout_with_server L idle_timeout host port db user password w0 =
     (let ((ok, session_s, in_tx_s), w1) = rust_pg_probe_idle_timeouts L host port db user password w0
      in (align_idle_timeout idle_timeout ok session_s in_tx_s, w1))"

lemma idle_cutoff_min:
  "idle_cutoff a b =
     (if 0 < a \<and> 0 < b then min a b else if 0 < a then a else if 0 < b then b else 0)"
  by (auto simp: idle_cutoff_def)

text \<open>
  The aligned timeout never exceeds the operator's unless it is lifted to the floor of ten
  seconds, and it is below the server's cutoff whenever the cutoff leaves room for the
  margin.
\<close>

lemma align_idle_timeout_below_cutoff:
  assumes "ok \<noteq> 0" and "10 < idle_cutoff a b"
  shows "align_idle_timeout t ok a b < idle_cutoff a b"
  using assms by (auto simp: align_idle_timeout_def Let_def)

lemma align_idle_timeout_range:
  assumes "10 \<le> t"
  shows "10 \<le> align_idle_timeout t ok a b \<and> align_idle_timeout t ok a b \<le> t"
  using assms by (auto simp: align_idle_timeout_def Let_def)

section \<open>A quiet server\<close>

text \<open>
  An instance of the C functions on which every connection succeeds, every command is done
  at once and nothing is ever pending, for evaluating the model on concrete states. Its
  allocator hands out the addresses that the counter in the world names.
\<close>

definition quiet_pq :: "('w \<Rightarrow> nat) \<Rightarrow> ('w \<Rightarrow> 'w) \<Rightarrow> 'w libpq" where
  "quiet_pq next_addr bump =
     \<lparr>PQstatus = \<lambda>_ _. 0, PQconnectdb = \<lambda>_ w. (1, w), PQreset = \<lambda>_ w. w, PQfinish = \<lambda>_ w. w,
      PQexec = \<lambda>_ _ w. (1, w), PQresultStatus = \<lambda>_ _. 1, PQresultErrorMessage = \<lambda>_ _. None,
      PQresultErrorField = \<lambda>_ _ _. None, PQerrorMessage = \<lambda>_ _. None, PQclear = \<lambda>_ w. w,
      PQtransactionStatus = \<lambda>_ _. 0, PQsocket = \<lambda>_ _. 3, PQconsumeInput = \<lambda>_ w. (1, w),
      PQisBusy = \<lambda>_ _. 0, PQgetResult = \<lambda>_ w. (0, w), PQsetnonblocking = \<lambda>_ _ w. (0, w),
      PQgetCancel = \<lambda>_ w. (0, w), PQcancel = \<lambda>_ w. (1, w), PQfreeCancel = \<lambda>_ w. w,
      PQntuples = \<lambda>_ _. 0, PQnfields = \<lambda>_ _. 0, PQgetisnull = \<lambda>_ _ _ _. 1, PQgetvalue = \<lambda>_ _ _ _. None,
      setsockopt = \<lambda>_ w. (0, w),
      calloc = \<lambda>live w. (if next_addr w \<in> live then 0 else next_addr w, bump w),
      pthread_mutexattr_init = \<lambda>w. (0, w), pthread_mutex_init = \<lambda>w. (0, w),
      unix_time = \<lambda>_. 1000, usleep = \<lambda>_ w. w, getpid = \<lambda>_. 1\<rparr>"

lemma quiet_pq_fresh: "calloc_fresh (quiet_pq next_addr bump)"
  by (simp add: calloc_fresh_def quiet_pq_def)

end
