(* ===== verification/Stmt_Cache.thy ===== *)
theory Stmt_Cache
  imports Prelude
begin

text \<open>
  \<^verbatim>\<open>pg_client_stmt_cache.rs\<close>, the table itself: the prepared statements of one connection in
  a hash table of 512 slots with linear probing and least-recently-used eviction. A name
  buffer of \<open>STMT_NAME_LEN\<close> bytes is the C string it holds.

  The lemmas show that the probe loops find an entry wherever it is (the table's invariant:
  no empty slot between an entry's home slot and the slot it is in), that every operation
  keeps the invariant, that \<open>add\<close> is a map update except for the entry it evicts from a full
  table, that the evicted entry is a least recently used one, and, through the locale
  \<open>keyed_cache\<close>, that a hit always answers what was added last.
\<close>

unbundle bit_operations_syntax

definition STMT_CACHE_SIZE :: nat where "STMT_CACHE_SIZE = 512"
definition STMT_NAME_LEN :: nat where "STMT_NAME_LEN = 32"
definition i64_MAX :: int where "i64_MAX = 9223372036854775807"

record StmtCacheEntry =
  sql_hash :: u64
  stmt_name :: string
  param_count :: int
  last_used :: int

record StmtCache =
  entries :: "StmtCacheEntry option list"
  count :: nat

definition StmtCache_new :: StmtCache where
  "StmtCache_new = \<lparr>entries = replicate STMT_CACHE_SIZE None, count = 0\<rparr>"

definition start_index :: "u64 \<Rightarrow> nat" where
  "start_index h = unat h AND (STMT_CACHE_SIZE - 1)"

definition probe_index :: "u64 \<Rightarrow> nat \<Rightarrow> nat" where
  "probe_index h i = (start_index h + i) AND (STMT_CACHE_SIZE - 1)"

text \<open>The probe loop shared by \<open>lookup\<close> and \<open>lookup_mut\<close>: the index it stops at.\<close>

fun lookup_loop :: "StmtCacheEntry option list \<Rightarrow> u64 \<Rightarrow> nat list \<Rightarrow> nat option" where
  "lookup_loop es h [] = None"
| "lookup_loop es h (i # is) =
     (case es ! probe_index h i of
        Some entry \<Rightarrow> if sql_hash entry = h then Some (probe_index h i) else lookup_loop es h is
      | None \<Rightarrow> None)"

definition lookup_idx :: "StmtCache \<Rightarrow> u64 \<Rightarrow> nat option" where
  "lookup_idx c h = (if h = 0 then None else lookup_loop (entries c) h [0..<STMT_CACHE_SIZE])"

definition StmtCache_lookup :: "StmtCache \<Rightarrow> u64 \<Rightarrow> StmtCacheEntry option" where
  "StmtCache_lookup c h = (case lookup_idx c h of None \<Rightarrow> None | Some i \<Rightarrow> entries c ! i)"

text \<open>
  \<open>lookup_mut\<close> hands out the entry for the caller to change in place; \<open>f\<close> is that change,
  applied to the entry found.
\<close>

definition lookup_mut :: "(StmtCacheEntry \<Rightarrow> StmtCacheEntry) \<Rightarrow> StmtCache \<Rightarrow> u64 \<Rightarrow>
    StmtCacheEntry option \<times> StmtCache" where
  "lookup_mut f c h =
     (case lookup_idx c h of
        None \<Rightarrow> (None, c)
      | Some i \<Rightarrow>
          (case entries c ! i of
             None \<Rightarrow> (None, c)
           | Some e \<Rightarrow> (Some (f e), c\<lparr>entries := (entries c)[i := Some (f e)]\<rparr>)))"

datatype add_probe = Existing nat | Vacant nat | TableFull "nat option"

fun add_loop :: "StmtCacheEntry option list \<Rightarrow> u64 \<Rightarrow> nat list \<Rightarrow> nat option \<Rightarrow> int \<Rightarrow> add_probe" where
  "add_loop es h [] oldest_idx oldest_time = TableFull oldest_idx"
| "add_loop es h (i # is) oldest_idx oldest_time =
     (let idx = probe_index h i in
      case es ! idx of
        Some entry \<Rightarrow>
          (let (oi, ot) = (if last_used entry < oldest_time then (Some idx, last_used entry)
                           else (oldest_idx, oldest_time))
           in if sql_hash entry = h then Existing idx else add_loop es h is oi ot)
      | None \<Rightarrow> Vacant idx)"

definition StmtCache_add :: "u64 \<Rightarrow> string \<Rightarrow> int \<Rightarrow> int \<Rightarrow> StmtCache \<Rightarrow>
    (int \<times> string option) \<times> StmtCache" where
  "StmtCache_add h name params now c =
     (let new = \<lparr>sql_hash = h, stmt_name = name, param_count = params, last_used = now\<rparr> in
      if h = 0 then ((-1, None), c)
      else case add_loop (entries c) h [0..<STMT_CACHE_SIZE] None i64_MAX of
        Existing idx \<Rightarrow> ((int idx, None), c\<lparr>entries := (entries c)[idx := Some new]\<rparr>)
      | Vacant idx \<Rightarrow>
          ((int idx, None), c\<lparr>entries := (entries c)[idx := Some new], count := count c + 1\<rparr>)
      | TableFull (Some lru_idx) \<Rightarrow>
          ((int lru_idx, map_option stmt_name (entries c ! lru_idx)),
           c\<lparr>entries := (entries c)[lru_idx := Some new]\<rparr>)
      | TableFull None \<Rightarrow> ((-1, None), c))"

definition StmtCache_clear :: "StmtCache \<Rightarrow> string list \<times> StmtCache" where
  "StmtCache_clear c =
     (map stmt_name (List.map_filter id (entries c)),
      c\<lparr>entries := map (\<lambda>_. None) (entries c), count := 0\<rparr>)"

definition stmt_name_from_c :: "string option \<Rightarrow> string option" where
  "stmt_name_from_c p = map_option (take (STMT_NAME_LEN - 1)) p"

section \<open>The invariant\<close>

definition home_run :: "StmtCacheEntry option list \<Rightarrow> u64 \<Rightarrow> nat \<Rightarrow> nat \<Rightarrow> bool" where
  "home_run es h d j \<longleftrightarrow> d < STMT_CACHE_SIZE \<and> probe_index h d = j \<and> (\<forall>i\<le>d. es ! probe_index h i \<noteq> None)"

definition stmt_cache_ok :: "StmtCache \<Rightarrow> bool" where
  "stmt_cache_ok c \<longleftrightarrow>
     length (entries c) = STMT_CACHE_SIZE
     \<and> count c = length (filter (\<lambda>e. e \<noteq> None) (entries c))
     \<and> (\<forall>j<STMT_CACHE_SIZE. \<forall>e. entries c ! j = Some e \<longrightarrow>
          sql_hash e \<noteq> 0 \<and> last_used e < i64_MAX \<and> (\<exists>d. home_run (entries c) (sql_hash e) d j))
     \<and> (\<forall>j<STMT_CACHE_SIZE. \<forall>k<STMT_CACHE_SIZE. \<forall>e f.
          entries c ! j = Some e \<longrightarrow> entries c ! k = Some f \<longrightarrow> sql_hash e = sql_hash f \<longrightarrow> j = k)"

text \<open>The map a table stands for: the name and parameter count cached for a hash.\<close>

definition cached :: "StmtCache \<Rightarrow> u64 \<Rightarrow> (string \<times> int) option" where
  "cached c h = map_option (\<lambda>e. (stmt_name e, param_count e)) (StmtCache_lookup c h)"

lemma and_511: "(n::nat) AND (STMT_CACHE_SIZE - 1) = n mod STMT_CACHE_SIZE"
proof -
  have "STMT_CACHE_SIZE - 1 = mask 9" and "STMT_CACHE_SIZE = 2 ^ 9"
    by (simp_all add: STMT_CACHE_SIZE_def mask_eq_exp_minus_1)
  then show ?thesis by (simp flip: take_bit_eq_mask add: take_bit_eq_mod)
qed

lemma size_pos [simp]: "0 < STMT_CACHE_SIZE"
  by (simp add: STMT_CACHE_SIZE_def)

lemma probe_index_mod: "probe_index h i = (unat h + i) mod STMT_CACHE_SIZE"
  unfolding probe_index_def start_index_def and_511 by (rule mod_add_left_eq)

lemma probe_index_bound [simp]: "probe_index h i < STMT_CACHE_SIZE"
  by (simp add: probe_index_mod)

lemma add_mod_inject_le:
  assumes "i \<le> j" and "j < n" and "(a + i) mod n = (a + j) mod (n::nat)"
  shows "i = j"
proof -
  from assms(1,3) have "n dvd (a + j) - (a + i)"
    by (metis add_le_cancel_left mod_eq_dvd_iff_nat)
  with assms(1,2) have "j - i = 0"
    by (metis diff_add_inverse2 add_diff_cancel_left dvd_imp_le less_imp_diff_less linorder_not_le neq0_conv)
  with assms(1) show ?thesis by simp
qed

lemma probe_index_inject:
  assumes "i < STMT_CACHE_SIZE" "j < STMT_CACHE_SIZE" "probe_index h i = probe_index h j"
  shows "i = j"
  using assms add_mod_inject_le [of i j STMT_CACHE_SIZE "unat h"]
    add_mod_inject_le [of j i STMT_CACHE_SIZE "unat h"]
  by (cases "i \<le> j") (simp_all add: probe_index_mod)

lemma upt_split: "d < n \<Longrightarrow> [0..<n] = [0..<d] @ d # [Suc d..<n]"
  using upt_add_eq_append [of 0 d "n - d"] upt_conv_Cons [of d n] by simp

section \<open>The probe loops\<close>

lemma lookup_loop_append:
  assumes "\<And>i. i \<in> set xs \<Longrightarrow> \<exists>e. es ! probe_index h i = Some e \<and> sql_hash e \<noteq> h"
  shows "lookup_loop es h (xs @ ys) = lookup_loop es h ys"
  using assms by (induction xs) fastforce+

lemma lookup_loop_Some:
  "lookup_loop es h is = Some j \<Longrightarrow>
     j < STMT_CACHE_SIZE \<and> (\<exists>e. es ! j = Some e \<and> sql_hash e = h)"
  by (induction "is") (auto split: option.splits if_splits)

lemma add_loop_append:
  assumes "\<And>i. i \<in> set xs \<Longrightarrow> \<exists>e. es ! probe_index h i = Some e \<and> sql_hash e \<noteq> h"
  shows "\<exists>oi' ot'. add_loop es h (xs @ ys) oi ot = add_loop es h ys oi' ot'"
  using assms
proof (induction xs arbitrary: oi ot)
  case (Cons i xs)
  from Cons.prems [of i] obtain e where "es ! probe_index h i = Some e" "sql_hash e \<noteq> h" by auto
  with Cons.IH Cons.prems show ?case by (auto simp: Let_def)
qed auto

text \<open>
  How far a probe for \<open>h\<close> gets: to the entry, to the first empty slot, or around the whole
  table.
\<close>

definition passes :: "StmtCacheEntry option list \<Rightarrow> u64 \<Rightarrow> nat \<Rightarrow> bool" where
  "passes es h d \<longleftrightarrow> (\<forall>i<d. \<exists>e. es ! probe_index h i = Some e \<and> sql_hash e \<noteq> h)"

lemma probe_cases:
  obtains (hit) d e where "d < STMT_CACHE_SIZE" "passes es h d" "es ! probe_index h d = Some e" "sql_hash e = h"
  | (gap) d where "d < STMT_CACHE_SIZE" "passes es h d" "es ! probe_index h d = None"
  | (full) "passes es h STMT_CACHE_SIZE"
proof (cases "passes es h STMT_CACHE_SIZE")
  case False
  let ?stop = "\<lambda>i. i < STMT_CACHE_SIZE \<and> (case es ! probe_index h i of None \<Rightarrow> True | Some e \<Rightarrow> sql_hash e = h)"
  from False have "\<exists>i. ?stop i" by (auto simp: passes_def split: option.splits)
  then have stop: "?stop (LEAST i. ?stop i)" by (rule LeastI_ex)
  have "passes es h (LEAST i. ?stop i)"
    unfolding passes_def
  proof (intro allI impI)
    fix i assume i: "i < (LEAST i. ?stop i)"
    then have "\<not> ?stop i" by (rule not_less_Least)
    with i stop show "\<exists>e. es ! probe_index h i = Some e \<and> sql_hash e \<noteq> h"
      by (auto split: option.splits)
  qed
  with stop show ?thesis by (auto split: option.splits intro: hit gap)
qed (rule full)

lemma passes_set: "passes es h d \<Longrightarrow> i \<in> set [0..<d] \<Longrightarrow> \<exists>e. es ! probe_index h i = Some e \<and> sql_hash e \<noteq> h"
  by (simp add: passes_def)

lemma lookup_loop_passes: "passes es h d \<Longrightarrow> lookup_loop es h ([0..<d] @ ys) = lookup_loop es h ys"
  by (rule lookup_loop_append) (rule passes_set)

lemma add_loop_passes: "passes es h d \<Longrightarrow> \<exists>oi' ot'. add_loop es h ([0..<d] @ ys) oi ot = add_loop es h ys oi' ot'"
  by (rule add_loop_append) (rule passes_set)

lemma lookup_loop_hit:
  assumes "d < STMT_CACHE_SIZE" "passes es h d" "es ! probe_index h d = Some e" "sql_hash e = h"
  shows "lookup_loop es h [0..<STMT_CACHE_SIZE] = Some (probe_index h d)"
  using assms by (simp add: upt_split lookup_loop_passes)

lemma lookup_loop_gap:
  assumes "d < STMT_CACHE_SIZE" "passes es h d" "es ! probe_index h d = None"
  shows "lookup_loop es h [0..<STMT_CACHE_SIZE] = None"
  using assms by (simp add: upt_split lookup_loop_passes)

lemma lookup_loop_full:
  "passes es h STMT_CACHE_SIZE \<Longrightarrow> lookup_loop es h [0..<STMT_CACHE_SIZE] = None"
  using lookup_loop_passes [where ys = "[]"] by simp

lemma add_loop_hit:
  assumes "d < STMT_CACHE_SIZE" "passes es h d" "es ! probe_index h d = Some e" "sql_hash e = h"
  shows "add_loop es h [0..<STMT_CACHE_SIZE] oi ot = Existing (probe_index h d)"
proof -
  obtain oi' ot' where "add_loop es h [0..<STMT_CACHE_SIZE] oi ot
      = add_loop es h (d # [Suc d..<STMT_CACHE_SIZE]) oi' ot'"
    using add_loop_passes [OF assms(2)] upt_split [OF assms(1)] by metis
  with assms show ?thesis by (simp add: Let_def split: if_splits)
qed

lemma add_loop_gap:
  assumes "d < STMT_CACHE_SIZE" "passes es h d" "es ! probe_index h d = None"
  shows "add_loop es h [0..<STMT_CACHE_SIZE] oi ot = Vacant (probe_index h d)"
proof -
  obtain oi' ot' where "add_loop es h [0..<STMT_CACHE_SIZE] oi ot
      = add_loop es h (d # [Suc d..<STMT_CACHE_SIZE]) oi' ot'"
    using add_loop_passes [OF assms(2)] upt_split [OF assms(1)] by metis
  with assms show ?thesis by (simp add: Let_def)
qed

text \<open>On a full table the loop remembers a least recently used entry.\<close>

lemma add_loop_full:
  assumes "\<And>i. i \<in> set is \<Longrightarrow> \<exists>e. es ! probe_index h i = Some e \<and> sql_hash e \<noteq> h \<and> last_used e < i64_MAX"
    and "oi = None \<and> ot = i64_MAX
       \<or> (\<exists>k e. oi = Some k \<and> k < STMT_CACHE_SIZE \<and> es ! k = Some e \<and> last_used e = ot \<and> ot < i64_MAX)"
    and "oi \<noteq> None \<or> is \<noteq> []"
  shows "\<exists>k e. add_loop es h is oi ot = TableFull (Some k) \<and> k < STMT_CACHE_SIZE \<and> es ! k = Some e
           \<and> last_used e \<le> ot \<and> (\<forall>i\<in>set is. \<forall>f. es ! probe_index h i = Some f \<longrightarrow> last_used e \<le> last_used f)"
  using assms
proof (induction "is" arbitrary: oi ot)
  case (Cons i "is")
  from Cons.prems(1) [of i] obtain e
    where e: "es ! probe_index h i = Some e" "sql_hash e \<noteq> h" "last_used e < i64_MAX" by auto
  define oi' where "oi' = (if last_used e < ot then Some (probe_index h i) else oi)"
  define ot' where "ot' = (if last_used e < ot then last_used e else ot)"
  have unfold: "add_loop es h (i # is) oi ot = add_loop es h is oi' ot'"
    using e by (simp add: oi'_def ot'_def Let_def)
  have inv: "oi' = None \<and> ot' = i64_MAX \<or>
      (\<exists>k e. oi' = Some k \<and> k < STMT_CACHE_SIZE \<and> es ! k = Some e \<and> last_used e = ot' \<and> ot' < i64_MAX)"
    and some: "oi' \<noteq> None \<or> is \<noteq> []"
    using Cons.prems(2) e by (auto simp: oi'_def ot'_def)
  obtain k f where "add_loop es h is oi' ot' = TableFull (Some k)" "k < STMT_CACHE_SIZE" "es ! k = Some f"
    "last_used f \<le> ot'" "\<forall>i\<in>set is. \<forall>g. es ! probe_index h i = Some g \<longrightarrow> last_used f \<le> last_used g"
    using Cons.IH [OF _ inv some] Cons.prems(1) by (meson list.set_intros(2))
  then show ?case using unfold e by (auto simp: ot'_def split: if_splits)
qed auto

section \<open>Lookup is exact, updates keep the invariant\<close>

lemma stmt_cache_okD:
  assumes "stmt_cache_ok c"
  shows "length (entries c) = STMT_CACHE_SIZE"
    and "count c = length (filter (\<lambda>e. e \<noteq> None) (entries c))"
    and "j < STMT_CACHE_SIZE \<Longrightarrow> entries c ! j = Some e \<Longrightarrow>
           sql_hash e \<noteq> 0 \<and> last_used e < i64_MAX \<and> (\<exists>d. home_run (entries c) (sql_hash e) d j)"
    and "j < STMT_CACHE_SIZE \<Longrightarrow> k < STMT_CACHE_SIZE \<Longrightarrow> entries c ! j = Some e \<Longrightarrow>
           entries c ! k = Some f \<Longrightarrow> sql_hash e = sql_hash f \<Longrightarrow> j = k"
  using assms unfolding stmt_cache_ok_def by blast+

lemma home_run_passes:
  assumes ok: "stmt_cache_ok c" and j: "j < STMT_CACHE_SIZE" "entries c ! j = Some e"
    and run: "home_run (entries c) (sql_hash e) d j"
  shows "passes (entries c) (sql_hash e) d"
  unfolding passes_def
proof (intro allI impI)
  fix i assume "i < d"
  with run have "entries c ! probe_index (sql_hash e) i \<noteq> None"
    unfolding home_run_def by (meson less_imp_le)
  then obtain f where f: "entries c ! probe_index (sql_hash e) i = Some f" by blast
  have "sql_hash f \<noteq> sql_hash e"
  proof
    assume "sql_hash f = sql_hash e"
    then have "probe_index (sql_hash e) i = probe_index (sql_hash e) d"
      using stmt_cache_okD(4) [OF ok _ j(1) f j(2)] run by (simp add: home_run_def)
    then have "i = d"
      using \<open>i < d\<close> run by (rule_tac probe_index_inject [where h = "sql_hash e"]) (simp_all add: home_run_def)
    with \<open>i < d\<close> show False by simp
  qed
  with f show "\<exists>f. entries c ! probe_index (sql_hash e) i = Some f \<and> sql_hash f \<noteq> sql_hash e" by blast
qed

lemma lookup_idx_iff:
  assumes ok: "stmt_cache_ok c"
  shows "lookup_idx c h = Some j \<longleftrightarrow> j < STMT_CACHE_SIZE \<and> (\<exists>e. entries c ! j = Some e \<and> sql_hash e = h)"
proof
  assume "lookup_idx c h = Some j"
  then show "j < STMT_CACHE_SIZE \<and> (\<exists>e. entries c ! j = Some e \<and> sql_hash e = h)"
    by (auto simp: lookup_idx_def split: if_splits dest: lookup_loop_Some)
next
  assume "j < STMT_CACHE_SIZE \<and> (\<exists>e. entries c ! j = Some e \<and> sql_hash e = h)"
  then obtain e where j: "j < STMT_CACHE_SIZE" "entries c ! j = Some e" "sql_hash e = h" by blast
  then obtain d where run: "home_run (entries c) h d j" and "h \<noteq> 0"
    using stmt_cache_okD(3) [OF ok] by blast
  have "passes (entries c) h d"
    using home_run_passes [OF ok j(1,2)] run j(3) by blast
  then show "lookup_idx c h = Some j"
    using run j \<open>h \<noteq> 0\<close> lookup_loop_hit [of d "entries c" h e]
    by (auto simp: home_run_def lookup_idx_def)
qed

lemma lookup_iff:
  assumes "stmt_cache_ok c"
  shows "StmtCache_lookup c h = Some e \<longleftrightarrow> (\<exists>j<STMT_CACHE_SIZE. entries c ! j = Some e \<and> sql_hash e = h)"
proof (cases "lookup_idx c h")
  case None
  then have "\<not> (\<exists>j<STMT_CACHE_SIZE. entries c ! j = Some e \<and> sql_hash e = h)"
    using lookup_idx_iff [OF assms, of h] by (metis option.distinct(1))
  with None show ?thesis by (simp add: StmtCache_lookup_def)
next
  case (Some j)
  then obtain f where "j < STMT_CACHE_SIZE" "entries c ! j = Some f" "sql_hash f = h"
    using lookup_idx_iff [OF assms] by blast
  note j = this
  have "StmtCache_lookup c h = Some f"
    using Some j by (simp add: StmtCache_lookup_def)
  moreover have "g = f" if "k < STMT_CACHE_SIZE" "entries c ! k = Some g" "sql_hash g = h" for k g
    using stmt_cache_okD(4) [OF assms that(1) j(1) that(2) j(2)] that(2,3) j(2,3) by simp
  ultimately show ?thesis using j by (metis option.inject)
qed

lemma lookup_eqI:
  assumes "stmt_cache_ok c" "stmt_cache_ok c'"
    and "\<And>e. (\<exists>j<STMT_CACHE_SIZE. entries c ! j = Some e \<and> sql_hash e = h)
         \<longleftrightarrow> (\<exists>j<STMT_CACHE_SIZE. entries c' ! j = Some e \<and> sql_hash e = h)"
  shows "StmtCache_lookup c h = StmtCache_lookup c' h"
proof -
  have "StmtCache_lookup c h = Some e \<longleftrightarrow> StmtCache_lookup c' h = Some e" for e
    using assms(3) by (simp add: lookup_iff [OF assms(1)] lookup_iff [OF assms(2)])
  then show ?thesis by (metis not_None_eq)
qed

lemma filter_update_count:
  "j < length es \<Longrightarrow> length (filter (\<lambda>e. e \<noteq> None) (es[j := Some x])) =
     length (filter (\<lambda>e. e \<noteq> None) es) + (if es ! j = None then 1 else 0)"
proof (induction es arbitrary: j)
  case (Cons a es)
  then show ?case by (cases j) auto
qed simp

lemma home_run_update: "home_run es h d j \<Longrightarrow> k < length es \<Longrightarrow> home_run (es[k := Some x]) h d j"
  by (auto simp: home_run_def nth_list_update)

text \<open>Storing an entry in a slot its probe sequence reaches keeps the table well formed.\<close>

definition put_entry :: "nat \<Rightarrow> StmtCacheEntry \<Rightarrow> StmtCache \<Rightarrow> StmtCache" where
  "put_entry j e c = c\<lparr>entries := (entries c)[j := Some e],
                      count := count c + (if entries c ! j = None then 1 else 0)\<rparr>"

lemma put_entry_ok:
  assumes ok: "stmt_cache_ok c" and j: "j < STMT_CACHE_SIZE"
    and e: "sql_hash e \<noteq> 0" "last_used e < i64_MAX"
    and run: "home_run ((entries c)[j := Some e]) (sql_hash e) d j"
    and uniq: "\<And>k f. k < STMT_CACHE_SIZE \<Longrightarrow> k \<noteq> j \<Longrightarrow> entries c ! k = Some f \<Longrightarrow> sql_hash f \<noteq> sql_hash e"
  shows "stmt_cache_ok (put_entry j e c)"
proof -
  note len = stmt_cache_okD(1) [OF ok]
  have "sql_hash f \<noteq> 0 \<and> last_used f < i64_MAX
      \<and> (\<exists>d. home_run (entries (put_entry j e c)) (sql_hash f) d k)"
    if "k < STMT_CACHE_SIZE" "entries (put_entry j e c) ! k = Some f" for k f
  proof (cases "k = j")
    case True
    with that len e run show ?thesis by (auto simp: put_entry_def)
  next
    case False
    with that len have "entries c ! k = Some f" by (simp add: put_entry_def)
    with that(1) j len show ?thesis
      using stmt_cache_okD(3) [OF ok] home_run_update by (fastforce simp: put_entry_def)
  qed
  moreover have "k = l" if "k < STMT_CACHE_SIZE" "l < STMT_CACHE_SIZE"
    "entries (put_entry j e c) ! k = Some f" "entries (put_entry j e c) ! l = Some g"
    "sql_hash f = sql_hash g" for k l f g
    using that len j uniq [of k f] uniq [of l g] stmt_cache_okD(4) [OF ok, of k l f g]
    by (auto simp: put_entry_def nth_list_update split: if_splits)
  moreover have "length (entries (put_entry j e c)) = STMT_CACHE_SIZE"
    using len by (simp add: put_entry_def)
  moreover have "count (put_entry j e c) = length (filter (\<lambda>e. e \<noteq> None) (entries (put_entry j e c)))"
    using len j filter_update_count [of j "entries c" e] stmt_cache_okD(2) [OF ok]
    by (simp del: not_None_eq add: put_entry_def)
  ultimately show ?thesis unfolding stmt_cache_ok_def by blast
qed

lemma lookup_put_entry:
  assumes ok: "stmt_cache_ok c" and ok': "stmt_cache_ok (put_entry j e c)" and j: "j < STMT_CACHE_SIZE"
  shows "StmtCache_lookup (put_entry j e c) h =
     (if h = sql_hash e then Some e
      else if \<exists>old. entries c ! j = Some old \<and> sql_hash old = h then None
      else StmtCache_lookup c h)"
proof -
  note len = stmt_cache_okD(1) [OF ok]
  have slot: "entries (put_entry j e c) ! k = (if k = j then Some e else entries c ! k)"
    if "k < STMT_CACHE_SIZE" for k
    using that len by (auto simp: put_entry_def)
  consider (new) "h = sql_hash e"
    | (old) old where "h \<noteq> sql_hash e" "entries c ! j = Some old" "sql_hash old = h"
    | (other) "h \<noteq> sql_hash e" "\<nexists>old. entries c ! j = Some old \<and> sql_hash old = h"
    by blast
  then show ?thesis
  proof cases
    case new
    have "entries (put_entry j e c) ! j = Some e" using slot [OF j] by simp
    then have "StmtCache_lookup (put_entry j e c) h = Some e"
      unfolding lookup_iff [OF ok'] using j new by blast
    with new show ?thesis by simp
  next
    case old
    have "StmtCache_lookup (put_entry j e c) h \<noteq> Some f" for f
    proof
      assume "StmtCache_lookup (put_entry j e c) h = Some f"
      then obtain k where k: "k < STMT_CACHE_SIZE" "entries (put_entry j e c) ! k = Some f" "sql_hash f = h"
        using lookup_iff [OF ok'] by blast
      with slot [OF k(1)] old(1) have "k \<noteq> j" "entries c ! k = Some f" by (auto split: if_splits)
      with stmt_cache_okD(4) [OF ok k(1) j this(2) old(2)] k(3) old(3) show False by simp
    qed
    then have "StmtCache_lookup (put_entry j e c) h = None" by (metis not_None_eq)
    with old show ?thesis by simp
  next
    case other
    have "entries (put_entry j e c) ! k = Some f \<and> sql_hash f = h \<longleftrightarrow> entries c ! k = Some f \<and> sql_hash f = h"
      if "k < STMT_CACHE_SIZE" for k f
      using that slot [OF that] other by auto
    then have "StmtCache_lookup (put_entry j e c) h = StmtCache_lookup c h"
      by (rule_tac lookup_eqI [OF ok' ok]) blast
    with other show ?thesis by auto
  qed
qed

section \<open>The operations\<close>

lemma full_table_slots:
  assumes "passes es h STMT_CACHE_SIZE" "k < STMT_CACHE_SIZE"
  shows "\<exists>i<STMT_CACHE_SIZE. probe_index h i = k"
proof -
  have inj: "inj_on (probe_index h) {..<STMT_CACHE_SIZE}"
    by (auto intro: inj_onI probe_index_inject)
  have "probe_index h ` {..<STMT_CACHE_SIZE} \<subseteq> {..<STMT_CACHE_SIZE}" by auto
  then have "probe_index h ` {..<STMT_CACHE_SIZE} = {..<STMT_CACHE_SIZE}"
    by (rule endo_inj_surj [OF finite_lessThan _ inj])
  with assms(2) show ?thesis by (metis imageE lessThan_iff)
qed

lemma full_table_count:
  assumes "stmt_cache_ok c" "passes (entries c) h STMT_CACHE_SIZE"
  shows "count c = STMT_CACHE_SIZE"
proof -
  have "\<forall>k<STMT_CACHE_SIZE. entries c ! k \<noteq> None"
    using full_table_slots [OF assms(2)] assms(2) by (fastforce simp: passes_def)
  then have "filter (\<lambda>e. e \<noteq> None) (entries c) = entries c"
    using stmt_cache_okD(1) [OF assms(1)] by (subst filter_True) (auto simp: in_set_conv_nth)
  then show ?thesis using stmt_cache_okD(1,2) [OF assms(1)] by simp
qed

lemma home_run_put:
  assumes "passes es h d" "d < STMT_CACHE_SIZE" "length es = STMT_CACHE_SIZE"
  shows "home_run (es[probe_index h d := Some e]) h d (probe_index h d)"
  using assms by (auto simp: home_run_def passes_def nth_list_update le_less)

lemma home_run_full:
  assumes "passes es h STMT_CACHE_SIZE" "k < STMT_CACHE_SIZE" "length es = STMT_CACHE_SIZE"
  shows "\<exists>d. home_run (es[k := Some e]) h d k"
proof -
  obtain d where d: "d < STMT_CACHE_SIZE" "probe_index h d = k"
    using full_table_slots [OF assms(1,2)] by blast
  then have "passes es h d" using assms(1) by (auto simp: passes_def)
  then show ?thesis using home_run_put [OF _ d(1) assms(3), of h e] d(2) by blast
qed

abbreviation mk_entry :: "u64 \<Rightarrow> string \<Rightarrow> int \<Rightarrow> int \<Rightarrow> StmtCacheEntry" where
  "mk_entry h name params now \<equiv> \<lparr>sql_hash = h, stmt_name = name, param_count = params, last_used = now\<rparr>"

lemma no_other_hash:
  assumes "stmt_cache_ok c" "StmtCache_lookup c h = None" "k < STMT_CACHE_SIZE" "entries c ! k = Some f"
  shows "sql_hash f \<noteq> h"
  using assms lookup_iff [OF assms(1), of h f] by auto

lemma add_cases:
  assumes ok: "stmt_cache_ok c" and h: "h \<noteq> 0" and now: "now < i64_MAX"
  obtains (slot) j evicted where "StmtCache_add h name params now c
        = ((int j, evicted), put_entry j (mk_entry h name params now) c)"
      "j < STMT_CACHE_SIZE" "stmt_cache_ok (put_entry j (mk_entry h name params now) c)"
      "evicted = None \<Longrightarrow> \<forall>old. entries c ! j = Some old \<longrightarrow> sql_hash old = h"
      "evicted \<noteq> None \<Longrightarrow> count c = STMT_CACHE_SIZE \<and> StmtCache_lookup c h = None
         \<and> (\<exists>old. entries c ! j = Some old \<and> evicted = Some (stmt_name old)
              \<and> (\<forall>k<STMT_CACHE_SIZE. \<forall>f. entries c ! k = Some f \<longrightarrow> last_used old \<le> last_used f))"
proof (cases rule: probe_cases [of "entries c" h])
  case (hit d e)
  let ?j = "probe_index h d"
  have lk: "lookup_idx c h = Some ?j"
    using hit h by (simp add: lookup_idx_def lookup_loop_hit)
  have "stmt_cache_ok (put_entry ?j (mk_entry h name params now) c)"
  proof (rule put_entry_ok [OF ok])
    show "home_run ((entries c)[?j := Some (mk_entry h name params now)])
        (sql_hash (mk_entry h name params now)) d ?j"
      using hit home_run_put stmt_cache_okD(1) [OF ok] by simp
    show "sql_hash f \<noteq> sql_hash (mk_entry h name params now)"
      if "k < STMT_CACHE_SIZE" "k \<noteq> ?j" "entries c ! k = Some f" for k f
      using stmt_cache_okD(4) [OF ok that(1) _ that(3) hit(3)] that(2) hit(4) by auto
  qed (use h now in simp_all)
  moreover have "StmtCache_add h name params now c
      = ((int ?j, None), put_entry ?j (mk_entry h name params now) c)"
    using hit h by (simp add: StmtCache_add_def add_loop_hit put_entry_def)
  ultimately show ?thesis using hit by (intro slot [of ?j None]) auto
next
  case (gap d)
  let ?j = "probe_index h d"
  have lk: "StmtCache_lookup c h = None"
    using gap by (simp add: StmtCache_lookup_def lookup_idx_def lookup_loop_gap)
  have "stmt_cache_ok (put_entry ?j (mk_entry h name params now) c)"
  proof (rule put_entry_ok [OF ok])
    show "home_run ((entries c)[?j := Some (mk_entry h name params now)])
        (sql_hash (mk_entry h name params now)) d ?j"
      using gap home_run_put stmt_cache_okD(1) [OF ok] by simp
  qed (use h now no_other_hash [OF ok lk] in auto)
  moreover have "StmtCache_add h name params now c
      = ((int ?j, None), put_entry ?j (mk_entry h name params now) c)"
    using gap h by (simp add: StmtCache_add_def add_loop_gap put_entry_def)
  ultimately show ?thesis using gap by (intro slot [of ?j None]) auto
next
  case full
  have lk: "StmtCache_lookup c h = None"
    using full by (simp add: StmtCache_lookup_def lookup_idx_def lookup_loop_full)
  have "\<exists>k e. add_loop (entries c) h [0..<STMT_CACHE_SIZE] None i64_MAX = TableFull (Some k)
      \<and> k < STMT_CACHE_SIZE \<and> entries c ! k = Some e \<and> last_used e \<le> i64_MAX
      \<and> (\<forall>i\<in>set [0..<STMT_CACHE_SIZE]. \<forall>f. entries c ! probe_index h i = Some f \<longrightarrow> last_used e \<le> last_used f)"
  proof (rule add_loop_full)
    fix i assume "i \<in> set [0..<STMT_CACHE_SIZE]"
    then obtain e where "entries c ! probe_index h i = Some e" "sql_hash e \<noteq> h"
      using full by (auto simp: passes_def)
    then show "\<exists>e. entries c ! probe_index h i = Some e \<and> sql_hash e \<noteq> h \<and> last_used e < i64_MAX"
      using stmt_cache_okD(3) [OF ok probe_index_bound] by blast
  qed (simp_all add: STMT_CACHE_SIZE_def)
  then obtain k e where k: "add_loop (entries c) h [0..<STMT_CACHE_SIZE] None i64_MAX = TableFull (Some k)"
    "k < STMT_CACHE_SIZE" "entries c ! k = Some e"
    and min: "\<And>i f. i < STMT_CACHE_SIZE \<Longrightarrow> entries c ! probe_index h i = Some f \<Longrightarrow> last_used e \<le> last_used f"
    by auto
  obtain d where run: "home_run ((entries c)[k := Some (mk_entry h name params now)]) h d k"
    using home_run_full [OF full k(2) stmt_cache_okD(1) [OF ok]] by blast
  have "stmt_cache_ok (put_entry k (mk_entry h name params now) c)"
    using k(2) h now run no_other_hash [OF ok lk] by (intro put_entry_ok [OF ok, where d = d]) auto
  moreover have "StmtCache_add h name params now c
      = ((int k, Some (stmt_name e)), put_entry k (mk_entry h name params now) c)"
    using k h by (simp add: StmtCache_add_def put_entry_def)
  moreover have "last_used e \<le> last_used f" if "j < STMT_CACHE_SIZE" "entries c ! j = Some f" for j f
    using full_table_slots [OF full that(1)] min that(2) by blast
  ultimately show ?thesis
    using k full_table_count [OF ok full] lk by (intro slot [of k "Some (stmt_name e)"]) auto
qed

lemma stmt_cache_new_ok [simp]: "stmt_cache_ok StmtCache_new"
  by (simp add: stmt_cache_ok_def StmtCache_new_def filter_replicate)

lemma stmt_cache_clear_ok: "stmt_cache_ok c \<Longrightarrow> stmt_cache_ok (snd (StmtCache_clear c))"
  by (simp add: stmt_cache_ok_def StmtCache_clear_def filter_map comp_def)

lemma lookup_clear: "stmt_cache_ok c \<Longrightarrow> StmtCache_lookup (snd (StmtCache_clear c)) h = None"
  using lookup_iff [OF stmt_cache_clear_ok, of c h] stmt_cache_okD(1) [of c]
  by (cases "StmtCache_lookup (snd (StmtCache_clear c)) h") (auto simp: StmtCache_clear_def)

lemma lookup_new: "StmtCache_lookup StmtCache_new h = None"
  using lookup_iff [OF stmt_cache_new_ok, of h]
  by (cases "StmtCache_lookup StmtCache_new h") (auto simp: StmtCache_new_def)

definition touch_entry :: "int \<Rightarrow> StmtCacheEntry \<Rightarrow> StmtCacheEntry" where
  "touch_entry t e = e\<lparr>last_used := t\<rparr>"

lemma lookup_mut_put:
  assumes ok: "stmt_cache_ok c" and t: "t < i64_MAX"
  shows "snd (lookup_mut (touch_entry t) c h) = c \<and> StmtCache_lookup c h = None
     \<or> (\<exists>j e. j < STMT_CACHE_SIZE \<and> entries c ! j = Some e \<and> sql_hash e = h
          \<and> snd (lookup_mut (touch_entry t) c h) = put_entry j (touch_entry t e) c
          \<and> stmt_cache_ok (put_entry j (touch_entry t e) c))"
proof (cases "lookup_idx c h")
  case (Some j)
  then obtain e where j: "j < STMT_CACHE_SIZE" "entries c ! j = Some e" "sql_hash e = h"
    using lookup_idx_iff [OF ok] by blast
  obtain d where run: "home_run (entries c) h d j" and "h \<noteq> 0"
    using stmt_cache_okD(3) [OF ok j(1,2)] j(3) by blast
  have "stmt_cache_ok (put_entry j (touch_entry t e) c)"
  proof (rule put_entry_ok [OF ok j(1)])
    show "home_run ((entries c)[j := Some (touch_entry t e)]) (sql_hash (touch_entry t e)) d j"
      using home_run_update [OF run] j stmt_cache_okD(1) [OF ok] by (simp add: touch_entry_def)
    show "sql_hash f \<noteq> sql_hash (touch_entry t e)"
      if "k < STMT_CACHE_SIZE" "k \<noteq> j" "entries c ! k = Some f" for k f
      using stmt_cache_okD(4) [OF ok that(1) j(1) that(3) j(2)] that(2) by (auto simp: touch_entry_def)
  qed (use t j \<open>h \<noteq> 0\<close> in \<open>simp_all add: touch_entry_def\<close>)
  then show ?thesis using Some j by (auto simp: lookup_mut_def put_entry_def)
qed (simp add: lookup_mut_def StmtCache_lookup_def)

lemma lookup_mut_ok:
  "stmt_cache_ok c \<Longrightarrow> t < i64_MAX \<Longrightarrow> stmt_cache_ok (snd (lookup_mut (touch_entry t) c h))"
  using lookup_mut_put [of c t h] by auto

lemma cached_lookup_mut:
  assumes ok: "stmt_cache_ok c" and t: "t < i64_MAX"
  shows "cached (snd (lookup_mut (touch_entry t) c h)) k = cached c k"
  using lookup_mut_put [OF assms, of h]
proof
  assume "\<exists>j e. j < STMT_CACHE_SIZE \<and> entries c ! j = Some e \<and> sql_hash e = h
          \<and> snd (lookup_mut (touch_entry t) c h) = put_entry j (touch_entry t e) c
          \<and> stmt_cache_ok (put_entry j (touch_entry t e) c)"
  then obtain j e where j: "j < STMT_CACHE_SIZE" "entries c ! j = Some e" "sql_hash e = h"
    "snd (lookup_mut (touch_entry t) c h) = put_entry j (touch_entry t e) c"
    "stmt_cache_ok (put_entry j (touch_entry t e) c)" by blast
  have "StmtCache_lookup c h = Some e"
    using j(1,2,3) lookup_iff [OF ok] by blast
  then show ?thesis
    using lookup_put_entry [OF ok j(5) j(1), of k] j by (auto simp: cached_def touch_entry_def)
qed simp

text \<open>
  C29. Adding a statement to a well-formed table leaves it well formed, and the new entry is
  what a lookup of its hash finds. Either no other hash's answer changes, or the table held
  512 statements and exactly one of them is evicted; its name is returned for DEALLOCATE and
  no entry of the table was used longer ago.
\<close>

theorem stmt_cache_add_spec:
  assumes ok: "stmt_cache_ok c" and h: "h \<noteq> 0" and now: "now < i64_MAX"
    and add: "StmtCache_add h name params now c = ((idx, evicted), c')"
  shows "stmt_cache_ok c' \<and> StmtCache_lookup c' h = Some (mk_entry h name params now)
    \<and> (case evicted of
         None \<Rightarrow> (\<forall>h'. h' \<noteq> h \<longrightarrow> StmtCache_lookup c' h' = StmtCache_lookup c h')
       | Some gone \<Rightarrow> count c = 512
           \<and> (\<exists>v. StmtCache_lookup c (sql_hash v) = Some v \<and> stmt_name v = gone \<and> sql_hash v \<noteq> h
                \<and> (\<forall>h'. h' \<noteq> h \<longrightarrow> StmtCache_lookup c' h' =
                      (if h' = sql_hash v then None else StmtCache_lookup c h'))
                \<and> (\<forall>h' f. StmtCache_lookup c h' = Some f \<longrightarrow> last_used v \<le> last_used f)))"
  using ok h now
proof (cases rule: add_cases [of c h now name params])
  case (slot j ev)
  then have c': "c' = put_entry j (mk_entry h name params now) c" and ev: "evicted = ev"
    using add by auto
  note lk = lookup_put_entry [OF ok slot(3,2)]
  show ?thesis
  proof (cases ev)
    case None
    with slot(3,4) show ?thesis by (auto simp: c' ev lk)
  next
    case (Some gone)
    with slot(5) obtain old where old: "entries c ! j = Some old" "gone = stmt_name old"
      "\<And>k f. k < STMT_CACHE_SIZE \<Longrightarrow> entries c ! k = Some f \<Longrightarrow> last_used old \<le> last_used f"
      and full: "count c = 512" and miss: "StmtCache_lookup c h = None"
      by (auto simp: STMT_CACHE_SIZE_def)
    have here: "StmtCache_lookup c (sql_hash old) = Some old"
      using slot(2) old(1) lookup_iff [OF ok] by blast
    then have "sql_hash old \<noteq> h" using miss by auto
    moreover have "last_used old \<le> last_used f" if "StmtCache_lookup c h' = Some f" for h' f
      using that old(3) lookup_iff [OF ok] by blast
    ultimately show ?thesis
      using slot(3) here old(1,2) full Some by (auto simp: c' ev lk intro!: exI [of _ old])
  qed
qed

theorem stmt_cache_add_spec_witness:
  "StmtCache_lookup (snd (StmtCache_add 5 ''stmt_5'' 2 1000 StmtCache_new)) 5 = Some (mk_entry 5 ''stmt_5'' 2 1000)"
proof -
  obtain idx evicted c' where add: "StmtCache_add 5 ''stmt_5'' 2 1000 StmtCache_new = ((idx, evicted), c')"
    by (metis prod.exhaust_sel)
  have "StmtCache_lookup c' 5 = Some (mk_entry 5 ''stmt_5'' 2 1000)"
    using stmt_cache_add_spec [OF stmt_cache_new_ok _ _ add] by (simp add: i64_MAX_def)
  with add show ?thesis by simp
qed

section \<open>A cache against the map it caches\<close>

text \<open>
  The contract of a cache with eviction: a put is found until something displaces it, and
  nothing is ever found that was not put. From it follows that a cache is at every moment a
  part of the unbounded map that the same operations build.
\<close>

datatype ('k, 'v) cache_op = Put 'k 'v int | Touch 'k int | Wipe

fun op_time :: "('k, 'v) cache_op \<Rightarrow> int" where
  "op_time (Put k v t) = t"
| "op_time (Touch k t) = t"
| "op_time Wipe = 0"

fun run_cache :: "('k \<Rightarrow> 'v \<Rightarrow> int \<Rightarrow> 'c \<Rightarrow> 'c) \<Rightarrow> ('k \<Rightarrow> int \<Rightarrow> 'c \<Rightarrow> 'c) \<Rightarrow> ('c \<Rightarrow> 'c) \<Rightarrow>
    ('k, 'v) cache_op list \<Rightarrow> 'c \<Rightarrow> 'c" where
  "run_cache put touch wipe [] c = c"
| "run_cache put touch wipe (Put k v t # ops) c = run_cache put touch wipe ops (put k v t c)"
| "run_cache put touch wipe (Touch k t # ops) c = run_cache put touch wipe ops (touch k t c)"
| "run_cache put touch wipe (Wipe # ops) c = run_cache put touch wipe ops (wipe c)"

fun ideal_map :: "('k \<Rightarrow> bool) \<Rightarrow> ('k, 'v) cache_op list \<Rightarrow> ('k \<rightharpoonup> 'v) \<Rightarrow> ('k \<rightharpoonup> 'v)" where
  "ideal_map key_ok [] m = m"
| "ideal_map key_ok (Put k v t # ops) m = ideal_map key_ok ops (if key_ok k then m(k \<mapsto> v) else m)"
| "ideal_map key_ok (Touch k t # ops) m = ideal_map key_ok ops m"
| "ideal_map key_ok (Wipe # ops) m = ideal_map key_ok ops Map.empty"

locale keyed_cache =
  fixes get :: "'c \<Rightarrow> 'k \<Rightarrow> 'v option"
    and put :: "'k \<Rightarrow> 'v \<Rightarrow> int \<Rightarrow> 'c \<Rightarrow> 'c"
    and touch :: "'k \<Rightarrow> int \<Rightarrow> 'c \<Rightarrow> 'c"
    and wipe :: "'c \<Rightarrow> 'c"
    and ok :: "'c \<Rightarrow> bool"
    and key_ok :: "'k \<Rightarrow> bool"
    and time_ok :: "int \<Rightarrow> bool"
  assumes ok_put: "ok c \<Longrightarrow> time_ok t \<Longrightarrow> ok (put k v t c)"
    and get_put_same: "ok c \<Longrightarrow> time_ok t \<Longrightarrow> key_ok k \<Longrightarrow> get (put k v t c) k = Some v"
    and get_put_other: "ok c \<Longrightarrow> time_ok t \<Longrightarrow> k' \<noteq> k \<Longrightarrow> get (put k v t c) k' \<in> {None, get c k'}"
    and put_bad_key: "\<not> key_ok k \<Longrightarrow> put k v t c = c"
    and ok_touch: "ok c \<Longrightarrow> time_ok t \<Longrightarrow> ok (touch k t c)"
    and get_touch: "ok c \<Longrightarrow> time_ok t \<Longrightarrow> get (touch k t c) k' = get c k'"
    and ok_wipe: "ok c \<Longrightarrow> ok (wipe c)"
    and get_wipe: "ok c \<Longrightarrow> get (wipe c) k = None"
begin

lemma put_below:
  assumes "ok c" "time_ok t" "get c \<subseteq>\<^sub>m m"
  shows "get (put k v t c) \<subseteq>\<^sub>m (if key_ok k then m(k \<mapsto> v) else m)"
proof (cases "key_ok k")
  case True
  show ?thesis
    unfolding map_le_def
  proof
    fix k' assume d: "k' \<in> dom (get (put k v t c))"
    show "get (put k v t c) k' = (if key_ok k then m(k \<mapsto> v) else m) k'"
    proof (cases "k' = k")
      case False
      with d get_put_other [OF assms(1,2), of k' k v] have "get (put k v t c) k' = get c k'" and "k' \<in> dom (get c)"
        by auto
      with assms(3) False True show ?thesis by (auto simp: map_le_def)
    qed (use True get_put_same [OF assms(1,2)] in simp)
  qed
qed (use assms put_bad_key in simp)

lemma run_ok:
  "ok c \<Longrightarrow> \<forall>x\<in>set ops. time_ok (op_time x) \<Longrightarrow> ok (run_cache put touch wipe ops c)"
proof (induction ops arbitrary: c)
  case (Cons x ops)
  then show ?case by (cases x) (simp_all add: ok_put ok_touch ok_wipe)
qed simp

lemma run_below:
  "ok c \<Longrightarrow> \<forall>x\<in>set ops. time_ok (op_time x) \<Longrightarrow> get c \<subseteq>\<^sub>m m \<Longrightarrow>
     get (run_cache put touch wipe ops c) \<subseteq>\<^sub>m ideal_map key_ok ops m"
proof (induction ops arbitrary: c m)
  case (Cons x ops)
  show ?case
  proof (cases x)
    case (Put k v t)
    with Cons.prems have "ok (put k v t c)" and "get (put k v t c) \<subseteq>\<^sub>m (if key_ok k then m(k \<mapsto> v) else m)"
      using put_below ok_put by simp_all
    with Put Cons show ?thesis by simp
  next
    case (Touch k t)
    with Cons.prems have "get (touch k t c) = get c" using get_touch by auto
    with Touch Cons show ?thesis by (simp add: ok_touch)
  next
    case Wipe
    with Cons.prems have "get (wipe c) \<subseteq>\<^sub>m Map.empty" using get_wipe by (auto simp: map_le_def)
    with Wipe Cons show ?thesis by (simp add: ok_wipe)
  qed
qed simp

end

definition stmt_put :: "u64 \<Rightarrow> string \<times> int \<Rightarrow> int \<Rightarrow> StmtCache \<Rightarrow> StmtCache" where
  "stmt_put h v t c = snd (StmtCache_add h (fst v) (snd v) t c)"

definition stmt_touch :: "u64 \<Rightarrow> int \<Rightarrow> StmtCache \<Rightarrow> StmtCache" where
  "stmt_touch h t c = snd (lookup_mut (touch_entry t) c h)"

definition stmt_wipe :: "StmtCache \<Rightarrow> StmtCache" where
  "stmt_wipe c = snd (StmtCache_clear c)"

lemma stmt_put_zero: "stmt_put 0 v t c = c"
  by (simp add: stmt_put_def StmtCache_add_def)

lemma stmt_put_slot:
  assumes "stmt_cache_ok c" "t < i64_MAX" "h \<noteq> 0"
  shows "\<exists>j<STMT_CACHE_SIZE. stmt_put h v t c = put_entry j (mk_entry h (fst v) (snd v) t) c
     \<and> stmt_cache_ok (stmt_put h v t c)"
  using assms(1,3,2)
  by (cases rule: add_cases [of c h t "fst v" "snd v"]) (auto simp: stmt_put_def)

lemma cached_put_entry:
  assumes "stmt_cache_ok c" "stmt_cache_ok (put_entry j e c)" "j < STMT_CACHE_SIZE"
  shows "cached (put_entry j e c) (sql_hash e) = Some (stmt_name e, param_count e)"
    and "k \<noteq> sql_hash e \<Longrightarrow> cached (put_entry j e c) k \<in> {None, cached c k}"
  by (auto simp: cached_def lookup_put_entry [OF assms])

interpretation sc: keyed_cache cached stmt_put stmt_touch stmt_wipe stmt_cache_ok "\<lambda>h. h \<noteq> 0" "\<lambda>t. t < i64_MAX"
proof unfold_locales
  fix c :: StmtCache and t k k' v
  assume ok: "stmt_cache_ok c"
  show "stmt_cache_ok (stmt_wipe c)" and "cached (stmt_wipe c) k = None"
    using ok by (simp_all add: stmt_wipe_def stmt_cache_clear_ok cached_def lookup_clear)
  assume t: "t < i64_MAX"
  show "stmt_cache_ok (stmt_touch k t c)" and "cached (stmt_touch k t c) k' = cached c k'"
    using ok t by (simp_all add: stmt_touch_def lookup_mut_ok cached_lookup_mut)
  show "stmt_cache_ok (stmt_put k v t c)"
    using stmt_put_slot [OF ok t, of k v] ok stmt_put_zero [of v t c] by (cases "k = 0") auto
  show "k \<noteq> 0 \<Longrightarrow> cached (stmt_put k v t c) k = Some v"
    using stmt_put_slot [OF ok t, of k v] cached_put_entry(1) [OF ok] by fastforce
  show "k' \<noteq> k \<Longrightarrow> cached (stmt_put k v t c) k' \<in> {None, cached c k'}"
    using stmt_put_slot [OF ok t, of k v] cached_put_entry(2) [OF ok] stmt_put_zero [of v t c]
    by (cases "k = 0") fastforce+
qed (simp add: stmt_put_zero)

text \<open>
  C28. Whatever sequence of adds, lookups and clears a connection's table has been through, a
  hit answers the name and parameter count added last for that hash since the last clear:
  the table is never stale, it only forgets.
\<close>

theorem stmt_cache_never_stale:
  assumes "\<forall>x\<in>set ops. op_time x < i64_MAX"
    and "cached (run_cache stmt_put stmt_touch stmt_wipe ops StmtCache_new) h = Some v"
  shows "ideal_map (\<lambda>h. h \<noteq> 0) ops Map.empty h = Some v"
proof -
  have "cached StmtCache_new \<subseteq>\<^sub>m Map.empty"
    by (simp add: map_le_def cached_def lookup_new)
  then have "cached (run_cache stmt_put stmt_touch stmt_wipe ops StmtCache_new)
      \<subseteq>\<^sub>m ideal_map (\<lambda>h. h \<noteq> 0) ops Map.empty"
    by (intro sc.run_below assms(1) stmt_cache_new_ok)
  with assms(2) show ?thesis by (auto simp: map_le_def dom_def)
qed

theorem stmt_cache_never_stale_witness:
  "cached (run_cache stmt_put stmt_touch stmt_wipe [Put 7 (''stmt_7'', 1) 10] StmtCache_new) 7 = Some (''stmt_7'', 1)
   \<and> ideal_map (\<lambda>h. h \<noteq> 0) [Put 7 (''stmt_7'', 1) 10] Map.empty (7 :: u64) = Some (''stmt_7'', 1 :: int)"
proof -
  have hit: "cached (run_cache stmt_put stmt_touch stmt_wipe [Put 7 (''stmt_7'', 1) 10] StmtCache_new) 7 = Some (''stmt_7'', 1)"
    using sc.get_put_same [OF stmt_cache_new_ok, of 10 7 "(''stmt_7'', 1)"] by (simp add: i64_MAX_def)
  moreover have "ideal_map (\<lambda>h. h \<noteq> 0) [Put 7 (''stmt_7'', 1) 10] Map.empty (7 :: u64) = Some (''stmt_7'', 1 :: int)"
    by (rule stmt_cache_never_stale [OF _ hit]) (simp add: i64_MAX_def)
  ultimately show ?thesis ..
qed

end
