(* ===== verification/Txn_Plan.thy ===== *)
theory Txn_Plan
  imports Prelude
begin

text \<open>
  The pure half of the transaction forwarder (\<^verbatim>\<open>pg_client/txn.rs\<close>): how a statement is
  recognised as transaction control (\<open>classify_sql\<close>), and which statements PostgreSQL is sent
  for it (\<open>plan\<close>). The effectful half, which sends them and keeps the pins, is in
  \<open>Txn_Run\<close>. The lemmas show that the recogniser reads its own spellings back and skips
  every leading comment, and that the frame stack the shim keeps is the savepoint stack the
  server has.
\<close>

section \<open>Recognising transaction control\<close>

datatype TxnCmd = Begin | Commit | Rollback | Savepoint string | Release string | RollbackTo string

fun skip_block_comment :: "string \<Rightarrow> string" where
  "skip_block_comment (a # b # cs) =
     (if a = CHR ''*'' \<and> b = CHR ''/'' then cs else skip_block_comment (b # cs))"
| "skip_block_comment _ = []"

lemma skip_block_comment_length: "length (skip_block_comment s) \<le> length s"
  by (induction s rule: skip_block_comment.induct) auto

function strip_leading_noise :: "string \<Rightarrow> string" where
  "strip_leading_noise s =
     (let s = dropWhile is_ascii_whitespace s in
      if starts_with ''--'' s then strip_leading_noise (dropWhile (\<lambda>c. c \<noteq> CHR 0x0A) s)
      else if starts_with ''/*'' s then strip_leading_noise (skip_block_comment (drop 2 s))
      else s)"
  by pat_completeness auto
termination
proof (relation "measure length")
  fix s x :: string
  assume x: "x = dropWhile is_ascii_whitespace s" and p: "starts_with ''--'' x"
  then obtain t where "x = CHR ''-'' # t" by (auto simp: starts_with_def prefix_def)
  then have "length (dropWhile (\<lambda>c. c \<noteq> CHR 0x0A) x) < length x"
    by (simp add: less_Suc_eq_le length_dropWhile_le)
  also have "length x \<le> length s" unfolding x by (rule length_dropWhile_le)
  finally show "(dropWhile (\<lambda>c. c \<noteq> CHR 0x0A) x, s) \<in> measure length" by simp
next
  fix s x :: string
  assume x: "x = dropWhile is_ascii_whitespace s" and p: "starts_with ''/*'' x"
  then have "2 \<le> length x" by (auto simp: starts_with_def dest: prefix_length_le)
  then have "length (skip_block_comment (drop 2 x)) < length x"
    using skip_block_comment_length [of "drop 2 x"] by simp
  also have "length x \<le> length s" unfolding x by (rule length_dropWhile_le)
  finally show "(skip_block_comment (drop 2 x), s) \<in> measure length" by simp
qed simp

declare strip_leading_noise.simps [simp del]

definition quoted_with :: "char \<Rightarrow> char \<Rightarrow> string \<Rightarrow> bool" where
  "quoted_with open_ch close_ch t \<longleftrightarrow> starts_with [open_ch] t \<and> ends_with [close_ch] t \<and> length t \<ge> 2"

definition savepoint_name :: "string \<Rightarrow> string option" where
  "savepoint_name token =
     (let t = trim (trim_end_matches (\<lambda>c. c = CHR '';'') (trim token));
          unquoted =
            (if quoted_with (CHR 0x22) (CHR 0x22) t \<or> quoted_with (CHR 0x27) (CHR 0x27) t
                \<or> quoted_with (CHR 0x60) (CHR 0x60) t
             then butlast (tl t)
             else if quoted_with (CHR ''['') (CHR '']'') t then butlast (tl t)
             else t)
      in if unquoted = [] \<or>
            \<not> list_all (\<lambda>c. is_ascii_alphanumeric c \<or> c = CHR ''_'' \<or> c = CHR ''$'') unquoted
         then None else Some unquoted)"

definition classify_rollback :: "string list \<Rightarrow> string list \<Rightarrow> TxnCmd option" where
  "classify_rollback words lower =
     (let rest = tl lower;
          rest = (if rest \<noteq> [] \<and> hd rest = ''transaction'' then tl rest else rest)
      in if rest = [] then Some Rollback
         else if hd rest \<noteq> ''to'' then None
         else let idx = (if 1 < length rest \<and> rest ! 1 = ''savepoint'' then 3 else 2);
                  name_idx = length words - length rest + idx - 1
              in if name_idx < length words
                 then case savepoint_name (words ! name_idx) of
                        None \<Rightarrow> None
                      | Some name \<Rightarrow> if length words = name_idx + 1 then Some (RollbackTo name) else None
                 else None)"

definition classify_release :: "string list \<Rightarrow> string list \<Rightarrow> TxnCmd option" where
  "classify_release words lower =
     (let name_idx = (if 1 < length lower \<and> lower ! 1 = ''savepoint'' then 2 else 1)
      in if length words \<noteq> name_idx + 1 then None
         else map_option Release (savepoint_name (words ! name_idx)))"

definition classify_words :: "string list \<Rightarrow> TxnCmd option" where
  "classify_words words =
     (if words = [] then None
      else
        let first = to_ascii_lowercase (hd words);
            lower = map to_ascii_lowercase words
        in if first = ''begin'' then
             (if list_all (\<lambda>w. w = ''deferred'' \<or> w = ''immediate'' \<or> w = ''exclusive'' \<or> w = ''transaction'') (tl lower)
              then Some Begin else None)
           else if first = ''commit'' \<or> first = ''end'' then
             (if list_all (\<lambda>w. w = ''transaction'') (tl lower) then Some Commit else None)
           else if first = ''rollback'' then classify_rollback words lower
           else if first = ''savepoint'' then
             (if length words \<noteq> 2 then None else map_option Savepoint (savepoint_name (words ! 1)))
           else if first = ''release'' then classify_release words lower
           else None)"

definition classify_sql :: "string \<Rightarrow> TxnCmd option" where
  "classify_sql sql =
     (let body = trim (trim_end_matches (\<lambda>c. c = CHR '';'') (trim (strip_leading_noise sql)))
      in classify_words (split_whitespace body))"

section \<open>Planning the statements\<close>

datatype Frame = Outer (explicit: bool) | SavepointFrame string | NestedBegin string

record TxnState =
  frames :: "Frame list"
  txn_db :: usize

definition TxnState_default :: TxnState where
  "TxnState_default = \<lparr>frames = [], txn_db = 0\<rparr>"

definition is_open :: "TxnState \<Rightarrow> bool" where
  "is_open st \<longleftrightarrow> frames st \<noteq> []"

definition nested_name :: "nat \<Rightarrow> string" where
  "nested_name n = ''plexpg_nested_'' @ show_nat n"

fun plan :: "TxnState \<Rightarrow> TxnCmd \<Rightarrow> string list \<times> TxnState" where
  "plan st Begin =
     (if frames st = [] then ([''BEGIN''], st\<lparr>frames := [Outer True]\<rparr>)
      else let name = nested_name (length (frames st))
           in ([''SAVEPOINT '' @ name], st\<lparr>frames := frames st @ [NestedBegin name]\<rparr>))"
| "plan st Commit =
     (if frames st = [] then ([], st)
      else case last (frames st) of
             NestedBegin name \<Rightarrow> ([''RELEASE SAVEPOINT '' @ name], st\<lparr>frames := butlast (frames st)\<rparr>)
           | _ \<Rightarrow> ([''COMMIT''], st\<lparr>frames := []\<rparr>))"
| "plan st Rollback =
     (if frames st = [] then ([], st)
      else case last (frames st) of
             NestedBegin name \<Rightarrow>
               ([''ROLLBACK TO SAVEPOINT '' @ name, ''RELEASE SAVEPOINT '' @ name],
                st\<lparr>frames := butlast (frames st)\<rparr>)
           | _ \<Rightarrow> ([''ROLLBACK''], st\<lparr>frames := []\<rparr>))"
| "plan st (Savepoint name) =
     (if frames st = []
      then ([''BEGIN'', ''SAVEPOINT '' @ name], st\<lparr>frames := [Outer False, SavepointFrame name]\<rparr>)
      else ([''SAVEPOINT '' @ name], st\<lparr>frames := frames st @ [SavepointFrame name]\<rparr>))"
| "plan st (Release name) =
     (case rposition (\<lambda>f. f = SavepointFrame name) (frames st) of
        None \<Rightarrow> ([], st)
      | Some pos \<Rightarrow>
          (let fs = take pos (frames st)
           in if fs = [Outer False]
              then ([''RELEASE SAVEPOINT '' @ name, ''COMMIT''], st\<lparr>frames := []\<rparr>)
              else ([''RELEASE SAVEPOINT '' @ name], st\<lparr>frames := fs\<rparr>)))"
| "plan st (RollbackTo name) =
     (case rposition (\<lambda>f. f = SavepointFrame name) (frames st) of
        None \<Rightarrow> ([], st)
      | Some pos \<Rightarrow> ([''ROLLBACK TO SAVEPOINT '' @ name], st\<lparr>frames := take (pos + 1) (frames st)\<rparr>))"

section \<open>The recogniser\<close>

text \<open>What may stand before a statement without changing what it is.\<close>

inductive noise :: "string \<Rightarrow> bool" where
  noise_nil: "noise []"
| noise_space: "is_ascii_whitespace c \<Longrightarrow> noise p \<Longrightarrow> noise (c # p)"
| noise_line: "CHR 0x0A \<notin> set c \<Longrightarrow> noise p \<Longrightarrow> noise (''--'' @ c @ [CHR 0x0A] @ p)"
| noise_block: "\<not> sublist ''*/'' (c @ ''*'') \<Longrightarrow> noise p \<Longrightarrow> noise (''/*'' @ c @ ''*/'' @ p)"

lemma skip_block_comment_end: "\<not> sublist ''*/'' (c @ ''*'') \<Longrightarrow> skip_block_comment (c @ ''*/'' @ s) = s"
proof (induction c)
  case (Cons a c)
  then have tail: "\<not> sublist ''*/'' (c @ ''*'')" by (auto simp: sublist_Cons_right)
  obtain b r where next_ch: "c @ ''*/'' @ s = b # r"
    by (cases c) auto
  have "\<not> prefix ''*/'' (a # c @ ''*'')"
    using Cons.prems by (auto simp: sublist_Cons_right)
  then have "\<not> (a = CHR ''*'' \<and> b = CHR ''/'')"
    using next_ch by (cases c) auto
  with Cons.IH [OF tail] next_ch show ?case by auto
qed simp

lemma strip_space: "is_ascii_whitespace c \<Longrightarrow> strip_leading_noise (c # s) = strip_leading_noise s"
  by (simp add: strip_leading_noise.simps [of "c # s"] strip_leading_noise.simps [of s])

lemma strip_newline: "strip_leading_noise (CHR 0x0A # s) = strip_leading_noise s"
  by (simp add: strip_space is_ascii_whitespace_def)

lemma strip_line:
  assumes "CHR 0x0A \<notin> set c"
  shows "strip_leading_noise (''--'' @ c @ [CHR 0x0A] @ s) = strip_leading_noise s"
proof -
  have "dropWhile (\<lambda>d. d \<noteq> CHR 0x0A) (''--'' @ c @ [CHR 0x0A] @ s) = CHR 0x0A # s"
    using assms by (induction c) auto
  moreover have "dropWhile is_ascii_whitespace (''--'' @ c @ [CHR 0x0A] @ s) = ''--'' @ c @ [CHR 0x0A] @ s"
    by (simp add: is_ascii_whitespace_def)
  ultimately show ?thesis
    by (subst strip_leading_noise.simps) (simp add: starts_with_def strip_newline)
qed

lemma strip_block:
  assumes "\<not> sublist ''*/'' (c @ ''*'')"
  shows "strip_leading_noise (''/*'' @ c @ ''*/'' @ s) = strip_leading_noise s"
proof -
  have "dropWhile is_ascii_whitespace (''/*'' @ c @ ''*/'' @ s) = ''/*'' @ c @ ''*/'' @ s"
    by (simp add: is_ascii_whitespace_def)
  then show ?thesis
    using skip_block_comment_end [OF assms, of s]
    by (subst strip_leading_noise.simps) (simp add: starts_with_def)
qed

lemma strip_noise: "noise p \<Longrightarrow> strip_leading_noise (p @ s) = strip_leading_noise s"
proof (induction rule: noise.induct)
  case (noise_line c p)
  then show ?case using strip_line [OF noise_line(1), of "p @ s"] by simp
next
  case (noise_block c p)
  then show ?case using strip_block [OF noise_block(1), of "p @ s"] by simp
qed (simp_all add: strip_space)

text \<open>
  C35. White space, line comments and block comments before a statement do not change what
  transaction control it is recognised as.
\<close>

theorem classify_sql_noise:
  assumes "noise p"
  shows "classify_sql (p @ sql) = classify_sql sql"
  by (simp add: classify_sql_def strip_noise [OF assms])

theorem classify_sql_noise_witness:
  "classify_sql (''/* tx */ '' @ ''COMMIT'') = classify_sql ''COMMIT''"
proof (rule classify_sql_noise)
  have "noise (''/*'' @ '' tx '' @ ''*/'' @ '' '')"
    by (intro noise.intros) (simp_all add: is_ascii_whitespace_def sublist_Cons_right)
  then show "noise ''/* tx */ ''" by simp
qed

text \<open>The canonical spellings, which are also the ones \<open>plan\<close> sends.\<close>

fun render_cmd :: "TxnCmd \<Rightarrow> string" where
  "render_cmd Begin = ''BEGIN''"
| "render_cmd Commit = ''COMMIT''"
| "render_cmd Rollback = ''ROLLBACK''"
| "render_cmd (Savepoint n) = ''SAVEPOINT '' @ n"
| "render_cmd (Release n) = ''RELEASE SAVEPOINT '' @ n"
| "render_cmd (RollbackTo n) = ''ROLLBACK TO SAVEPOINT '' @ n"

definition name_char :: "char \<Rightarrow> bool" where
  "name_char c \<longleftrightarrow> is_ascii_alphanumeric c \<or> c = CHR ''_'' \<or> c = CHR ''$''"

definition is_savepoint_name :: "string \<Rightarrow> bool" where
  "is_savepoint_name n \<longleftrightarrow> n \<noteq> [] \<and> list_all name_char n"

fun cmd_name_ok :: "(string \<Rightarrow> bool) \<Rightarrow> TxnCmd \<Rightarrow> bool" where
  "cmd_name_ok P (Savepoint n) = P n"
| "cmd_name_ok P (Release n) = P n"
| "cmd_name_ok P (RollbackTo n) = P n"
| "cmd_name_ok P _ = True"

lemma name_char_plain:
  "name_char c \<Longrightarrow> \<not> is_whitespace c \<and> c \<noteq> CHR '';'' \<and> c \<noteq> CHR 0x22 \<and> c \<noteq> CHR 0x27 \<and> c \<noteq> CHR 0x60 \<and> c \<noteq> CHR ''[''"
  by (auto simp: name_char_def is_ascii_alphanumeric_def is_ascii_digit_def is_ascii_upper_def
      is_ascii_lower_def is_whitespace_def)

lemma name_ends:
  assumes "is_savepoint_name n"
  shows "n \<noteq> []" "name_char (hd n)" "name_char (last n)" "\<forall>c\<in>set n. \<not> is_whitespace c"
  using assms name_char_plain by (auto simp: is_savepoint_name_def list_all_iff)

lemma savepoint_name_nul_free: "is_savepoint_name n \<Longrightarrow> CHR 0x00 \<notin> set n"
  by (auto simp: is_savepoint_name_def list_all_iff name_char_def is_ascii_alphanumeric_def is_ascii_digit_def
      is_ascii_upper_def is_ascii_lower_def)

lemma savepoint_name_plain: "is_savepoint_name n \<Longrightarrow> savepoint_name n = Some n"
proof -
  assume n: "is_savepoint_name n"
  note e = name_ends [OF n]
  have t: "trim n = n" and m: "trim_end_matches (\<lambda>c. c = CHR '';'') n = n"
    using e name_char_plain [OF e(2)] name_char_plain [OF e(3)] by (simp_all add: trim_id trim_end_matches_id)
  have q: "\<not> quoted_with a b n" if "a \<in> {CHR 0x22, CHR 0x27, CHR 0x60, CHR ''[''}" for a b
    using that e(1) name_char_plain [OF e(2)] by (cases n) (auto simp: quoted_with_def starts_with_def)
  from n have "list_all (\<lambda>c. is_ascii_alphanumeric c \<or> c = CHR ''_'' \<or> c = CHR ''$'') n"
    by (simp add: is_savepoint_name_def name_char_def list_all_iff)
  with e(1) show ?thesis by (simp add: savepoint_name_def t m q)
qed

lemma keywords_lower:
  "to_ascii_lowercase ''BEGIN'' = ''begin''" "to_ascii_lowercase ''COMMIT'' = ''commit''"
  "to_ascii_lowercase ''ROLLBACK'' = ''rollback''" "to_ascii_lowercase ''SAVEPOINT'' = ''savepoint''"
  "to_ascii_lowercase ''RELEASE'' = ''release''" "to_ascii_lowercase ''TO'' = ''to''"
  by code_simp+

definition cmd_words :: "TxnCmd \<Rightarrow> string list" where
  "cmd_words cmd =
     (case cmd of Begin \<Rightarrow> [''BEGIN''] | Commit \<Rightarrow> [''COMMIT''] | Rollback \<Rightarrow> [''ROLLBACK'']
      | Savepoint n \<Rightarrow> [''SAVEPOINT'', n] | Release n \<Rightarrow> [''RELEASE'', ''SAVEPOINT'', n]
      | RollbackTo n \<Rightarrow> [''ROLLBACK'', ''TO'', ''SAVEPOINT'', n])"

lemma classify_words_cmd: "cmd_name_ok is_savepoint_name cmd \<Longrightarrow> classify_words (cmd_words cmd) = Some cmd"
  by (cases cmd) (simp_all add: classify_words_def cmd_words_def keywords_lower classify_rollback_def
      classify_release_def savepoint_name_plain)

lemma split_render: "cmd_name_ok is_savepoint_name cmd \<Longrightarrow> split_whitespace (render_cmd cmd) = cmd_words cmd"
  by (cases cmd) (simp_all add: cmd_words_def is_whitespace_def split_whitespace_word [OF name_ends(1,4)])

lemma render_ends:
  assumes "cmd_name_ok is_savepoint_name cmd"
  shows "render_cmd cmd \<noteq> []" "hd (render_cmd cmd) \<in> {CHR ''B'', CHR ''C'', CHR ''R'', CHR ''S''}"
    "name_char (last (render_cmd cmd))"
  using assms name_ends(1,3)
  by (cases cmd; auto simp: name_char_def is_ascii_alphanumeric_def is_ascii_upper_def)+

lemma strip_render:
  assumes "cmd_name_ok is_savepoint_name cmd"
  shows "strip_leading_noise (render_cmd cmd @ t) = render_cmd cmd @ t"
proof -
  obtain a r where "render_cmd cmd = a # r" and "a \<in> {CHR ''B'', CHR ''C'', CHR ''R'', CHR ''S''}"
    using render_ends(1,2) [OF assms] by (metis list.collapse)
  then show ?thesis
    by (subst strip_leading_noise.simps) (auto simp: starts_with_def is_ascii_whitespace_def)
qed

lemma classify_render_semis:
  assumes "cmd_name_ok is_savepoint_name cmd"
  shows "classify_sql (render_cmd cmd @ replicate k (CHR '';'')) = Some cmd"
proof -
  note e = render_ends [OF assms]
  let ?r = "render_cmd cmd"
  have hd: "\<not> is_whitespace (hd ?r)" and lst: "\<not> is_whitespace (last ?r) \<and> last ?r \<noteq> CHR '';''"
    using e(2) name_char_plain [OF e(3)] by (auto simp: is_whitespace_def)
  have "trim (?r @ replicate k (CHR '';'')) = ?r @ replicate k (CHR '';'')"
    using e(1) hd lst by (intro trim_id) (auto simp: is_whitespace_def last_append)
  moreover have "trim_end_matches (\<lambda>c. c = CHR '';'') (?r @ replicate k (CHR '';'')) = ?r"
    using e(1) lst by (simp add: trim_end_matches_append_all list_all_iff trim_end_matches_id)
  moreover have "trim ?r = ?r" using e(1) hd lst by (simp add: trim_id)
  ultimately show ?thesis
    by (simp add: classify_sql_def strip_render [OF assms] split_render [OF assms] classify_words_cmd [OF assms])
qed

text \<open>
  C34. Round trip: a command with a legal savepoint name, spelled as the planner spells it and
  ended by any number of semicolons, is recognised as that command.
\<close>

theorem classify_sql_render:
  assumes "cmd_name_ok is_savepoint_name cmd"
  shows "classify_sql (render_cmd cmd @ replicate k (CHR '';'')) = Some cmd"
  using assms by (rule classify_render_semis)

theorem classify_sql_render_witness:
  "classify_sql (render_cmd (RollbackTo ''sp1'') @ replicate 1 (CHR '';'')) = Some (RollbackTo ''sp1'')"
  by (rule classify_sql_render) (simp add: is_savepoint_name_def name_char_def is_ascii_alphanumeric_def
      is_ascii_lower_def is_ascii_digit_def)

section \<open>The frame stack and the server's savepoints\<close>

text \<open>
  What PostgreSQL documents of its transaction commands, for a server given by how it
  executes a statement (\<open>exec\<close>, \<open>None\<close> for an error) and by the names of the savepoints
  its open transaction has (\<open>stack\<close>, innermost last, \<open>None\<close> outside a transaction).
  \<open>ident\<close> are the names it accepts unquoted. Unquoted identifiers are folded to lower case,
  and a name that occurs twice means its innermost occurrence.
\<close>

definition pg_transactions ::
  "(string \<Rightarrow> 's \<Rightarrow> 's option) \<Rightarrow> ('s \<Rightarrow> string list option) \<Rightarrow> (string \<Rightarrow> bool) \<Rightarrow> bool" where
  "pg_transactions exec stack ident \<longleftrightarrow>
     (\<forall>s. stack s = None \<longrightarrow> map_option stack (exec ''BEGIN'' s) = Some (Some [])) \<and>
     (\<forall>s. stack s \<noteq> None \<longrightarrow> map_option stack (exec ''COMMIT'' s) = Some None) \<and>
     (\<forall>s. stack s \<noteq> None \<longrightarrow> map_option stack (exec ''ROLLBACK'' s) = Some None) \<and>
     (\<forall>s ns n. stack s = Some ns \<longrightarrow> ident n \<longrightarrow>
        map_option stack (exec (''SAVEPOINT '' @ n) s) = Some (Some (ns @ [to_ascii_lowercase n]))) \<and>
     (\<forall>s xs ys n. stack s = Some (xs @ to_ascii_lowercase n # ys) \<longrightarrow> ident n \<longrightarrow> to_ascii_lowercase n \<notin> set ys \<longrightarrow>
        map_option stack (exec (''RELEASE SAVEPOINT '' @ n) s) = Some (Some xs)) \<and>
     (\<forall>s xs ys n. stack s = Some (xs @ to_ascii_lowercase n # ys) \<longrightarrow> ident n \<longrightarrow> to_ascii_lowercase n \<notin> set ys \<longrightarrow>
        map_option stack (exec (''ROLLBACK TO SAVEPOINT '' @ n) s) = Some (Some (xs @ [to_ascii_lowercase n])))"

fun exec_all :: "(string \<Rightarrow> 's \<Rightarrow> 's option) \<Rightarrow> string list \<Rightarrow> 's \<Rightarrow> 's option" where
  "exec_all exec [] s = Some s"
| "exec_all exec (q # qs) s = Option.bind (exec q s) (exec_all exec qs)"

fun frame_name :: "Frame \<Rightarrow> string" where
  "frame_name (Outer e) = []"
| "frame_name (SavepointFrame n) = to_ascii_lowercase n"
| "frame_name (NestedBegin n) = to_ascii_lowercase n"

fun txn_stack :: "Frame list \<Rightarrow> string list option" where
  "txn_stack [] = None"
| "txn_stack (f # fs) = Some (map frame_name fs)"

definition user_name :: "(string \<Rightarrow> bool) \<Rightarrow> string \<Rightarrow> bool" where
  "user_name ident n \<longleftrightarrow> ident n \<and> to_ascii_lowercase n = n \<and> \<not> starts_with ''plexpg_nested_'' n"

fun frame_ok :: "(string \<Rightarrow> bool) \<Rightarrow> nat \<Rightarrow> Frame \<Rightarrow> bool" where
  "frame_ok P i (Outer e) = False"
| "frame_ok P i (SavepointFrame n) = P n"
| "frame_ok P i (NestedBegin n) = (n = nested_name i)"

fun frames_ok :: "(string \<Rightarrow> bool) \<Rightarrow> Frame list \<Rightarrow> bool" where
  "frames_ok P [] = True"
| "frames_ok P (f # fs) \<longleftrightarrow>
     (\<exists>e. f = Outer e) \<and> (\<forall>i<length fs. frame_ok P (Suc i) (fs ! i)) \<and>
     (f = Outer False \<longrightarrow> (\<exists>n. fs \<noteq> [] \<and> hd fs = SavepointFrame n))"

lemma lower_digit_char: "d < 10 \<Longrightarrow> ascii_lower (digit_char d) = digit_char d"
  by (simp add: ascii_lower_def is_ascii_upper_def digit_char_def)

lemma lower_show_nat: "to_ascii_lowercase (show_nat n) = show_nat n"
proof (induction n rule: show_nat.induct)
  case (1 n)
  then show ?case
    by (cases "n < 10") (simp_all add: show_nat_small show_nat_large to_ascii_lowercase_def lower_digit_char)
qed

lemma lower_nested_name: "to_ascii_lowercase (nested_name n) = nested_name n"
proof -
  have "to_ascii_lowercase ''plexpg_nested_'' = ''plexpg_nested_''" by code_simp
  with lower_show_nat [of n] show ?thesis by (simp add: nested_name_def to_ascii_lowercase_def)
qed

lemma frames_ok_append:
  "frames_ok P (Outer e # xs @ [f]) \<longleftrightarrow>
     (\<forall>i<length xs. frame_ok P (Suc i) (xs ! i)) \<and> frame_ok P (Suc (length xs)) f \<and>
     (\<not> e \<longrightarrow> (\<exists>n. hd (xs @ [f]) = SavepointFrame n))"
  by (auto simp: nth_append less_Suc_eq)

lemma frames_ok_take:
  assumes "frames_ok P (Outer e # xs @ ys)" "e \<or> xs \<noteq> []"
  shows "frames_ok P (Outer e # xs)"
proof -
  have "frame_ok P (Suc i) (xs ! i)" if "i < length xs" for i
    using assms(1) that by (auto simp: nth_append dest: spec [of _ i])
  moreover have "\<exists>n. hd xs = SavepointFrame n" if "\<not> e"
    using assms that by (cases xs) auto
  ultimately show ?thesis using assms(2) by auto
qed

lemma frames_ok_cases:
  assumes "frames_ok P fs" "fs \<noteq> []"
  obtains e gs where "fs = Outer e # gs" "\<forall>i<length gs. frame_ok P (Suc i) (gs ! i)"
    "e \<or> gs \<noteq> []"
  using assms by (cases fs) auto

lemma frames_last_nested:
  assumes "frames_ok P fs" "fs \<noteq> []" "last fs = NestedBegin nm"
  obtains e gs where "fs = Outer e # gs @ [NestedBegin nm]" "nm = nested_name (Suc (length gs))"
    "frames_ok P (Outer e # gs)"
proof -
  obtain e gs where fs: "fs = Outer e # gs" using assms(1,2) by (rule frames_ok_cases)
  with assms(3) have "gs \<noteq> []" and "last gs = NestedBegin nm" by (auto split: if_splits)
  then have gs: "gs = butlast gs @ [NestedBegin nm]" by (metis append_butlast_last_id)
  then have ok: "frames_ok P (Outer e # butlast gs @ [NestedBegin nm])" using assms(1) fs by simp
  then have "e \<or> butlast gs \<noteq> []" by (cases e; cases "butlast gs") auto
  with ok have "frames_ok P (Outer e # butlast gs)" by (rule frames_ok_take)
  moreover have "nm = nested_name (Suc (length (butlast gs)))"
    using ok unfolding frames_ok_append by simp
  ultimately show ?thesis using that fs gs by metis
qed

lemma frames_find:
  assumes ok: "frames_ok (user_name ident) fs" and n: "user_name ident n"
    and pos: "rposition (\<lambda>f. f = SavepointFrame n) fs = Some pos"
  obtains e xs ys where "fs = Outer e # xs @ SavepointFrame n # ys" "pos = Suc (length xs)"
    "to_ascii_lowercase n \<notin> frame_name ` set ys"
proof -
  note p = rposition_Some [OF pos]
  then have "fs \<noteq> []" by auto
  with ok obtain e gs where fs: "fs = Outer e # gs" and gs: "\<forall>i<length gs. frame_ok (user_name ident) (Suc i) (gs ! i)"
    by (rule frames_ok_cases)
  with p obtain k where k: "pos = Suc k" "k < length gs" "gs ! k = SavepointFrame n"
      "SavepointFrame n \<notin> set (drop (Suc k) gs)"
    by (cases pos) auto
  then have split: "gs = take k gs @ SavepointFrame n # drop (Suc k) gs" by (metis id_take_nth_drop)
  have "to_ascii_lowercase n \<noteq> frame_name f" if f: "f \<in> set (drop (Suc k) gs)" for f
  proof -
    from f obtain i where i: "i < length gs" "gs ! i = f"
      by (meson in_set_conv_nth in_set_dropD)
    with gs have fok: "frame_ok (user_name ident) (Suc i) f" by auto
    show ?thesis
    proof (cases f)
      case (SavepointFrame m)
      with fok n f k(4) show ?thesis by (auto simp: user_name_def)
    next
      case (NestedBegin m)
      with fok n show ?thesis
        by (auto simp: user_name_def lower_nested_name) (simp add: nested_name_def starts_with_def)
    qed (use fok in simp)
  qed
  with that [of e "take k gs" "drop (Suc k) gs"] fs split k show ?thesis by auto
qed

lemma exec_one:
  "map_option stack (exec q s) = Some v \<Longrightarrow> \<exists>s'. exec_all exec [q] s = Some s' \<and> stack s' = v"
  by auto

lemma exec_two:
  "map_option stack (exec q s) = Some v \<Longrightarrow> (\<And>s'. stack s' = v \<Longrightarrow> map_option stack (exec r s') = Some w) \<Longrightarrow>
     \<exists>s'. exec_all exec [q, r] s = Some s' \<and> stack s' = w"
  by fastforce

text \<open>The consequences of the server's contract, at a state whose stack is known.\<close>

lemma pg_begin: "pg_transactions exec stack ident \<Longrightarrow> stack s = None \<Longrightarrow> map_option stack (exec ''BEGIN'' s) = Some (Some [])"
  and pg_commit: "pg_transactions exec stack ident \<Longrightarrow> stack s = Some ns \<Longrightarrow> map_option stack (exec ''COMMIT'' s) = Some None"
  and pg_rollback: "pg_transactions exec stack ident \<Longrightarrow> stack s = Some ns \<Longrightarrow> map_option stack (exec ''ROLLBACK'' s) = Some None"
  and pg_savepoint: "pg_transactions exec stack ident \<Longrightarrow> stack s = Some ns \<Longrightarrow> ident n \<Longrightarrow>
        map_option stack (exec (''SAVEPOINT '' @ n) s) = Some (Some (ns @ [to_ascii_lowercase n]))"
  and pg_release: "pg_transactions exec stack ident \<Longrightarrow> stack s = Some (xs @ to_ascii_lowercase n # ys) \<Longrightarrow> ident n \<Longrightarrow>
        to_ascii_lowercase n \<notin> set ys \<Longrightarrow> map_option stack (exec (''RELEASE SAVEPOINT '' @ n) s) = Some (Some xs)"
  and pg_rollback_to: "pg_transactions exec stack ident \<Longrightarrow> stack s = Some (xs @ to_ascii_lowercase n # ys) \<Longrightarrow> ident n \<Longrightarrow>
        to_ascii_lowercase n \<notin> set ys \<Longrightarrow>
        map_option stack (exec (''ROLLBACK TO SAVEPOINT '' @ n) s) = Some (Some (xs @ [to_ascii_lowercase n]))"
  unfolding pg_transactions_def by blast+

definition step_ok :: "(string \<Rightarrow> 's \<Rightarrow> 's option) \<Rightarrow> ('s \<Rightarrow> string list option) \<Rightarrow> (string \<Rightarrow> bool) \<Rightarrow> 's \<Rightarrow>
    string list \<times> TxnState \<Rightarrow> bool" where
  "step_ok exec stack ident s r \<longleftrightarrow>
     (\<exists>s'. exec_all exec (fst r) s = Some s' \<and> stack s' = txn_stack (frames (snd r))) \<and>
     frames_ok (user_name ident) (frames (snd r))"

lemma step_ok_skip: "stack s = txn_stack (frames st) \<Longrightarrow> frames_ok (user_name ident) (frames st) \<Longrightarrow> step_ok exec stack ident s ([], st)"
  by (simp add: step_ok_def)

lemma plan_begin_ok:
  assumes pg: "pg_transactions exec stack ident" and nested: "\<And>k. ident (nested_name k)"
    and ok: "frames_ok (user_name ident) (frames st)" and st: "stack s = txn_stack (frames st)"
  shows "step_ok exec stack ident s (plan st Begin)"
proof (cases "frames st")
  case Nil
  with exec_one [of stack exec, OF pg_begin [OF pg]] st show ?thesis by (auto simp: step_ok_def)
next
  case (Cons f gs)
  with ok obtain e where f: "f = Outer e" by auto
  let ?n = "nested_name (Suc (length gs))"
  have "stack s = Some (map frame_name gs)" using st Cons by simp
  from exec_one [of stack exec, OF pg_savepoint [OF pg this nested]] ok Cons f show ?thesis
    by (auto simp: step_ok_def Let_def nth_append less_Suc_eq hd_append)
qed

lemma plan_end_ok:
  assumes pg: "pg_transactions exec stack ident" and nested: "\<And>k. ident (nested_name k)"
    and ok: "frames_ok (user_name ident) (frames st)" and st: "stack s = txn_stack (frames st)"
    and cmd: "cmd \<in> {Commit, Rollback}"
  shows "step_ok exec stack ident s (plan st cmd)"
proof (cases "frames st = [] \<or> (\<nexists>nm. last (frames st) = NestedBegin nm)")
  case True
  have "step_ok exec stack ident s (plan st Commit) \<and> step_ok exec stack ident s (plan st Rollback)"
  proof (cases "frames st")
    case Nil
    with step_ok_skip [of stack s st, OF st ok] show ?thesis by simp
  next
    case (Cons f gs)
    then have ne: "frames st \<noteq> []" by simp
    with True have "plan st Commit = ([''COMMIT''], st\<lparr>frames := []\<rparr>)" "plan st Rollback = ([''ROLLBACK''], st\<lparr>frames := []\<rparr>)"
      by (cases "last (frames st)"; simp)+
    moreover have "stack s = Some (map frame_name gs)" using Cons st by simp
    from exec_one [of stack exec, OF pg_commit [OF pg this]] exec_one [of stack exec, OF pg_rollback [OF pg this]]
    have "step_ok exec stack ident s ([''COMMIT''], st\<lparr>frames := []\<rparr>)" "step_ok exec stack ident s ([''ROLLBACK''], st\<lparr>frames := []\<rparr>)"
      by (simp_all add: step_ok_def)
    ultimately show ?thesis by simp
  qed
  with cmd show ?thesis by auto
next
  case False
  then obtain nm where "frames st \<noteq> []" and lst: "last (frames st) = NestedBegin nm" by auto
  with ok obtain e gs where fs: "frames st = Outer e # gs @ [NestedBegin nm]" and nm: "nm = nested_name (Suc (length gs))"
    and gs: "frames_ok (user_name ident) (Outer e # gs)"
    by (rule frames_last_nested)
  have at: "stack t = Some (map frame_name gs @ to_ascii_lowercase nm # [])" if "stack t = stack s" for t
    using that st fs by simp
  have nm_ok: "ident nm" and id: "to_ascii_lowercase nm \<notin> set []" using nested nm by simp_all
  note rel = pg_release [OF pg at nm_ok id] and rbk = pg_rollback_to [OF pg at nm_ok id]
  have "plan st Commit = ([''RELEASE SAVEPOINT '' @ nm], st\<lparr>frames := Outer e # gs\<rparr>)"
    "plan st Rollback = ([''ROLLBACK TO SAVEPOINT '' @ nm, ''RELEASE SAVEPOINT '' @ nm], st\<lparr>frames := Outer e # gs\<rparr>)"
    using fs by (simp_all add: butlast_append)
  moreover from exec_one [of stack exec, OF rel [OF refl]] gs
  have "step_ok exec stack ident s ([''RELEASE SAVEPOINT '' @ nm], st\<lparr>frames := Outer e # gs\<rparr>)"
    by (simp add: step_ok_def)
  moreover have "\<exists>s'. exec_all exec [''ROLLBACK TO SAVEPOINT '' @ nm, ''RELEASE SAVEPOINT '' @ nm] s = Some s'
      \<and> stack s' = Some (map frame_name gs)"
    by (rule exec_two [of stack exec, OF rbk [OF refl]], rule rel) (simp add: st fs)
  then have "step_ok exec stack ident s
      ([''ROLLBACK TO SAVEPOINT '' @ nm, ''RELEASE SAVEPOINT '' @ nm], st\<lparr>frames := Outer e # gs\<rparr>)"
    using gs by (simp add: step_ok_def)
  ultimately show ?thesis using cmd by auto
qed

lemma plan_savepoint_ok:
  assumes pg: "pg_transactions exec stack ident" and n: "user_name ident n"
    and ok: "frames_ok (user_name ident) (frames st)" and st: "stack s = txn_stack (frames st)"
  shows "step_ok exec stack ident s (plan st (Savepoint n))"
proof -
  have id: "ident n" using n by (simp add: user_name_def)
  show ?thesis
  proof (cases "frames st")
    case Nil
    have "\<exists>s'. exec_all exec [''BEGIN'', ''SAVEPOINT '' @ n] s = Some s' \<and> stack s' = Some ([] @ [to_ascii_lowercase n])"
      by (rule exec_two [of stack exec, OF pg_begin [OF pg] pg_savepoint [OF pg _ id]]) (simp_all add: st Nil)
    with Nil n show ?thesis by (auto simp: step_ok_def)
  next
    case (Cons f gs)
    with ok obtain e where f: "f = Outer e" by auto
    have "stack s = Some (map frame_name gs)" using st Cons by simp
    from exec_one [of stack exec, OF pg_savepoint [OF pg this id]] ok Cons f n show ?thesis
      by (auto simp: step_ok_def nth_append less_Suc_eq hd_append)
  qed
qed

lemma plan_release_ok:
  assumes pg: "pg_transactions exec stack ident" and n: "user_name ident n"
    and ok: "frames_ok (user_name ident) (frames st)" and st: "stack s = txn_stack (frames st)"
    and cmd: "cmd \<in> {Release n, RollbackTo n}"
  shows "step_ok exec stack ident s (plan st cmd)"
proof (cases "rposition (\<lambda>f. f = SavepointFrame n) (frames st)")
  case None
  with step_ok_skip [of stack s st, OF st ok] cmd show ?thesis by auto
next
  case (Some pos)
  then obtain e xs ys where fs: "frames st = Outer e # xs @ SavepointFrame n # ys" and pos: "pos = Suc (length xs)"
    and fresh: "to_ascii_lowercase n \<notin> frame_name ` set ys"
    using frames_find [OF ok n] by metis
  have id: "ident n" using n by (simp add: user_name_def)
  have at: "stack s = Some (map frame_name xs @ to_ascii_lowercase n # map frame_name ys)" using st fs by simp
  have nin: "to_ascii_lowercase n \<notin> set (map frame_name ys)" using fresh by simp
  note rel = pg_release [OF pg at id nin] and rbk = pg_rollback_to [OF pg at id nin]
  have keep: "frames_ok (user_name ident) (Outer e # xs @ [SavepointFrame n])"
    using frames_ok_take [of _ e "xs @ [SavepointFrame n]" ys] ok fs
    by (simp del: frames_ok.simps)
  have takes: "take pos (frames st) = Outer e # xs" "take (Suc pos) (frames st) = Outer e # xs @ [SavepointFrame n]"
    using fs pos by simp_all
  have "plan st (RollbackTo n) = ([''ROLLBACK TO SAVEPOINT '' @ n], st\<lparr>frames := Outer e # xs @ [SavepointFrame n]\<rparr>)"
    by (simp add: Some takes)
  with exec_one [of stack exec, OF rbk] keep have rb: "step_ok exec stack ident s (plan st (RollbackTo n))"
    by (simp add: step_ok_def del: frames_ok.simps)
  have "step_ok exec stack ident s (plan st (Release n))"
  proof (cases "e \<or> xs \<noteq> []")
    case True
    then have "frames_ok (user_name ident) (Outer e # xs)" using frames_ok_take ok fs by metis
    moreover have "plan st (Release n) = ([''RELEASE SAVEPOINT '' @ n], st\<lparr>frames := Outer e # xs\<rparr>)"
      using True by (auto simp: Some takes)
    ultimately show ?thesis using exec_one [of stack exec, OF rel] by (simp add: step_ok_def del: frames_ok.simps)
  next
    case False
    have "\<exists>s'. exec_all exec [''RELEASE SAVEPOINT '' @ n, ''COMMIT''] s = Some s' \<and> stack s' = None"
      by (rule exec_two [of stack exec, OF rel pg_commit [OF pg]])
    moreover have "plan st (Release n) = ([''RELEASE SAVEPOINT '' @ n, ''COMMIT''], st\<lparr>frames := []\<rparr>)"
      using False by (simp add: Some takes)
    ultimately show ?thesis by (simp add: step_ok_def)
  qed
  with rb cmd show ?thesis by auto
qed

lemma plan_forward:
  assumes "pg_transactions exec stack ident" and "\<And>k. ident (nested_name k)"
    and "cmd_name_ok (user_name ident) cmd"
    and "frames_ok (user_name ident) (frames st)" and "stack s = txn_stack (frames st)"
    and "plan st cmd = (sql, st')"
  shows "(\<exists>s'. exec_all exec sql s = Some s' \<and> stack s' = txn_stack (frames st'))
    \<and> frames_ok (user_name ident) (frames st')"
proof -
  have "step_ok exec stack ident s (plan st cmd)"
    using assms(3) plan_begin_ok [OF assms(1,2,4,5)] plan_end_ok [OF assms(1,2,4,5)]
      plan_savepoint_ok [OF assms(1) _ assms(4,5)] plan_release_ok [OF assms(1) _ assms(4,5)]
    by (cases cmd) (simp_all del: plan.simps)
  with assms(6) show ?thesis
    by (simp add: step_ok_def)
qed


text \<open>A server with the documented behaviour, which reads the statements it is sent.\<close>

definition model_exec :: "string \<Rightarrow> string list option \<Rightarrow> string list option option" where
  "model_exec sql st =
     (case (classify_sql sql, st) of
        (Some Begin, None) \<Rightarrow> Some (Some [])
      | (Some Commit, Some ns) \<Rightarrow> Some None
      | (Some Rollback, Some ns) \<Rightarrow> Some None
      | (Some (Savepoint n), Some ns) \<Rightarrow> Some (Some (ns @ [to_ascii_lowercase n]))
      | (Some (Release n), Some ns) \<Rightarrow>
          map_option (\<lambda>i. Some (take i ns)) (rposition (\<lambda>m. m = to_ascii_lowercase n) ns)
      | (Some (RollbackTo n), Some ns) \<Rightarrow>
          map_option (\<lambda>i. Some (take (Suc i) ns)) (rposition (\<lambda>m. m = to_ascii_lowercase n) ns)
      | _ \<Rightarrow> None)"

lemma classify_canonical:
  "classify_sql ''BEGIN'' = Some Begin" "classify_sql ''COMMIT'' = Some Commit" "classify_sql ''ROLLBACK'' = Some Rollback"
  "is_savepoint_name n \<Longrightarrow> classify_sql (''SAVEPOINT '' @ n) = Some (Savepoint n)"
  "is_savepoint_name n \<Longrightarrow> classify_sql (''RELEASE SAVEPOINT '' @ n) = Some (Release n)"
  "is_savepoint_name n \<Longrightarrow> classify_sql (''ROLLBACK TO SAVEPOINT '' @ n) = Some (RollbackTo n)"
  using classify_render_semis [of Begin 0] classify_render_semis [of Commit 0] classify_render_semis [of Rollback 0]
    classify_render_semis [of "Savepoint n" 0] classify_render_semis [of "Release n" 0]
    classify_render_semis [of "RollbackTo n" 0]
  by simp_all

lemma model_exec_pg: "pg_transactions model_exec (\<lambda>st. st) is_savepoint_name"
proof -
  have find: "rposition (\<lambda>m. m = x) (xs @ x # ys) = Some (length xs)" if "x \<notin> set ys" for x :: string and xs ys
    using that by (intro rposition_append) auto
  note c = classify_canonical [simplified]
  show ?thesis
    unfolding pg_transactions_def
    by (intro conjI allI impI) (auto simp: model_exec_def c find)
qed

lemma nested_name_ok: "is_savepoint_name (nested_name k)"
proof -
  have "list_all name_char ''plexpg_nested_''"
    by (simp add: name_char_def is_ascii_alphanumeric_def is_ascii_lower_def)
  moreover have "list_all name_char (show_nat k)"
    using show_nat_digits by (auto simp: list_all_iff name_char_def is_ascii_alphanumeric_def)
  ultimately show ?thesis by (simp add: is_savepoint_name_def nested_name_def)
qed


text \<open>
  Without the lower-case premise the stacks come apart: SQLite and PostgreSQL compare
  unquoted savepoint names without case, the planner with it. The release of \<open>a\<close> below
  means the inner savepoint \<open>A\<close> to both, but the planner takes the outer one and commits the
  transaction.
\<close>

lemma savepoint_case_confusion:
  "let st1 = snd (plan TxnState_default (Savepoint ''a''));
       st2 = snd (plan st1 (Savepoint ''A''))
   in plan st2 (Release ''a'') = ([''RELEASE SAVEPOINT a'', ''COMMIT''], TxnState_default)
      \<and> txn_stack (frames st2) = Some [''a'', ''a'']"
  by code_simp

end
