(* ===== verification/Pg_Config.thy ===== *)
theory Pg_Config
  imports Txn_Plan
begin

text \<open>
  Configuration and the textual classification of statements: \<^verbatim>\<open>pg_config.rs\<close> and
  \<^verbatim>\<open>pg_client_config.rs\<close>, and the path predicates of
  \<^verbatim>\<open>db_interpose_helpers/pure_helpers.rs\<close> that decide which database file is served from
  which schema. The process environment is a partial function from names to values. As in
  \<open>Prelude\<close>, letter case is ASCII.
\<close>

type_synonym environ = "string \<Rightarrow> string option"

section \<open>Statements\<close>

fun skip_comment_body :: "string \<Rightarrow> string" where
  "skip_comment_body (a # b # cs) =
     (if a = CHR ''*'' \<and> b = CHR ''/'' then cs else skip_comment_body (b # cs))"
| "skip_comment_body s = s"

lemma skip_comment_body_length: "length (skip_comment_body s) \<le> length s"
  by (induction s rule: skip_comment_body.induct) auto

function strip_leading_ws_and_sql_comments :: "string \<Rightarrow> string" where
  "strip_leading_ws_and_sql_comments s =
     (let s = dropWhile is_ascii_whitespace s in
      if starts_with ''--'' s
      then strip_leading_ws_and_sql_comments (dropWhile (\<lambda>c. c \<noteq> CHR 0x0A) (drop 2 s))
      else if starts_with ''/*'' s
      then strip_leading_ws_and_sql_comments (skip_comment_body (drop 2 s))
      else s)"
  by pat_completeness auto
termination
proof (relation "measure length")
  have shorter: "length (f (drop 2 x)) < length s"
    if "\<And>y. length (f y) \<le> length y" and "x = dropWhile is_ascii_whitespace s" and "2 \<le> length x"
    for f :: "string \<Rightarrow> string" and s x :: string
  proof -
    have "length (f (drop 2 x)) \<le> length (drop 2 x)" by (rule that(1))
    also have "\<dots> < length x" using that(3) by simp
    also have "\<dots> \<le> length s" unfolding that(2) by (rule length_dropWhile_le)
    finally show ?thesis .
  qed
  have two: "2 \<le> length x" if "starts_with [a, b] x" for a b and x :: string
    using that by (auto simp: starts_with_def dest: prefix_length_le)
  show "(dropWhile (\<lambda>c. c \<noteq> CHR 0x0A) (drop 2 x), s) \<in> measure length"
    if "x = dropWhile is_ascii_whitespace s" "starts_with ''--'' x" for s x
    using shorter [OF length_dropWhile_le that(1) two [OF that(2)]] by simp
  show "(skip_comment_body (drop 2 x), s) \<in> measure length"
    if "x = dropWhile is_ascii_whitespace s" "\<not> starts_with ''--'' x" "starts_with ''/*'' x" for s x
    using shorter [OF skip_comment_body_length that(1) two [OF that(3)]] by simp
qed simp

declare strip_leading_ws_and_sql_comments.simps [simp del]

definition is_sqlite_passthrough_str :: "string \<Rightarrow> bool" where
  "is_sqlite_passthrough_str sql =
     (let trimmed = strip_leading_ws_and_sql_comments sql; lower = to_ascii_lowercase trimmed
      in trimmed \<noteq> [] \<and>
         (starts_with ''icu_load_collation'' lower
          \<or> starts_with ''fts3_tokenizer'' lower
          \<or> starts_with ''select load_extension'' lower
          \<or> starts_with ''select fts3_tokenizer'' lower
          \<or> starts_with ''select icu_load_collation'' lower
          \<or> str_contains ''sqlite_master'' lower
          \<or> str_contains ''sqlite_schema'' lower
          \<or> str_contains ''sqlite_stat1'' lower
          \<or> str_contains ''sqlite_stat4'' lower))"

definition is_maintenance_noop_str :: "string \<Rightarrow> bool" where
  "is_maintenance_noop_str sql =
     (let lower = to_ascii_lowercase (strip_leading_ws_and_sql_comments sql)
      in list_ex (\<lambda>kw. lower = kw \<or>
           (case strip_prefix kw lower of None \<Rightarrow> False | Some r \<Rightarrow> r \<noteq> [] \<and> is_whitespace (hd r)))
         [''vacuum'', ''reindex''])"

definition PREFIX_PATTERNS :: "string list" where
  "PREFIX_PATTERNS =
     [''vacuum'', ''pragma'', ''reindex'', ''analyze sqlite_'', ''attach database'', ''detach database'',
      ''begin'', ''end'', ''commit'', ''rollback'', ''savepoint'', ''release '']"

definition ANYWHERE_PATTERNS :: "string list" where
  "ANYWHERE_PATTERNS =
     [''spellfix'', ''set $2=$2'', ''set $1=$1'', ''set :2=:2'', ''set :1=:1'', '':col=:col'']"

definition should_skip_sql_str :: "environ \<Rightarrow> string \<Rightarrow> bool" where
  "should_skip_sql_str env sql =
     (let trimmed = strip_leading_ws_and_sql_comments sql;
          lower = to_ascii_lowercase trimmed;
          full_lower = to_ascii_lowercase sql
      in if trimmed = [] then False
         else if list_ex (\<lambda>p. starts_with p lower) PREFIX_PATTERNS then True
         else if (case env ''PLEX_PG_DEBUG_SKIP_CONTAINS'' of
                    None \<Rightarrow> False
                  | Some skip_contains \<Rightarrow>
                      list_ex (\<lambda>token. let t = to_ascii_lowercase (trim token) in t \<noteq> [] \<and> str_contains t full_lower)
                        (split_on (CHR '','') skip_contains))
         then True
         else list_ex (\<lambda>p. str_contains p full_lower) ANYWHERE_PATTERNS)"

definition is_write_operation_str :: "string \<Rightarrow> bool" where
  "is_write_operation_str sql =
     (let lower = to_ascii_lowercase (strip_leading_ws_and_sql_comments sql)
      in starts_with ''insert'' lower \<or> starts_with ''update'' lower \<or> starts_with ''delete'' lower
         \<or> starts_with ''replace'' lower \<or> starts_with ''alter'' lower \<or> starts_with ''create'' lower
         \<or> starts_with ''drop'' lower)"

definition is_ddl_str :: "string \<Rightarrow> bool" where
  "is_ddl_str sql =
     (let lower = to_ascii_lowercase (strip_leading_ws_and_sql_comments sql)
      in starts_with ''alter'' lower \<or> starts_with ''create'' lower \<or> starts_with ''drop'' lower)"

definition is_read_operation_str :: "string \<Rightarrow> bool" where
  "is_read_operation_str sql =
     starts_with ''select'' (to_ascii_lowercase (strip_leading_ws_and_sql_comments sql))"

section \<open>The environment's settings\<close>

definition DEFAULT_DELAYS :: "int list" where
  "DEFAULT_DELAYS = [500, 1000, 2000, 3000, 4000]"

definition MAX_DELAYS :: nat where
  "MAX_DELAYS = 10"

definition MAX_DELAY_MS :: int where
  "MAX_DELAY_MS = 60000"

fun parse_delays :: "string list \<Rightarrow> nat \<Rightarrow> int \<Rightarrow> int list \<Rightarrow> int list" where
  "parse_delays [] max_count cap_ms result = result"
| "parse_delays (part # parts) max_count cap_ms result =
     (if max_count \<le> length result then result
      else case parse_i32 (trim part) of
             None \<Rightarrow> parse_delays parts max_count cap_ms result
           | Some n \<Rightarrow> parse_delays parts max_count cap_ms (result @ [min n cap_ms]))"

definition parse_delay_list :: "string \<Rightarrow> nat \<Rightarrow> int \<Rightarrow> int list" where
  "parse_delay_list s max_count cap_ms = parse_delays (split_on (CHR '','') s) max_count cap_ms []"

definition get_retry_delays_vec :: "environ \<Rightarrow> int list" where
  "get_retry_delays_vec env =
     (case env ''PLEX_PG_RETRY_DELAYS'' of
        None \<Rightarrow> DEFAULT_DELAYS
      | Some val \<Rightarrow>
          (let parsed = parse_delay_list val MAX_DELAYS MAX_DELAY_MS
           in if parsed \<noteq> [] then parsed else DEFAULT_DELAYS))"

record PgEnvConfig =
  cfg_host :: string
  cfg_port :: int
  cfg_database :: string
  cfg_user :: string
  cfg_password :: string
  cfg_schema :: string

definition unwrap_or :: "'a option \<Rightarrow> 'a \<Rightarrow> 'a" where
  "unwrap_or x d = (case x of None \<Rightarrow> d | Some v \<Rightarrow> v)"

definition PgEnvConfig_from_env :: "environ \<Rightarrow> PgEnvConfig" where
  "PgEnvConfig_from_env env =
     \<lparr>cfg_host = unwrap_or (env ''PLEX_PG_HOST'') [],
      cfg_port = unwrap_or (Option.bind (env ''PLEX_PG_PORT'') (\<lambda>v. parse_i32 (trim v))) 0,
      cfg_database = unwrap_or (env ''PLEX_PG_DATABASE'') [],
      cfg_user = unwrap_or (env ''PLEX_PG_USER'') [],
      cfg_password = unwrap_or (env ''PLEX_PG_PASSWORD'') [],
      cfg_schema = unwrap_or (env ''PLEX_PG_SCHEMA'') []\<rparr>"

definition parse_positive_env_or_default :: "environ \<Rightarrow> string \<Rightarrow> int \<Rightarrow> int" where
  "parse_positive_env_or_default env name default_value =
     (case Option.bind (env name) (\<lambda>v. parse_i32 (trim v)) of
        None \<Rightarrow> default_value
      | Some n \<Rightarrow> if 0 < n then n else default_value)"

definition effective_pool_max :: "int \<Rightarrow> int \<Rightarrow> int" where
  "effective_pool_max requested server_max_connections =
     (if server_max_connections \<le> 0 then requested else min requested server_max_connections)"

definition env_nonzero :: "environ \<Rightarrow> string \<Rightarrow> bool" where
  "env_nonzero env name = (case env name of None \<Rightarrow> False | Some v \<Rightarrow> v \<noteq> [] \<and> v \<noteq> ''0'')"

text \<open>\<open>txn::enabled\<close>, whose answer is cached in the source: the flag read at the first call.\<close>

definition txn_enabled :: "environ \<Rightarrow> bool" where
  "txn_enabled env =
     (case env ''PLEX_PG_TRANSACTIONS'' of
        None \<Rightarrow> True
      | Some v \<Rightarrow>
          (let v = to_ascii_lowercase (trim v)
           in \<not> (v = ''0'' \<or> v = ''false'' \<or> v = ''no'' \<or> v = ''off'')))"

section \<open>Database files\<close>

text \<open>Containment up to ASCII letter case; never of the empty text.\<close>

definition contains_ascii_icase :: "string \<Rightarrow> string \<Rightarrow> bool" where
  "contains_ascii_icase hay needle \<longleftrightarrow> needle \<noteq> [] \<and> str_contains (to_ascii_lowercase needle) (to_ascii_lowercase hay)"

definition is_ascii_hexdigit :: "char \<Rightarrow> bool" where
  "is_ascii_hexdigit c \<longleftrightarrow> is_ascii_digit c \<or> (65 \<le> char_code c \<and> char_code c \<le> 70)
     \<or> (97 \<le> char_code c \<and> char_code c \<le> 102)"

definition GUIDE_LOAD_SUFFIX :: string where
  "GUIDE_LOAD_SUFFIX = ''-loading''"

fun strip_first_suffix :: "string list \<Rightarrow> string \<Rightarrow> string" where
  "strip_first_suffix [] p = p"
| "strip_first_suffix (sfx # sfxs) p =
     (case strip_suffix sfx p of Some stripped \<Rightarrow> stripped | None \<Rightarrow> strip_first_suffix sfxs p)"

definition dvr_of_stem :: "string \<Rightarrow> string option" where
  "dvr_of_stem stem =
     (if length stem < 38 then None
      else
        let provider = take (length stem - 36) stem;
            uuid = drop (length stem - 36) stem;
            groups = split_on (CHR ''-'') uuid
        in case strip_suffix ''-'' provider of
             None \<Rightarrow> None
           | Some provider \<Rightarrow>
               if provider = [] \<or> \<not> list_all (\<lambda>b. is_ascii_alphanumeric b \<or> b = CHR ''_'') provider then None
               else if map length groups \<noteq> [8, 4, 4, 4, 12] \<or> \<not> list_all (list_all is_ascii_hexdigit) groups then None
               else Some (to_ascii_lowercase (filter (\<lambda>c. c \<noteq> CHR ''-'') uuid)))"

definition guide_dvr_for_path :: "string \<Rightarrow> (string \<times> bool) option" where
  "guide_dvr_for_path path =
     do {
       let p = strip_first_suffix [''-wal'', ''-shm'', ''-journal''] path;
       let name = last (split_on (CHR ''/'') p);
       stem \<leftarrow> strip_prefix ''tv.plex.providers.epg.'' name;
       stem \<leftarrow> strip_suffix ''.db'' stem;
       let (stem, load) = (case strip_suffix GUIDE_LOAD_SUFFIX stem of Some stripped \<Rightarrow> (stripped, True) | None \<Rightarrow> (stem, False));
       dvr \<leftarrow> dvr_of_stem stem;
       Some (dvr, load)
     }"

definition epg_schema_for_path :: "string \<Rightarrow> string option" where
  "epg_schema_for_path path =
     (case guide_dvr_for_path path of
        None \<Rightarrow> None
      | Some (dvr, load) \<Rightarrow> Some (if load then ''epg_'' @ dvr @ ''_next'' else ''epg_'' @ dvr))"

definition is_guide_load_path :: "string \<Rightarrow> bool" where
  "is_guide_load_path path = (case guide_dvr_for_path path of Some (_, True) \<Rightarrow> True | _ \<Rightarrow> False)"

definition is_library_db_path :: "string \<Rightarrow> bool" where
  "is_library_db_path path =
     (let bytes = (if 4 < length path \<and> (ends_with ''-wal'' path \<or> ends_with ''-shm'' path)
                   then take (length path - 4) path else path)
      in contains_ascii_icase bytes ''com.plexapp.plugins.library.db''
         \<or> contains_ascii_icase bytes ''com.plexapp.plugins.library.blobs.db''
         \<or> epg_schema_for_path path \<noteq> None)"

definition is_library_or_blobs_db_path :: "string \<Rightarrow> bool" where
  "is_library_or_blobs_db_path path =
     (contains_ascii_icase path ''com.plexapp.plugins.library.db''
      \<or> contains_ascii_icase path ''com.plexapp.plugins.library.blobs.db''
      \<or> epg_schema_for_path path \<noteq> None)"

definition is_blobs_db_path :: "string \<Rightarrow> bool" where
  "is_blobs_db_path path = contains_ascii_icase path ''com.plexapp.plugins.library.blobs.db''"

definition should_redirect_with :: "string \<Rightarrow> bool \<Rightarrow> bool \<Rightarrow> bool" where
  "should_redirect_with filename passthrough guide_loads =
     (if passthrough \<or> filename = [] then False
      else str_contains ''com.plexapp.plugins.library.db'' filename
        \<or> str_contains ''com.plexapp.plugins.library.blobs.db'' filename
        \<or> (epg_schema_for_path filename \<noteq> None \<and> (guide_loads \<or> \<not> is_guide_load_path filename)))"

text \<open>\<open>guide_load::flag\<close> (whose answer is cached), and the two flags read with it.\<close>

definition env_flag :: "environ \<Rightarrow> string \<Rightarrow> bool \<Rightarrow> bool" where
  "env_flag env name dflt =
     (case env name of
        None \<Rightarrow> dflt
      | Some v \<Rightarrow> if trim v \<noteq> [] then trim v \<noteq> ''0'' else dflt)"

definition guide_loads_enabled :: "environ \<Rightarrow> bool" where
  "guide_loads_enabled env = env_flag env ''PLEX_PG_GUIDE_LOADS'' False"

definition savepoints_enabled :: "environ \<Rightarrow> bool" where
  "savepoints_enabled env = env_flag env ''PLEX_PG_GUIDE_LOAD_SAVEPOINTS'' False"

definition should_redirect_str :: "environ \<Rightarrow> string \<Rightarrow> bool \<Rightarrow> bool" where
  "should_redirect_str env filename passthrough =
     should_redirect_with filename passthrough (guide_loads_enabled env)"

section \<open>What the settings guarantee\<close>

lemma parse_delays_bounds:
  "length result \<le> max_count \<Longrightarrow> \<forall>d\<in>set result. d \<le> cap_ms \<Longrightarrow>
     length (parse_delays parts max_count cap_ms result) \<le> max_count
     \<and> (\<forall>d\<in>set (parse_delays parts max_count cap_ms result). d \<le> cap_ms)"
  by (induction parts max_count cap_ms result rule: parse_delays.induct) (auto split: option.splits)

text \<open>
  Whatever the environment says, there is at least one and there are at most ten retry
  delays, and none is longer than a minute: an acquire that finds the pool full gives up
  within ten minutes, and retries at least once.
\<close>

theorem retry_delays_bounded:
  "let delays = get_retry_delays_vec env
   in 1 \<le> length delays \<and> length delays \<le> 10 \<and> list_all (\<lambda>d. d \<le> 60000) delays"
proof -
  have d: "length DEFAULT_DELAYS = 5" "list_all (\<lambda>d. d \<le> 60000) DEFAULT_DELAYS"
    by (simp_all add: DEFAULT_DELAYS_def)
  show ?thesis
  proof (cases "env ''PLEX_PG_RETRY_DELAYS''")
    case None
    with d show ?thesis by (simp add: get_retry_delays_vec_def)
  next
    case (Some val)
    let ?p = "parse_delay_list val MAX_DELAYS MAX_DELAY_MS"
    have "length ?p \<le> 10" and "list_all (\<lambda>d. d \<le> 60000) ?p"
      using parse_delays_bounds [of "[]" MAX_DELAYS MAX_DELAY_MS "split_on (CHR '','') val"]
      by (simp_all add: parse_delay_list_def MAX_DELAYS_def MAX_DELAY_MS_def list_all_iff)
    with Some d show ?thesis by (auto simp: get_retry_delays_vec_def Let_def Suc_le_eq)
  qed
qed

text \<open>
  The two comment strippers of the code base, this one and \<open>txn.rs\<close>'s, agree on every
  statement that has something after its comments; they differ on a comment that never
  closes, of which this one keeps the last character.
\<close>

lemma skip_comment_body_eq: "skip_block_comment s \<noteq> [] \<Longrightarrow> skip_comment_body s = skip_block_comment s"
proof (induction s rule: skip_block_comment.induct)
  case (1 a b cs)
  then show ?case by (cases "a = CHR ''*'' \<and> b = CHR ''/''") auto
qed simp_all

lemma strip_noise_empty: "strip_leading_noise [] = []"
  by (subst strip_leading_noise.simps) (simp add: starts_with_def)

lemma strippers_agree:
  "strip_leading_noise s \<noteq> [] \<Longrightarrow> strip_leading_ws_and_sql_comments s = strip_leading_noise s"
proof (induction s rule: strip_leading_noise.induct)
  case (1 s)
  let ?x = "dropWhile is_ascii_whitespace s"
  consider (line) "starts_with ''--'' ?x" | (block) "\<not> starts_with ''--'' ?x" "starts_with ''/*'' ?x"
    | (plain) "\<not> starts_with ''--'' ?x" "\<not> starts_with ''/*'' ?x" by blast
  then show ?case
  proof cases
    case line
    then obtain t where x: "?x = ''--'' @ t" by (auto simp: starts_with_def prefix_def)
    have "strip_leading_noise s = strip_leading_noise (dropWhile (\<lambda>c. c \<noteq> CHR 0x0A) ?x)"
      using line by (subst strip_leading_noise.simps) (simp add: Let_def)
    moreover have "strip_leading_ws_and_sql_comments s =
        strip_leading_ws_and_sql_comments (dropWhile (\<lambda>c. c \<noteq> CHR 0x0A) (drop 2 ?x))"
      using line by (subst strip_leading_ws_and_sql_comments.simps) (simp add: Let_def)
    moreover have "dropWhile (\<lambda>c. c \<noteq> CHR 0x0A) (drop 2 ?x) = dropWhile (\<lambda>c. c \<noteq> CHR 0x0A) ?x"
      unfolding x by simp
    ultimately show ?thesis using "1.IH"(1) [OF refl line] "1.prems" by simp
  next
    case block
    have n: "strip_leading_noise s = strip_leading_noise (skip_block_comment (drop 2 ?x))"
      using block by (subst strip_leading_noise.simps) (simp add: Let_def)
    moreover have "strip_leading_ws_and_sql_comments s =
        strip_leading_ws_and_sql_comments (skip_comment_body (drop 2 ?x))"
      using block by (subst strip_leading_ws_and_sql_comments.simps) (simp add: Let_def)
    moreover have "skip_comment_body (drop 2 ?x) = skip_block_comment (drop 2 ?x)"
      using "1.prems" n strip_noise_empty by (intro skip_comment_body_eq) auto
    ultimately show ?thesis using "1.IH"(2) [OF refl block] "1.prems" by simp
  next
    case plain
    then show ?thesis
      by (subst strip_leading_noise.simps, subst strip_leading_ws_and_sql_comments.simps) (simp add: Let_def)
  qed
qed

lemma skip_block_comment_set: "set (skip_block_comment s) \<subseteq> set s"
  by (induction s rule: skip_block_comment.induct) auto

lemma strip_noise_shape:
  "set (strip_leading_noise s) \<subseteq> set s
   \<and> (strip_leading_noise s = [] \<or> \<not> is_ascii_whitespace (hd (strip_leading_noise s)))"
proof (induction s rule: strip_leading_noise.induct)
  case (1 s)
  let ?x = "dropWhile is_ascii_whitespace s"
  have x: "set ?x \<subseteq> set s" by (auto dest: set_dropWhileD)
  have plain: "?x = [] \<or> \<not> is_ascii_whitespace (hd ?x)" by (metis hd_dropWhile)
  have line: "set (dropWhile (\<lambda>c. c \<noteq> CHR 0x0A) ?x) \<subseteq> set s" using x by (auto dest: set_dropWhileD)
  have block: "set (skip_block_comment (drop 2 ?x)) \<subseteq> set s"
    using skip_block_comment_set [of "drop 2 ?x"] set_drop_subset [of 2 ?x] x by blast
  have eq: "strip_leading_noise s =
      (if starts_with ''--'' ?x then strip_leading_noise (dropWhile (\<lambda>c. c \<noteq> CHR 0x0A) ?x)
       else if starts_with ''/*'' ?x then strip_leading_noise (skip_block_comment (drop 2 ?x)) else ?x)"
    by (subst strip_leading_noise.simps) (simp add: Let_def)
  show ?case
    unfolding eq
    using "1.IH"(1) [OF refl] "1.IH"(2) [OF refl] line block x plain
    by (simp split: if_split) blast
qed

lemma trim_end_matches_prefix: "prefix (trim_end_matches P s) s"
proof -
  have "s = rev (dropWhile P (rev s)) @ rev (takeWhile P (rev s))"
    by (metis rev_append rev_rev_ident takeWhile_dropWhile_id)
  then show ?thesis unfolding trim_end_matches_def prefix_def by blast
qed

lemma trim_prefix: "\<not> is_whitespace (hd s) \<Longrightarrow> prefix (trim s) s"
  by (simp add: trim_def trim_start_id trim_end_def trim_end_matches_prefix)

lemma split_first_prefix:
  "s \<noteq> [] \<Longrightarrow> \<not> is_whitespace (hd s) \<Longrightarrow> split_whitespace s \<noteq> [] \<and> prefix (hd (split_whitespace s)) s"
  by (cases s) (auto simp: takeWhile_is_prefix)

lemma trim_end_matches_Nil: "trim_end_matches P [] = []"
  by (simp add: trim_end_matches_def)

lemma trim_Nil: "trim [] = []"
  by (simp add: trim_def trim_start_def trim_end_def trim_end_matches_Nil)

lemma is_whitespace_split: "is_whitespace c \<longleftrightarrow> is_ascii_whitespace c \<or> c = CHR 0x0B"
proof -
  have "c = CHR 0x0B \<longleftrightarrow> (of_char c :: nat) = of_char (CHR 0x0B)" by (simp only: of_char_eq_iff)
  also have "of_char (CHR 0x0B) = (11 :: nat)" by simp
  finally show ?thesis by (auto simp: is_whitespace_def is_ascii_whitespace_def)
qed

lemma prefix_hd: "prefix t s \<Longrightarrow> t \<noteq> [] \<Longrightarrow> hd t = hd s"
  by (auto simp: prefix_def)

lemma prefix_lower: "prefix p s \<Longrightarrow> starts_with (to_ascii_lowercase p) (to_ascii_lowercase s)"
  by (auto simp: starts_with_def to_ascii_lowercase_def intro: map_mono_prefix)

lemma classify_words_first:
  assumes "classify_words words = Some cmd"
  shows "words \<noteq> []"
    and "to_ascii_lowercase (hd words) \<in> {''begin'', ''commit'', ''end'', ''rollback'', ''savepoint''} \<or> (\<exists>n. cmd = Release n)"
proof -
  show "words \<noteq> []" using assms by (auto simp: classify_words_def)
  have "\<exists>n. c = Release n" if "classify_release ws lw = Some c" for ws lw c
    using that by (auto simp: classify_release_def Let_def split: if_splits)
  with assms show "to_ascii_lowercase (hd words) \<in> {''begin'', ''commit'', ''end'', ''rollback'', ''savepoint''} \<or> (\<exists>n. cmd = Release n)"
    by (simp add: classify_words_def Let_def split: if_splits) (elim disjE, simp_all)
qed

lemma classify_first_word:
  assumes "classify_sql sql = Some cmd" and "CHR 0x0B \<notin> set sql"
  shows "strip_leading_noise sql \<noteq> []
    \<and> (\<exists>w. prefix w (strip_leading_noise sql) \<and>
          (to_ascii_lowercase w \<in> {''begin'', ''commit'', ''end'', ''rollback'', ''savepoint''} \<or> (\<exists>n. cmd = Release n)))"
proof -
  let ?r = "strip_leading_noise sql"
  let ?t = "trim_end_matches (\<lambda>c. c = CHR '';'') (trim ?r)"
  have words: "classify_words (split_whitespace (trim ?t)) = Some cmd"
    using assms(1) by (simp add: classify_sql_def Let_def)
  then have "split_whitespace (trim ?t) \<noteq> []" by (rule classify_words_first)
  then have body: "trim ?t \<noteq> []" by auto
  then have t: "?t \<noteq> []" using trim_Nil by metis
  then have "trim ?r \<noteq> []" using trim_end_matches_Nil by metis
  then have r: "?r \<noteq> []" using trim_Nil by metis
  have "hd ?r \<in> set sql" using strip_noise_shape [of sql] r hd_in_set by blast
  then have "hd ?r \<noteq> CHR 0x0B" using assms(2) by metis
  then have hd_r: "\<not> is_whitespace (hd ?r)"
    using strip_noise_shape [of sql] r is_whitespace_split [of "hd ?r"] by blast
  have p1: "prefix (trim ?r) ?r" using hd_r by (rule trim_prefix)
  have p2: "prefix ?t ?r" using trim_end_matches_prefix p1 prefix_order.trans by blast
  have p3: "prefix (trim ?t) ?t" using trim_prefix prefix_hd [OF p2 t] hd_r by simp
  have p4: "prefix (hd (split_whitespace (trim ?t))) (trim ?t)"
    using split_first_prefix [OF body] prefix_hd [OF p3 body] prefix_hd [OF p2 t] hd_r by simp
  have "prefix (hd (split_whitespace (trim ?t))) ?r"
    using p4 p3 p2 prefix_order.trans by blast
  with r classify_words_first(2) [OF words] show ?thesis
    by (intro conjI exI [of _ "hd (split_whitespace (trim ?t))"])
qed



text \<open>
  The exception is real: a \<open>RELEASE\<close> whose name follows a tab is recognised, and so is
  routed to PostgreSQL, but is not on the list, which has \<open>release\<close> with a blank.
\<close>

lemma release_with_tab_not_skipped:
  "classify_sql (''RELEASE'' @ [CHR 0x09] @ ''sp1'') = Some (Release ''sp1'')
   \<and> \<not> should_skip_sql_str Map.empty (''RELEASE'' @ [CHR 0x09] @ ''sp1'')"
  by code_simp

text \<open>
  A statement is never both a read and a write, and every schema change is a write:
  the three tests by which a statement is routed are consistent.
\<close>

theorem read_write_ddl_consistent:
  "\<not> (is_read_operation_str sql \<and> is_write_operation_str sql)
   \<and> (if is_ddl_str sql then is_write_operation_str sql else True)"
proof -
  have "\<not> (prefix ''select'' s \<and> prefix p s)"
    if "p \<in> {''insert'', ''update'', ''delete'', ''replace'', ''alter'', ''create'', ''drop''}" for p s :: string
    using that by (cases s) auto
  then show ?thesis
    by (auto simp: is_read_operation_str_def is_write_operation_str_def is_ddl_str_def starts_with_def Let_def)
qed

section \<open>The schema of a guide\<close>

lemma split_on_concat: "concat (split_on c s) = filter (\<lambda>x. x \<noteq> c) s"
proof (induction s)
  case (Cons x xs)
  then show ?case by (cases "split_on c xs") auto
qed simp

lemma lower_hexdigit:
  assumes "is_ascii_hexdigit c"
  shows "is_ascii_lower (ascii_lower c) \<or> is_ascii_digit (ascii_lower c)"
  using assms
  by (auto simp: is_ascii_hexdigit_def ascii_lower_def is_ascii_upper_def is_ascii_lower_def is_ascii_digit_def)

lemma guide_dvr_shape:
  assumes "guide_dvr_for_path path = Some (dvr, load)"
  shows "length dvr = 32 \<and> list_all (\<lambda>c. is_ascii_lower c \<or> is_ascii_digit c) dvr"
proof -
  obtain stem where "dvr_of_stem stem = Some dvr"
    using assms unfolding guide_dvr_for_path_def
    by (auto simp: Let_def bind_eq_Some_conv simp del: strip_first_suffix.simps split: prod.splits option.splits)
  then obtain uuid where groups: "map length (split_on (CHR ''-'') uuid) = [8, 4, 4, 4, 12]"
      "list_all (list_all is_ascii_hexdigit) (split_on (CHR ''-'') uuid)"
    and dvr: "dvr = to_ascii_lowercase (filter (\<lambda>c. c \<noteq> CHR ''-'') uuid)"
    unfolding dvr_of_stem_def Let_def
    by (auto split: if_splits option.splits)
  have "length (concat (split_on (CHR ''-'') uuid)) = 32"
    unfolding length_concat groups(1) by simp
  moreover have "list_all is_ascii_hexdigit (concat (split_on (CHR ''-'') uuid))"
    using groups(2) by (auto simp: list_all_iff)
  ultimately show ?thesis
    unfolding dvr split_on_concat using lower_hexdigit
    by (auto simp: to_ascii_lowercase_def list_all_iff)
qed

lemma epg_schema_cases:
  assumes "epg_schema_for_path path = Some s"
  obtains dvr load where "guide_dvr_for_path path = Some (dvr, load)"
    "s = (if load then ''epg_'' @ dvr @ ''_next'' else ''epg_'' @ dvr)" "length dvr = 32"
    "list_all (\<lambda>c. is_ascii_lower c \<or> is_ascii_digit c) dvr"
proof -
  obtain dvr load where d: "guide_dvr_for_path path = Some (dvr, load)"
    using assms by (cases "guide_dvr_for_path path") (auto simp: epg_schema_for_path_def)
  then have "s = (if load then ''epg_'' @ dvr @ ''_next'' else ''epg_'' @ dvr)"
    using assms by (simp add: epg_schema_for_path_def)
  with that d guide_dvr_shape [OF d] show ?thesis by blast
qed

text \<open>
  C33. The schema name a guide's file is served from consists of lower-case letters, digits
  and underscores only, begins with \<open>epg_\<close> and fits PostgreSQL's 63-byte identifiers,
  whatever the file is called: it can be written into \<open>SET search_path\<close> and into the
  \<open>pg_namespace\<close> query unquoted.
\<close>

theorem epg_schema_safe:
  assumes "epg_schema_for_path path = Some s"
  shows "starts_with ''epg_'' s \<and> list_all (\<lambda>c. is_ascii_lower c \<or> is_ascii_digit c \<or> c = CHR ''_'') s
    \<and> length s = (if is_guide_load_path path then 41 else 36)"
proof -
  from assms obtain dvr load where d: "guide_dvr_for_path path = Some (dvr, load)"
    and s: "s = (if load then ''epg_'' @ dvr @ ''_next'' else ''epg_'' @ dvr)" and len: "length dvr = 32"
    and ch: "list_all (\<lambda>c. is_ascii_lower c \<or> is_ascii_digit c) dvr"
    by (rule epg_schema_cases)
  have "is_guide_load_path path = load" using d by (cases load) (simp_all add: is_guide_load_path_def)
  moreover have "list_all (\<lambda>c. is_ascii_lower c \<or> is_ascii_digit c \<or> c = CHR ''_'') ''epg_''"
    "list_all (\<lambda>c. is_ascii_lower c \<or> is_ascii_digit c \<or> c = CHR ''_'') ''_next''"
    by (simp_all add: is_ascii_lower_def)
  moreover have "list_all (\<lambda>c. is_ascii_lower c \<or> is_ascii_digit c \<or> c = CHR ''_'') dvr"
    using ch by (auto simp: list_all_iff)
  ultimately show ?thesis using s len by (cases load) (simp_all add: starts_with_def)
qed

definition demo_guide :: string where
  "demo_guide = ''/config/tv.plex.providers.epg.xmltv-0123ABCD-4567-89ab-cdef-0123456789ab-loading.db''"

lemma demo_guide_schema:
  "epg_schema_for_path demo_guide = Some ''epg_0123abcd456789abcdef0123456789ab_next''"
  by code_simp

theorem epg_schema_safe_witness:
  "length ''epg_0123abcd456789abcdef0123456789ab_next'' = (if is_guide_load_path demo_guide then 41 else 36)"
  using epg_schema_safe [OF demo_guide_schema] by blast

text \<open>
  C32. Two guide files are served from the same schema only if they are files of the same
  DVR and both or neither of them is a load in progress: guides never share tables, and a
  load never writes into the guide it will replace.
\<close>

theorem epg_schema_injective:
  assumes "epg_schema_for_path p = Some s" and "epg_schema_for_path q = Some s"
  shows "guide_dvr_for_path p = guide_dvr_for_path q"
proof -
  obtain d l where p: "guide_dvr_for_path p = Some (d, l)" "s = (if l then ''epg_'' @ d @ ''_next'' else ''epg_'' @ d)"
    "length d = 32" using assms(1) by (rule epg_schema_cases)
  obtain d' l' where q: "guide_dvr_for_path q = Some (d', l')" "s = (if l' then ''epg_'' @ d' @ ''_next'' else ''epg_'' @ d')"
    "length d' = 32" using assms(2) by (rule epg_schema_cases)
  have "length s = (if l then 41 else 36)" unfolding p(2) using p(3) by simp
  moreover have "length s = (if l' then 41 else 36)" unfolding q(2) using q(3) by simp
  ultimately have "(if l then 41 else 36) = (if l' then 41 else (36 :: nat))" by (rule subst)
  then have "l = l'" by (cases l; cases l') simp_all
  with p q show ?thesis by (cases l) simp_all
qed

theorem epg_schema_injective_witness:
  "guide_dvr_for_path demo_guide = guide_dvr_for_path (demo_guide @ ''-wal'')"
proof (rule epg_schema_injective [OF demo_guide_schema])
  show "epg_schema_for_path (demo_guide @ ''-wal'') = Some ''epg_0123abcd456789abcdef0123456789ab_next''"
    by code_simp
qed

end
