(* ===== verification/Shim_State.thy ===== *)
theory Shim_State
  imports Libpq Stmt_Cache Pg_Config
begin

text \<open>
  The process state of the client and the operations that only read or update it: the
  connection struct (\<^verbatim>\<open>ffi_types.rs\<close>), the slot and the pool manager
  (\<^verbatim>\<open>pg_client/pool_state.rs\<close>), the handle registry and the handle-to-slot map
  (\<^verbatim>\<open>pg_client_registry.rs\<close>), the thread-local slot cache (\<^verbatim>\<open>pg_client/tls_cache.rs\<close>) and the
  shared identifiers (\<^verbatim>\<open>pg_client/globals.rs\<close>).

  Connection structs are heap objects: the pool, the handle registry and the statements
  all hold raw pointers to them, and whether such a pointer is still good is what most of
  the development is about. So the state has an explicit heap, a partial map from addresses
  to structs, and \<^verbatim>\<open>free\<close> takes an address out of its domain.

  An operation runs to its end without another thread's steps in between; the atomic
  compare-and-exchange loops are modelled as such, and the interleavings they guard
  against are the subject of \<open>Slot_Race\<close>. Mutexes and logging have no counterpart.
\<close>

section \<open>Connection structs\<close>

record PgConnection =
  pg_conn :: ptr
  shadow_db :: ptr
  conn_path :: string
  is_pg_active :: int
  last_changes :: int
  last_insert_rowid :: int
  last_generator_metadata_id :: int
  last_error :: string
  last_error_code :: int
  streaming_active :: int
  ref_count :: int
  last_insert_failed :: int

definition PgConnection_zeroed :: PgConnection where
  "PgConnection_zeroed =
     \<lparr>pg_conn = 0, shadow_db = 0, conn_path = [], is_pg_active = 0, last_changes = 0,
      last_insert_rowid = 0, last_generator_metadata_id = 0, last_error = [], last_error_code = 0,
      streaming_active = 0, ref_count = 0, last_insert_failed = 0\<rparr>"

definition DB_PATH_LEN :: nat where "DB_PATH_LEN = 1024"
definition LAST_ERROR_LEN :: nat where "LAST_ERROR_LEN = 1024"

text \<open>A string written into a C buffer of the given length and read back as a C string.\<close>

definition cbuf :: "nat \<Rightarrow> string \<Rightarrow> string" where
  "cbuf len src = takeWhile (\<lambda>c. c \<noteq> CHR 0x00) (take (len - 1) src)"

definition set_last_error :: "int \<Rightarrow> string \<Rightarrow> PgConnection \<Rightarrow> PgConnection" where
  "set_last_error code msg c = c\<lparr>last_error_code := code, last_error := cbuf LAST_ERROR_LEN msg\<rparr>"

definition clear_last_error :: "PgConnection \<Rightarrow> PgConnection" where
  "clear_last_error c = c\<lparr>last_error_code := 0, last_error := []\<rparr>"

section \<open>Slots\<close>

datatype slot_state = SLOT_FREE | SLOT_RESERVED | SLOT_READY | SLOT_RECONNECTING | SLOT_ERROR

record PoolSlot =
  slot_conn :: ptr
  owner_thread :: tid
  slot_last_used :: int
  slot_state :: slot_state
  generation :: u32

definition PoolSlot_new :: PoolSlot where
  "PoolSlot_new = \<lparr>slot_conn = 0, owner_thread = 0, slot_last_used = 0, slot_state = SLOT_FREE, generation = 0\<rparr>"

definition compare_exchange :: "slot_state \<Rightarrow> slot_state \<Rightarrow> PoolSlot \<Rightarrow> bool \<times> PoolSlot" where
  "compare_exchange current new s =
     (if slot_state s = current then (True, s\<lparr>slot_state := new\<rparr>) else (False, s))"

definition try_claim_free :: "PoolSlot \<Rightarrow> bool \<times> PoolSlot" where
  "try_claim_free s = compare_exchange SLOT_FREE SLOT_RESERVED s"

definition try_claim_free_with_conn :: "ptr \<Rightarrow> PoolSlot \<Rightarrow> bool \<times> PoolSlot" where
  "try_claim_free_with_conn expected s =
     (let (claimed, s1) = try_claim_free s
      in if \<not> claimed then (False, s1)
         else if slot_conn s1 = expected then (True, s1)
         else (False, s1\<lparr>slot_state := SLOT_FREE\<rparr>))"

definition try_begin_reconnect :: "PoolSlot \<Rightarrow> bool \<times> PoolSlot" where
  "try_begin_reconnect s = compare_exchange SLOT_READY SLOT_RECONNECTING s"

definition try_reclaim_error :: "PoolSlot \<Rightarrow> bool \<times> PoolSlot" where
  "try_reclaim_error s = compare_exchange SLOT_ERROR SLOT_RESERVED s"

definition try_reclaim_zombie :: "PoolSlot \<Rightarrow> bool \<times> PoolSlot" where
  "try_reclaim_zombie s = compare_exchange SLOT_READY SLOT_FREE s"

definition mark_ready :: "PoolSlot \<Rightarrow> PoolSlot" where
  "mark_ready s = s\<lparr>slot_state := SLOT_READY\<rparr>"

definition mark_error :: "PoolSlot \<Rightarrow> PoolSlot" where
  "mark_error s = s\<lparr>slot_state := SLOT_ERROR\<rparr>"

definition slot_release :: "PoolSlot \<Rightarrow> PoolSlot" where
  "slot_release s = s\<lparr>owner_thread := 0, slot_state := SLOT_FREE\<rparr>"

definition threads_equal :: "tid \<Rightarrow> tid \<Rightarrow> bool" where
  "threads_equal a b \<longleftrightarrow> \<not> (a = 0 \<or> b = 0) \<and> a = b"

section \<open>The pool manager\<close>

record PoolManager =
  slots :: "PoolSlot list"
  configured_size :: usize
  configured_max_size :: usize
  idle_timeout_secs :: nat
  library_db_path :: "string option"
  last_reap_time :: int
  init_pid :: nat
  registry :: "(ptr, ptr) hmap"
  db_to_pool :: "(ptr, usize) hmap"
  global_metadata_id :: int
  global_last_insert_rowid :: int
  live_pool_conns :: "ptr list"

definition POOL_SIZE_DEFAULT :: nat where
  "POOL_SIZE_DEFAULT = 50"

definition PoolManager_new :: "usize \<Rightarrow> usize \<Rightarrow> nat \<Rightarrow> PoolManager" where
  "PoolManager_new pool_size pool_max pid =
     (let effective_max = max pool_max 1
      in \<lparr>slots = replicate effective_max PoolSlot_new,
          configured_size = max 1 (min pool_size effective_max),
          configured_max_size = effective_max,
          idle_timeout_secs = 300,
          library_db_path = None,
          last_reap_time = 0,
          init_pid = pid,
          registry = [],
          db_to_pool = [],
          global_metadata_id = 0,
          global_last_insert_rowid = 0,
          live_pool_conns = []\<rparr>)"

definition zombie_reclaimable :: "bool \<Rightarrow> int \<Rightarrow> int \<Rightarrow> bool" where
  "zombie_reclaimable referenced idle_secs timeout \<longleftrightarrow> \<not> referenced \<and> timeout < idle_secs"

text \<open>\<open>DbToPool::references\<close>.\<close>

definition references :: "(ptr, usize) hmap \<Rightarrow> usize \<Rightarrow> nat" where
  "references m slot_index = length (filter (\<lambda>slot. slot = slot_index) (hm_values m))"

definition slot_is_referenced :: "PoolManager \<Rightarrow> usize \<Rightarrow> bool" where
  "slot_is_referenced m i \<longleftrightarrow> 0 < references (db_to_pool m) i"

definition pool_max :: "PoolManager \<Rightarrow> usize" where
  "pool_max m = configured_max_size m"

definition pool_size :: "PoolManager \<Rightarrow> usize" where
  "pool_size m = min (configured_size m) (pool_max m)"

definition find_connection_slot :: "PoolManager \<Rightarrow> ptr \<Rightarrow> (usize \<times> slot_state) option" where
  "find_connection_slot m conn =
     (if is_null conn then None
      else map_option (\<lambda>i. (i, slot_state (slots m ! i)))
             (find (\<lambda>i. slot_conn (slots m ! i) = conn) [0..<length (slots m)]))"

definition validate_connection :: "PoolManager \<Rightarrow> ptr \<Rightarrow> bool" where
  "validate_connection m conn =
     (case find_connection_slot m conn of Some (_, SLOT_READY) \<Rightarrow> True | _ \<Rightarrow> False)"

text \<open>\<open>ConnectionRegistry\<close>: handles and the connections of their own.\<close>

definition contains_conn :: "PoolManager \<Rightarrow> ptr \<Rightarrow> bool" where
  "contains_conn m conn = list_ex (\<lambda>c. c = conn) (hm_values (registry m))"

definition registry_find_any :: "(ptr \<Rightarrow> bool) \<Rightarrow> PoolManager \<Rightarrow> ptr option" where
  "registry_find_any p m = find p (hm_values (registry m))"

definition drain_all :: "PoolManager \<Rightarrow> ptr list \<times> PoolManager" where
  "drain_all m = (hm_values (registry m), m\<lparr>registry := []\<rparr>)"

definition stream_settles_on :: "PoolManager \<Rightarrow> ptr \<Rightarrow> bool" where
  "stream_settles_on m conn =
     (if is_null conn then False
      else case find_connection_slot m conn of
             Some (_, st) \<Rightarrow> st = SLOT_READY
           | None \<Rightarrow> contains_conn m conn)"

definition note_live_pool_connection :: "ptr \<Rightarrow> PoolManager \<Rightarrow> PoolManager" where
  "note_live_pool_connection conn m =
     (if is_null conn then m else m\<lparr>live_pool_conns := List.insert conn (live_pool_conns m)\<rparr>)"

definition forget_live_pool_connection :: "ptr \<Rightarrow> PoolManager \<Rightarrow> PoolManager" where
  "forget_live_pool_connection conn m =
     (if is_null conn then m else m\<lparr>live_pool_conns := removeAll conn (live_pool_conns m)\<rparr>)"

definition is_live_pool_connection :: "PoolManager \<Rightarrow> ptr \<Rightarrow> bool" where
  "is_live_pool_connection m conn \<longleftrightarrow> \<not> is_null conn \<and> conn \<in> set (live_pool_conns m)"

definition is_tracked_connection :: "PoolManager \<Rightarrow> ptr \<Rightarrow> bool" where
  "is_tracked_connection m conn \<longleftrightarrow>
     \<not> is_null conn \<and> (is_live_pool_connection m conn \<or> contains_conn m conn)"

definition update_slot :: "usize \<Rightarrow> (PoolSlot \<Rightarrow> PoolSlot) \<Rightarrow> PoolManager \<Rightarrow> PoolManager" where
  "update_slot i f m = m\<lparr>slots := (slots m)[i := f (slots m ! i)]\<rparr>"

definition touch_connection :: "ptr \<Rightarrow> int \<Rightarrow> PoolManager \<Rightarrow> PoolManager" where
  "touch_connection conn now m =
     (case find (\<lambda>i. slot_conn (slots m ! i) = conn) [0..<pool_size m] of
        None \<Rightarrow> m
      | Some i \<Rightarrow> update_slot i (\<lambda>s. s\<lparr>slot_last_used := now\<rparr>) m)"

text \<open>
  One slot of the reaper's scan: what is taken out of it, if anything. The connection is
  re-read under the claim, as the source's \<open>swap\<close> does.
\<close>

definition reap_slot :: "int \<Rightarrow> usize \<Rightarrow> PoolManager \<Rightarrow> (usize \<times> ptr) option \<times> PoolManager" where
  "reap_slot now i m =
     (let s = slots m ! i; timeout = int (idle_timeout_secs m) in
      if slot_state s \<noteq> SLOT_FREE then (None, m)
      else if is_null (slot_conn s) then (None, m)
      else if now - slot_last_used s < timeout then (None, m)
      else if slot_is_referenced m i then (None, m)
      else
        let (claimed, s1) = try_claim_free s in
        if \<not> claimed then (None, m)
        else
          let s2 = s1\<lparr>generation := generation s1 + 1\<rparr>;
              conn = slot_conn s2;
              s3 = s2\<lparr>slot_conn := 0, owner_thread := 0, slot_state := SLOT_FREE\<rparr>
          in (if is_null conn then None else Some (i, conn), m\<lparr>slots := (slots m)[i := s3]\<rparr>))"

fun reap_slots :: "int \<Rightarrow> usize list \<Rightarrow> PoolManager \<Rightarrow> (usize \<times> ptr) list \<times> PoolManager" where
  "reap_slots now [] m = ([], m)"
| "reap_slots now (i # is) m =
     (let (taken, m1) = reap_slot now i m;
          (rest, m2) = reap_slots now is m1
      in (case taken of None \<Rightarrow> rest | Some d \<Rightarrow> d # rest, m2))"

definition reap_idle :: "int \<Rightarrow> PoolManager \<Rightarrow> (usize \<times> ptr) list \<times> PoolManager" where
  "reap_idle now m = reap_slots now [0..<pool_size m] m"

section \<open>The thread-local slot cache\<close>

record TlsPoolCache =
  db_handle :: ptr
  slot_index :: u32
  cached_generation :: u32

definition u32_MAX :: u32 where
  "u32_MAX = 0xFFFFFFFF"

definition TlsPoolCache_EMPTY :: TlsPoolCache where
  "TlsPoolCache_EMPTY = \<lparr>db_handle = 0, slot_index = u32_MAX, cached_generation = 0\<rparr>"

definition TlsPoolCache_is_empty :: "TlsPoolCache \<Rightarrow> bool" where
  "TlsPoolCache_is_empty c \<longleftrightarrow> slot_index c = u32_MAX"

section \<open>The process\<close>

text \<open>
  Everything an operation of the client reads or writes. \<open>tls_pool_cache\<close> and \<open>retry_count\<close>
  are thread-local, so functions of the thread; \<open>config\<close> and \<open>env\<close> are read once and never
  written; \<open>stmt_caches\<close>, \<open>txn_by_conn\<close> and \<open>txn_pins\<close> are the three process-wide maps keyed
  by connection or handle.
\<close>

record 'w shim =
  pm :: PoolManager
  config :: PgEnvConfig
  env :: environ
  tls_pool_cache :: "tid \<Rightarrow> TlsPoolCache"
  retry_count :: "tid \<Rightarrow> nat"
  stmt_caches :: "(ptr, StmtCache) hmap"
  txn_by_conn :: "(ptr, TxnState) hmap"
  txn_pins :: "(ptr, ptr) hmap"
  heap :: "ptr \<rightharpoonup> PgConnection"
  world :: 'w

definition tls_pool_cache_set :: "tid \<Rightarrow> ptr \<Rightarrow> u32 \<Rightarrow> u32 \<Rightarrow> 'w shim \<Rightarrow> 'w shim" where
  "tls_pool_cache_set t h idx gen S =
     S\<lparr>tls_pool_cache := (tls_pool_cache S)(t := \<lparr>db_handle = h, slot_index = idx, cached_generation = gen\<rparr>)\<rparr>"

definition tls_pool_cache_get :: "tid \<Rightarrow> ptr \<Rightarrow> 'w shim \<Rightarrow> (u32 \<times> u32) option" where
  "tls_pool_cache_get t h S =
     (let cached = tls_pool_cache S t
      in if db_handle cached = h \<and> \<not> TlsPoolCache_is_empty cached
         then Some (slot_index cached, cached_generation cached) else None)"

definition tls_pool_cache_clear :: "tid \<Rightarrow> 'w shim \<Rightarrow> 'w shim" where
  "tls_pool_cache_clear t S = S\<lparr>tls_pool_cache := (tls_pool_cache S)(t := TlsPoolCache_EMPTY)\<rparr>"

text \<open>Access to one slot, and to the struct behind a pointer.\<close>

abbreviation slot_at :: "'w shim \<Rightarrow> usize \<Rightarrow> PoolSlot" where
  "slot_at S i \<equiv> slots (pm S) ! i"

definition set_slot :: "usize \<Rightarrow> PoolSlot \<Rightarrow> 'w shim \<Rightarrow> 'w shim" where
  "set_slot i s S = S\<lparr>pm := (pm S)\<lparr>slots := (slots (pm S))[i := s]\<rparr>\<rparr>"

definition modify_conn :: "ptr \<Rightarrow> (PgConnection \<Rightarrow> PgConnection) \<Rightarrow> 'w shim \<Rightarrow> 'w shim option" where
  "modify_conn p f S =
     (case heap S p of None \<Rightarrow> None | Some c \<Rightarrow> Some (S\<lparr>heap := (heap S)(p \<mapsto> f c)\<rparr>))"

definition conn_ref :: "ptr \<Rightarrow> 'w shim \<Rightarrow> 'w shim option" where
  "conn_ref conn S =
     (if is_null conn then Some S else modify_conn conn (\<lambda>c. c\<lparr>ref_count := ref_count c + 1\<rparr>) S)"

definition conn_unref :: "ptr \<Rightarrow> 'w shim \<Rightarrow> (bool \<times> 'w shim) option" where
  "conn_unref conn S =
     (if is_null conn then Some (False, S)
      else do {
        c \<leftarrow> heap S conn;
        let previous = ref_count c;
        S \<leftarrow> modify_conn conn (\<lambda>c. c\<lparr>ref_count := previous - 1\<rparr>) S;
        if 1 < previous then Some (False, S)
        else if previous < 1 then do {
          S \<leftarrow> modify_conn conn (\<lambda>c. c\<lparr>ref_count := ref_count c + 1\<rparr>) S;
          Some (False, S)
        }
        else Some (True, S\<lparr>heap := (heap S)(conn := None)\<rparr>)
      })"

definition replace_conn :: "ptr \<Rightarrow> ptr \<Rightarrow> 'w shim \<Rightarrow> (ptr \<times> 'w shim) option" where
  "replace_conn old new S =
     (if old = new then Some (new, S)
      else do {
        S \<leftarrow> conn_ref new S;
        (_, S) \<leftarrow> conn_unref old S;
        Some (new, S)
      })"

definition clear_streaming_active :: "ptr \<Rightarrow> 'w shim \<Rightarrow> (bool \<times> 'w shim) option" where
  "clear_streaming_active conn S =
     (if is_null conn then Some (False, S)
      else case find_connection_slot (pm S) conn of
             None \<Rightarrow> Some (False, S)
           | Some _ \<Rightarrow> do {
               S \<leftarrow> modify_conn conn (\<lambda>c. c\<lparr>streaming_active := 0\<rparr>) S;
               Some (True, S)
             })"

text \<open>\<open>reset_for_child\<close>: the child of a fork forgets the parent's connections without closing them.\<close>

definition reset_slot :: "PoolSlot \<Rightarrow> PoolSlot" where
  "reset_slot s =
     s\<lparr>slot_conn := 0, owner_thread := 0, slot_last_used := 0, slot_state := SLOT_FREE,
       generation := generation s + 1\<rparr>"

definition reset_for_child :: "'w libpq \<Rightarrow> tid \<Rightarrow> 'w shim \<Rightarrow> 'w shim" where
  "reset_for_child L t S =
     (let m = pm S; n = pool_size m;
          m1 = m\<lparr>slots := map reset_slot (take n (slots m)) @ drop n (slots m),
                 registry := [], db_to_pool := [], init_pid := getpid L (world S)\<rparr>
      in tls_pool_cache_clear t (S\<lparr>pm := m1\<rparr>))"

section \<open>The shared identifiers\<close>

definition rust_get_global_metadata_id :: "'w shim \<Rightarrow> int" where
  "rust_get_global_metadata_id S = global_metadata_id (pm S)"

definition rust_set_global_metadata_id :: "int \<Rightarrow> 'w shim \<Rightarrow> 'w shim" where
  "rust_set_global_metadata_id n S = S\<lparr>pm := (pm S)\<lparr>global_metadata_id := n\<rparr>\<rparr>"

definition rust_get_global_last_insert_rowid :: "'w shim \<Rightarrow> int" where
  "rust_get_global_last_insert_rowid S = global_last_insert_rowid (pm S)"

definition rust_set_global_last_insert_rowid :: "int \<Rightarrow> 'w shim \<Rightarrow> 'w shim" where
  "rust_set_global_last_insert_rowid n S = S\<lparr>pm := (pm S)\<lparr>global_last_insert_rowid := n\<rparr>\<rparr>"

section \<open>Exact reference counts\<close>

text \<open>
  \<open>mem_ok R S\<close>: the heap holds exactly the structs that somebody references, \<open>R\<close> says how
  often, and each struct's own count agrees. It excludes dangling pointers (a referenced
  struct is there), leaks (a struct that is there is referenced) and miscounts at once.
\<close>

definition mem_ok :: "(ptr \<Rightarrow> nat) \<Rightarrow> 'w shim \<Rightarrow> bool" where
  "mem_ok R S \<longleftrightarrow> heap S 0 = None \<and>
     (\<forall>p. case heap S p of None \<Rightarrow> R p = 0 | Some c \<Rightarrow> 0 < R p \<and> ref_count c = int (R p))"

lemma mem_okD:
  assumes "mem_ok R S" "0 < R p"
  obtains c where "heap S p = Some c" "ref_count c = int (R p)" "p \<noteq> 0"
proof -
  have "heap S p \<noteq> None"
    using assms by (force simp: mem_ok_def split: option.splits dest: spec [of _ p])
  then obtain c where c: "heap S p = Some c" by blast
  with assms(1) have "ref_count c = int (R p)" by (auto simp: mem_ok_def split: option.splits dest: spec [of _ p])
  moreover have "p \<noteq> 0" using assms(1) c by (cases "p = 0") (auto simp: mem_ok_def)
  ultimately show ?thesis using that c by blast
qed

lemma mem_ok_alloc: "mem_ok R S \<Longrightarrow> heap S p = None \<longleftrightarrow> R p = 0"
  by (auto simp: mem_ok_def split: option.splits dest: spec [of _ p])

lemma mem_ok_heap_eq: "heap S' = heap S \<Longrightarrow> mem_ok R S' = mem_ok R S"
  by (simp add: mem_ok_def)

lemma mem_ok_null: "mem_ok R S \<Longrightarrow> R 0 = 0 \<and> heap S 0 = None"
  by (auto simp: mem_ok_def split: option.splits dest: spec [of _ 0])

lemma mem_ok_upd:
  assumes "mem_ok R S" "p \<noteq> 0" "heap S' = (heap S)(p := x)"
    and "case x of None \<Rightarrow> n = 0 | Some c \<Rightarrow> 0 < n \<and> ref_count c = int n"
  shows "mem_ok (R(p := n)) S'"
  unfolding mem_ok_def
proof (intro conjI allI)
  show "heap S' 0 = None" using assms(1-3) by (simp add: mem_ok_def)
  fix q
  have "case heap S q of None \<Rightarrow> R q = 0 | Some c \<Rightarrow> 0 < R q \<and> ref_count c = int (R q)"
    using assms(1) by (simp add: mem_ok_def)
  then show "case heap S' q of None \<Rightarrow> (R(p := n)) q = 0
      | Some c \<Rightarrow> 0 < (R(p := n)) q \<and> ref_count c = int ((R(p := n)) q)"
    using assms(3,4) by (cases "q = p") (auto split: option.splits)
qed

text \<open>A struct changed in place, its count apart.\<close>

lemma mem_ok_modify:
  assumes "mem_ok R S" "heap S p = Some c" "ref_count c' = ref_count c" "heap S' = (heap S)(p \<mapsto> c')"
  shows "mem_ok R S'"
proof -
  have "p \<noteq> 0" using assms(1,2) by (cases "p = 0") (auto simp: mem_ok_def)
  moreover have "0 < R p \<and> ref_count c' = int (R p)"
    using assms(1-3) by (auto simp: mem_ok_def split: option.splits dest: spec [of _ p])
  ultimately show ?thesis using assms(1,4) by (auto simp: mem_ok_def)
qed

text \<open>
  The contract of a reference-counted object, for every kind of object that has one: with an
  exact account \<open>R\<close> of the references held, taking one adds to the account, dropping one
  takes from it, and the object is freed by the drop that empties the account and by no
  other.
\<close>

locale refcounted =
  fixes ok :: "(ptr \<Rightarrow> nat) \<Rightarrow> 's \<Rightarrow> bool"
    and alive :: "'s \<Rightarrow> ptr \<Rightarrow> bool"
    and take_ref :: "ptr \<Rightarrow> 's \<Rightarrow> 's option"
    and drop_ref :: "ptr \<Rightarrow> 's \<Rightarrow> (bool \<times> 's) option"
  assumes alive_iff: "ok R s \<Longrightarrow> alive s p \<longleftrightarrow> 0 < R p"
    and take_ok: "ok R s \<Longrightarrow> 0 < R p \<Longrightarrow> \<exists>s'. take_ref p s = Some s' \<and> ok (R(p := R p + 1)) s'"
    and drop_ok: "ok R s \<Longrightarrow> 0 < R p \<Longrightarrow> \<exists>s'. drop_ref p s = Some (R p = 1, s') \<and> ok (R(p := R p - 1)) s'"
begin

lemma take_drop:
  assumes "ok R s" "0 < R p"
  shows "\<exists>s1 s2. take_ref p s = Some s1 \<and> drop_ref p s1 = Some (False, s2) \<and> ok R s2"
proof -
  obtain s1 where s1: "take_ref p s = Some s1" "ok (R(p := R p + 1)) s1" using take_ok [OF assms] by blast
  obtain s2 where s2: "drop_ref p s1 = Some (False, s2)" "ok ((R(p := R p + 1))(p := R p)) s2"
    using drop_ok [OF s1(2), of p] assms(2) by auto
  then have "ok R s2" by simp
  with s1 s2 show ?thesis by blast
qed

text \<open>Dropping every reference that is held frees the object with the last drop and no earlier.\<close>

lemma drop_all:
  assumes "ok R s" "0 < n" "n \<le> R p"
  shows "\<exists>freed s'. (((\<lambda>x. Option.bind x (\<lambda>(_, s). drop_ref p s)) ^^ n) (Some (False, s))) = Some (freed, s')
    \<and> ok (R(p := R p - n)) s' \<and> freed = (n = R p)"
  using assms(2,3)
proof (induction n)
  case (Suc n)
  show ?case
  proof (cases "n = 0")
    case True
    with drop_ok [OF assms(1), of p] Suc.prems show ?thesis by (auto simp: fun_upd_def)
  next
    case False
    with Suc obtain f s1 where s1: "((\<lambda>x. Option.bind x (\<lambda>(_, s). drop_ref p s)) ^^ n) (Some (False, s)) = Some (f, s1)"
      "ok (R(p := R p - n)) s1" by (auto simp: fun_upd_def)
    have "0 < (R(p := R p - n)) p" using Suc.prems by simp
    from drop_ok [OF s1(2) this] obtain s2 where s2: "drop_ref p s1 = Some (R p - n = 1, s2)"
      "ok (R(p := R p - Suc n)) s2" by (auto simp: fun_upd_def cong: if_cong)
    have "(R p - n = 1) = (Suc n = R p)" using Suc.prems by auto
    with s1 s2 show ?thesis by (intro exI [of _ "Suc n = R p"] exI [of _ s2]) (simp add: fun_upd_def)
  qed
qed simp

end

lemma conn_ref_eq:
  "heap S p = Some c \<Longrightarrow> p \<noteq> 0 \<Longrightarrow>
     conn_ref p S = Some (S\<lparr>heap := (heap S)(p \<mapsto> c\<lparr>ref_count := ref_count c + 1\<rparr>)\<rparr>)"
  by (simp add: conn_ref_def modify_conn_def)

lemma conn_unref_eq:
  "heap S p = Some c \<Longrightarrow> p \<noteq> 0 \<Longrightarrow> 0 < ref_count c \<Longrightarrow>
     conn_unref p S = Some (ref_count c = 1,
       S\<lparr>heap := (heap S)(p := if ref_count c = 1 then None else Some (c\<lparr>ref_count := ref_count c - 1\<rparr>))\<rparr>)"
  by (auto simp: conn_unref_def modify_conn_def)

lemma conn_ref_mem:
  assumes "mem_ok R S" "0 < R p"
  shows "\<exists>S'. conn_ref p S = Some S' \<and> mem_ok (R(p := R p + 1)) S'"
proof -
  obtain c where c: "heap S p = Some c" "ref_count c = int (R p)" "p \<noteq> 0" using assms by (rule mem_okD)
  have "mem_ok (R(p := R p + 1)) (S\<lparr>heap := (heap S)(p \<mapsto> c\<lparr>ref_count := ref_count c + 1\<rparr>)\<rparr>)"
    using c by (intro mem_ok_upd [OF assms(1) c(3)]) auto
  with conn_ref_eq [OF c(1,3)] show ?thesis by blast
qed

lemma conn_unref_mem:
  assumes "mem_ok R S" "0 < R p"
  shows "\<exists>S'. conn_unref p S = Some (R p = 1, S') \<and> mem_ok (R(p := R p - 1)) S'"
proof -
  obtain c where c: "heap S p = Some c" "ref_count c = int (R p)" "p \<noteq> 0" using assms by (rule mem_okD)
  let ?S = "S\<lparr>heap := (heap S)(p := if ref_count c = 1 then None else Some (c\<lparr>ref_count := ref_count c - 1\<rparr>))\<rparr>"
  have "conn_unref p S = Some (R p = 1, ?S)"
    using conn_unref_eq [OF c(1,3)] c(2) assms(2) by simp
  moreover have "mem_ok (R(p := R p - 1)) ?S"
    using c assms(2) by (intro mem_ok_upd [OF assms(1) c(3)]) (auto split: option.splits if_splits)
  ultimately show ?thesis by blast
qed

interpretation conns: refcounted mem_ok "\<lambda>S p. heap S p \<noteq> None" conn_ref conn_unref
proof unfold_locales
  fix R p and S :: "'w shim"
  assume ok: "mem_ok R S"
  show "(heap S p \<noteq> None) = (0 < R p)" using mem_ok_alloc [OF ok, of p] by auto
  assume "0 < R p"
  with ok show "\<exists>S'. conn_ref p S = Some S' \<and> mem_ok (R(p := R p + 1)) S'"
    and "\<exists>S'. conn_unref p S = Some (R p = 1, S') \<and> mem_ok (R(p := R p - 1)) S'"
    by (rule conn_ref_mem, rule conn_unref_mem)
qed

end
