(* ===== verification/Txn_Run.thy ===== *)
theory Txn_Run
  imports Shim_State
begin

text \<open>
  The effectful half of \<^verbatim>\<open>pg_client/txn.rs\<close>: sending the planned statements, and the two
  process-wide maps that tie a connection to its transaction and a SQLite handle to the
  connection its transaction is on.
\<close>

definition SQLITE_ERROR :: int where "SQLITE_ERROR = 1"

definition pinned_conn :: "ptr \<Rightarrow> 'w shim \<Rightarrow> (ptr \<times> 'w shim) option" where
  "pinned_conn db S =
     (if is_null db then Some (0, S)
      else case hm_get (txn_pins S) db of
        None \<Rightarrow> Some (0, S)
      | Some conn \<Rightarrow> do {
          let opened = (case hm_get (txn_by_conn S) conn of None \<Rightarrow> False | Some s \<Rightarrow> is_open s \<and> txn_db s = db);
          live \<leftarrow> (if opened \<and> \<not> is_null conn
                  then map_option (\<lambda>c. is_pg_active c \<noteq> 0) (heap S conn) else Some False);
          if \<not> live then Some (0, S\<lparr>txn_pins := hm_remove db (txn_pins S)\<rparr>) else Some (conn, S)
        })"

definition in_transaction :: "ptr \<Rightarrow> 'w shim \<Rightarrow> bool" where
  "in_transaction conn S =
     (if is_null conn then False
      else case hm_get (txn_by_conn S) conn of None \<Rightarrow> False | Some s \<Rightarrow> is_open s)"

definition drop_txn :: "ptr \<Rightarrow> 'w shim \<Rightarrow> 'w shim" where
  "drop_txn conn S =
     S\<lparr>txn_by_conn := hm_remove conn (txn_by_conn S),
       txn_pins := hm_retain (\<lambda>_ c. c \<noteq> conn) (txn_pins S)\<rparr>"

definition forget_connection :: "ptr \<Rightarrow> 'w shim \<Rightarrow> 'w shim" where
  "forget_connection conn S = (if is_null conn then S else drop_txn conn S)"

definition forget_db :: "ptr \<Rightarrow> 'w shim \<Rightarrow> 'w shim" where
  "forget_db db S = S\<lparr>txn_pins := hm_remove db (txn_pins S)\<rparr>"

text \<open>The statements of one command, up to the first that is refused; the text of its refusal.\<close>

definition refusal :: "'w libpq \<Rightarrow> ptr \<Rightarrow> 'w \<Rightarrow> string" where
  "refusal L res w =
     (if is_null res then ''PostgreSQL connection lost''
      else case rust_pq_result_error_message L res w of
             None \<Rightarrow> ''PostgreSQL error''
           | Some m \<Rightarrow> trim_end m)"

fun run_stmts :: "'w libpq \<Rightarrow> ptr \<Rightarrow> string list \<Rightarrow> 'w \<Rightarrow> string option \<times> 'w" where
  "run_stmts L pgc [] w = (None, w)"
| "run_stmts L pgc (stmt # stmts) w =
     (case cstring_new stmt of
        None \<Rightarrow> run_stmts L pgc stmts w
      | Some cs \<Rightarrow>
          (let (res, w1) = rust_pq_exec L pgc (Some cs) w;
               ok = (\<not> is_null res \<and> rust_pq_result_status L res w1 = PGRES_COMMAND_OK)
           in if ok then run_stmts L pgc stmts (rust_pq_clear L res w1)
              else (Some (refusal L res w1), rust_pq_clear L res w1)))"

definition txn_run :: "'w libpq \<Rightarrow> ptr \<Rightarrow> ptr \<Rightarrow> TxnCmd \<Rightarrow> 'w shim \<Rightarrow> ((string + unit) \<times> 'w shim) option" where
  "txn_run L conn db cmd S =
     (if is_null conn then Some (Inl ''no PostgreSQL connection for transaction control'', S)
      else do {
        c \<leftarrow> heap S conn;
        if is_null (pg_conn c) then Some (Inl ''PostgreSQL connection is closed'', S)
        else do {
          let current = unwrap_or (hm_get (txn_by_conn S) conn) TxnState_default;
          let (statements, planned) = plan current cmd;
          let nxt = (if \<not> is_open planned then planned\<lparr>txn_db := 0\<rparr>
                     else if txn_db planned = 0 then planned\<lparr>txn_db := db\<rparr> else planned);
          let (err, w1) = run_stmts L (pg_conn c) statements (world S);
          let S = S\<lparr>world := w1\<rparr>;
          case err of
            Some msg \<Rightarrow> do {
              S \<leftarrow> modify_conn conn (set_last_error SQLITE_ERROR msg) S;
              let txn_open = rust_pq_transaction_status L (pg_conn c) (world S);
              let S = (if txn_open \<noteq> PQTRANS_INTRANS \<and> txn_open \<noteq> PQTRANS_INERROR then drop_txn conn S else S);
              Some (Inl msg, S)
            }
          | None \<Rightarrow>
              Some (Inr (),
                if is_open nxt
                then S\<lparr>txn_pins := hm_insert db conn (txn_pins S), txn_by_conn := hm_insert conn nxt (txn_by_conn S)\<rparr>
                else drop_txn conn S)
        }
      })"

section \<open>The two maps\<close>

text \<open>
  The invariant of the registry: the maps are maps, every recorded transaction is open, and
  every pin leads to a recorded one.
\<close>

definition txn_maps_ok :: "'w shim \<Rightarrow> bool" where
  "txn_maps_ok S \<longleftrightarrow> hm_ok (txn_by_conn S) \<and> hm_ok (txn_pins S) \<and>
     (\<forall>conn st. hm_get (txn_by_conn S) conn = Some st \<longrightarrow> is_open st) \<and>
     (\<forall>db conn. hm_get (txn_pins S) db = Some conn \<longrightarrow> hm_get (txn_by_conn S) conn \<noteq> None)"

lemma txn_maps_ok_cong:
  "txn_by_conn S' = txn_by_conn S \<Longrightarrow> txn_pins S' = txn_pins S \<Longrightarrow> txn_maps_ok S' = txn_maps_ok S"
  by (simp add: txn_maps_ok_def)

lemma drop_txn_ok: "txn_maps_ok S \<Longrightarrow> txn_maps_ok (drop_txn conn S)"
  by (auto simp: txn_maps_ok_def drop_txn_def hm_get_retain split: option.splits if_splits)

lemma forget_connection_ok: "txn_maps_ok S \<Longrightarrow> txn_maps_ok (forget_connection conn S)"
  by (simp add: forget_connection_def drop_txn_ok)

lemma forget_db_ok: "txn_maps_ok S \<Longrightarrow> txn_maps_ok (forget_db db S)"
  by (auto simp: txn_maps_ok_def forget_db_def split: if_splits)

lemma not_in_transaction_after_drop:
  "txn_maps_ok S \<Longrightarrow> \<not> in_transaction conn (drop_txn conn S) \<and> hm_get (txn_pins (drop_txn conn S)) db \<noteq> Some conn"
  by (auto simp: drop_txn_def in_transaction_def hm_get_retain txn_maps_ok_def split: option.splits if_splits)

lemma drop_txn_frame [frame_simps]:
  "pm (drop_txn p S) = pm S" "config (drop_txn p S) = config S" "env (drop_txn p S) = env S"
  "tls_pool_cache (drop_txn p S) = tls_pool_cache S" "retry_count (drop_txn p S) = retry_count S"
  "stmt_caches (drop_txn p S) = stmt_caches S" "heap (drop_txn p S) = heap S" "world (drop_txn p S) = world S"
  by (simp_all add: drop_txn_def)

lemma forget_connection_frame [frame_simps]:
  "pm (forget_connection p S) = pm S" "config (forget_connection p S) = config S" "env (forget_connection p S) = env S"
  "tls_pool_cache (forget_connection p S) = tls_pool_cache S" "retry_count (forget_connection p S) = retry_count S"
  "stmt_caches (forget_connection p S) = stmt_caches S" "heap (forget_connection p S) = heap S"
  "world (forget_connection p S) = world S"
  by (simp_all add: forget_connection_def frame_simps)

lemma forget_db_frame [frame_simps]:
  "pm (forget_db d S) = pm S" "config (forget_db d S) = config S" "env (forget_db d S) = env S"
  "tls_pool_cache (forget_db d S) = tls_pool_cache S" "retry_count (forget_db d S) = retry_count S"
  "stmt_caches (forget_db d S) = stmt_caches S" "heap (forget_db d S) = heap S" "world (forget_db d S) = world S"
  by (simp_all add: forget_db_def)

lemma txn_run_maps_ok:
  assumes "txn_maps_ok S" "txn_run L conn db cmd S = Some (r, S')"
  shows "txn_maps_ok S'"
proof -
  have put: "txn_maps_ok (S1\<lparr>txn_pins := hm_insert db conn (txn_pins S1), txn_by_conn := hm_insert conn st (txn_by_conn S1)\<rparr>)"
    if "txn_maps_ok S1" "is_open st" for S1 :: "'w shim" and st
    using that by (auto simp: txn_maps_ok_def split: if_splits)
  have err: "txn_maps_ok S2" if "txn_maps_ok S1" "modify_conn p f S1 = Some S2" for S1 S2 :: "'w shim" and p f
    using that by (auto simp: modify_conn_def txn_maps_ok_def split: option.splits)
  have w: "txn_maps_ok (S\<lparr>world := w1\<rparr>)" for w1 using assms(1) by (simp add: txn_maps_ok_def)
  show ?thesis
    using assms(1) assms(2) [unfolded txn_run_def Let_def]
    by (auto simp: bind_eq_Some_conv split: if_splits prod.splits option.splits
        intro!: drop_txn_ok w put [OF w, simplified] intro: err [OF w])
qed

section \<open>Forwarding, end to end\<close>

text \<open>The server behind one libpq connection, as the planner's lemmas see it.\<close>

definition server_exec :: "'w libpq \<Rightarrow> ptr \<Rightarrow> string \<Rightarrow> 'w \<Rightarrow> 'w option" where
  "server_exec L pgc q w =
     (let (res, w1) = PQexec L pgc q w
      in if res \<noteq> 0 \<and> PQresultStatus L res w1 = PGRES_COMMAND_OK then Some (PQclear L res w1) else None)"

lemma server_exec_Some:
  "server_exec L pgc q w = Some w2 \<longleftrightarrow>
     (\<exists>res w1. PQexec L pgc q w = (res, w1) \<and> res \<noteq> 0 \<and> PQresultStatus L res w1 = PGRES_COMMAND_OK \<and> w2 = PQclear L res w1)"
  by (auto simp: server_exec_def split: prod.splits)

lemma run_stmts_server:
  assumes "pgc \<noteq> 0" "\<forall>q\<in>set qs. CHR 0x00 \<notin> set q" "exec_all (server_exec L pgc) qs w = Some w'"
  shows "run_stmts L pgc qs w = (None, w')"
  using assms(2,3)
proof (induction qs arbitrary: w)
  case (Cons q qs)
  then obtain res w1 where x: "PQexec L pgc q w = (res, w1)" "res \<noteq> 0" "PQresultStatus L res w1 = PGRES_COMMAND_OK"
    "exec_all (server_exec L pgc) qs (PQclear L res w1) = Some w'"
    by (auto simp: server_exec_Some bind_eq_Some_conv)
  with Cons.IH Cons.prems assms(1) show ?case
    by (simp add: cstring_new_def rust_pq_exec_def rust_pq_result_status_def rust_pq_clear_def)
qed simp

lemma plan_nul_free:
  assumes "cmd_name_ok (\<lambda>n. CHR 0x00 \<notin> set n) cmd" "\<And>k. CHR 0x00 \<notin> set (nested_name k)"
    and "\<forall>nm. NestedBegin nm \<in> set (frames st) \<longrightarrow> CHR 0x00 \<notin> set nm"
  shows "\<forall>q\<in>set (fst (plan st cmd)). CHR 0x00 \<notin> set q"
proof (cases cmd)
  case Commit
  have "CHR 0x00 \<notin> set nm" if "frames st \<noteq> []" "last (frames st) = NestedBegin nm" for nm
    using assms(3) that by (metis last_in_set)
  with Commit show ?thesis by (auto split: Frame.splits)
next
  case Rollback
  have "CHR 0x00 \<notin> set nm" if "frames st \<noteq> []" "last (frames st) = NestedBegin nm" for nm
    using assms(3) that by (metis last_in_set)
  with Rollback show ?thesis by (auto split: Frame.splits)
qed (use assms(1,2) in \<open>auto simp: Let_def split: option.splits\<close>)

lemma frames_ok_nested_nul_free:
  assumes "frames_ok P fs" "NestedBegin nm \<in> set fs"
  shows "\<exists>k. nm = nested_name k"
proof -
  from assms obtain e gs where fs: "fs = Outer e # gs" "\<forall>i<length gs. frame_ok P (Suc i) (gs ! i)"
    using frames_ok_cases by (metis list.distinct(1) list.set_cases)
  with assms(2) obtain i where "i < length gs" "gs ! i = NestedBegin nm" by (auto simp: in_set_conv_nth)
  with fs(2) show ?thesis by force
qed


text \<open>A server with the documented behaviour behind libpq: the result pointer tells success.\<close>

definition savepoint_pq :: "string list option libpq" where
  "savepoint_pq =
     (quiet_pq (\<lambda>_. 1) (\<lambda>w. w))
       \<lparr>PQexec := \<lambda>_ q w. (case model_exec q w of None \<Rightarrow> (2, w) | Some w' \<Rightarrow> (1, w')),
        PQresultStatus := \<lambda>res _. if res = 1 then 1 else 7\<rparr>"

lemma savepoint_pq_exec: "server_exec savepoint_pq pgc = model_exec"
  by (auto simp: fun_eq_iff server_exec_def savepoint_pq_def quiet_pq_def PGRES_COMMAND_OK_def split: option.splits)

definition demo_shim :: "'w \<Rightarrow> 'w shim" where
  "demo_shim w =
     \<lparr>pm = PoolManager_new 2 2 1, config = \<lparr>cfg_host = ''db'', cfg_port = 5432, cfg_database = ''plex'', cfg_user = ''plex'',
        cfg_password = ''pw'', cfg_schema = ''plex''\<rparr>,
      env = Map.empty, tls_pool_cache = (\<lambda>_. TlsPoolCache_EMPTY), retry_count = (\<lambda>_. 0), stmt_caches = [],
      txn_by_conn = [], txn_pins = [], heap = Map.empty, world = w\<rparr>"


text \<open>
  C30. When a statement of the command is refused and the server has no transaction open
  afterwards, the shim has none recorded for the connection either, no handle is pinned to
  it, and the refusal is what \<open>sqlite3_errmsg\<close> will read.
\<close>

theorem txn_run_refused:
  assumes "txn_maps_ok S" and "heap S conn = Some c" and "conn \<noteq> 0" and "pg_conn c \<noteq> 0"
    and "txn_run L conn db cmd S = Some (Inl msg, S')"
    and "rust_pq_transaction_status L (pg_conn c) (world S') \<notin> {PQTRANS_INTRANS, PQTRANS_INERROR}"
  shows "\<not> in_transaction conn S' \<and> (\<forall>h. hm_get (txn_pins S') h \<noteq> Some conn)
    \<and> heap S' conn = Some (set_last_error SQLITE_ERROR msg c)"
proof -
  obtain sql planned where p: "plan (unwrap_or (hm_get (txn_by_conn S) conn) TxnState_default) cmd = (sql, planned)"
    by (cases "plan (unwrap_or (hm_get (txn_by_conn S) conn) TxnState_default) cmd")
  obtain err w1 where r: "run_stmts L (pg_conn c) sql (world S) = (err, w1)" by (cases "run_stmts L (pg_conn c) sql (world S)")
  let ?S1 = "S\<lparr>world := w1, heap := (heap S)(conn \<mapsto> set_last_error SQLITE_ERROR msg c)\<rparr>"
  have "err = Some msg" and S': "S' = (if rust_pq_transaction_status L (pg_conn c) w1 \<notin> {PQTRANS_INTRANS, PQTRANS_INERROR}
      then drop_txn conn ?S1 else ?S1)"
    using assms(2-5) by (auto simp: txn_run_def Let_def p r modify_conn_def split: option.splits)
  moreover have "world S' = w1" unfolding S' by (simp add: drop_txn_def)
  ultimately have "S' = drop_txn conn ?S1" using assms(6) by simp
  moreover have "txn_maps_ok ?S1" using assms(1) by (simp add: txn_maps_ok_def)
  ultimately show ?thesis using not_in_transaction_after_drop [of ?S1 conn] by (auto simp: drop_txn_frame)
qed

theorem txn_run_refused_witness:
  "\<exists>msg S'. txn_run (savepoint_pq\<lparr>PQexec := \<lambda>_ _ w. (2, w)\<rparr>) 5 9 Begin
       ((demo_shim None)\<lparr>heap := [5 \<mapsto> PgConnection_zeroed\<lparr>pg_conn := 3\<rparr>]\<rparr>) = Some (Inl msg, S')
     \<and> \<not> in_transaction 5 S'"
proof -
  let ?L = "savepoint_pq\<lparr>PQexec := \<lambda>_ _ w. (2, w)\<rparr>"
  let ?S = "(demo_shim None)\<lparr>heap := [5 \<mapsto> PgConnection_zeroed\<lparr>pg_conn := 3\<rparr>]\<rparr>"
  obtain S' where run: "txn_run ?L 5 9 Begin ?S = Some (Inl ''PostgreSQL error'', S')"
    by (simp add: Let_def txn_run_def demo_shim_def savepoint_pq_def quiet_pq_def unwrap_or_def TxnState_default_def
        cstring_new_def rust_pq_exec_def rust_pq_result_status_def PGRES_COMMAND_OK_def refusal_def
        rust_pq_result_error_message_def rust_pq_clear_def modify_conn_def is_open_def)
  have "\<not> in_transaction 5 S' \<and> (\<forall>h. hm_get (txn_pins S') h \<noteq> Some 5)
    \<and> heap S' 5 = Some (set_last_error SQLITE_ERROR ''PostgreSQL error'' (PgConnection_zeroed\<lparr>pg_conn := 3\<rparr>))"
    by (rule txn_run_refused [OF _ _ _ _ run])
      (simp_all add: txn_maps_ok_def demo_shim_def rust_pq_transaction_status_def savepoint_pq_def quiet_pq_def
        PQTRANS_INTRANS_def PQTRANS_INERROR_def)
  with run show ?thesis by blast
qed

end
