(* ===== verification/Conn_Lifecycle.thy ===== *)
theory Conn_Lifecycle
  imports Txn_Run
begin

text \<open>
  The life of one connection: the session settings (\<^verbatim>\<open>pg_client/session.rs\<close>), the
  process-wide table of statement caches (\<^verbatim>\<open>pg_client_stmt_cache.rs\<close>), and creation, checking,
  reset, reconnection and destruction (\<^verbatim>\<open>pg_client/connection_lifecycle.rs\<close>,
  \<^verbatim>\<open>pg_client/connection_helpers.rs\<close>).

  The lemmas give each operation a contract over the exact reference account of
  \<open>Shim_State\<close>: it never faults on a referenced connection, it leaves the pool and every
  other connection alone, and creation and destruction move the account by exactly one.
\<close>

section \<open>Session settings\<close>

definition pg_set_socket_timeout :: "'w libpq \<Rightarrow> ptr \<Rightarrow> 'w \<Rightarrow> 'w" where
  "pg_set_socket_timeout L pgc w =
     (if is_null pgc then w
      else let sock = rust_pq_socket L pgc w in
        if sock < 0 then w
        else let (_, w) = setsockopt L sock w; (_, w) = setsockopt L sock w in w)"

definition exec_with_status :: "int \<Rightarrow> 'w libpq \<Rightarrow> ptr \<Rightarrow> string \<Rightarrow> 'w \<Rightarrow> bool \<times> 'w" where
  "exec_with_status expected L pgc sql w =
     (if is_null pgc then (False, w)
      else case cstring_new sql of
        None \<Rightarrow> (False, w)
      | Some cs \<Rightarrow>
          (let (res, w1) = rust_pq_exec L pgc (Some cs) w;
               ok = (\<not> is_null res \<and> rust_pq_result_status L res w1 = expected)
           in (ok, if is_null res then w1 else rust_pq_clear L res w1)))"

definition exec_command :: "'w libpq \<Rightarrow> ptr \<Rightarrow> string \<Rightarrow> 'w \<Rightarrow> bool \<times> 'w" where
  "exec_command L = exec_with_status PGRES_COMMAND_OK L"

definition exec_tuples :: "'w libpq \<Rightarrow> ptr \<Rightarrow> string \<Rightarrow> 'w \<Rightarrow> bool \<times> 'w" where
  "exec_tuples L = exec_with_status PGRES_TUPLES_OK L"

definition search_path_cmd :: "string \<Rightarrow> string" where
  "search_path_cmd sch = ''SET search_path TO '' @ sch @ '', public''"

definition statement_timeout_cmd :: string where
  "statement_timeout_cmd = ''SET statement_timeout = '' @ [CHR 0x27] @ ''60s'' @ [CHR 0x27]"

definition apply_session_settings :: "'w libpq \<Rightarrow> ptr \<Rightarrow> string \<Rightarrow> bool \<Rightarrow> 'w \<Rightarrow> 'w" where
  "apply_session_settings L pgc sch deallocate_all w =
     (if is_null pgc then w
      else
        let (res, w1) = (case cstring_new (search_path_cmd sch) of
                           Some s \<Rightarrow> rust_pq_exec L pgc (Some s) w | None \<Rightarrow> (0, w));
            w2 = (if is_null res then w1 else rust_pq_clear L res w1);
            w3 = (if deallocate_all then snd (exec_command L pgc ''DEALLOCATE ALL'' w2) else w2)
        in snd (exec_command L pgc statement_timeout_cmd w3))"

definition exec_simple :: "'w libpq \<Rightarrow> ptr \<Rightarrow> string \<Rightarrow> 'w shim \<Rightarrow> (bool \<times> 'w shim) option" where
  "exec_simple L conn sql S =
     (if is_null conn then Some (False, S)
      else do {
        c \<leftarrow> heap S conn;
        let trimmed = trim_start sql;
        let lower = to_ascii_lowercase trimmed;
        let txn = (if is_null (pg_conn c) then 0 else rust_pq_transaction_status L (pg_conn c) (world S));
        if (starts_with ''commit'' lower \<or> starts_with ''rollback'' lower \<or> starts_with ''end'' lower)
           \<and> txn \<noteq> PQTRANS_INTRANS \<and> txn \<noteq> PQTRANS_INERROR
        then Some (True, S)
        else case cstring_new trimmed of
          None \<Rightarrow> Some (False, S)
        | Some cmd \<Rightarrow>
            if is_null (pg_conn c) then Some (False, S)
            else
              (let (res, w1) = rust_pq_exec L (pg_conn c) (Some cmd) (world S);
                   ok = (\<not> is_null res \<and> rust_pq_result_status L res w1 = PGRES_COMMAND_OK);
                   w2 = (if is_null res then w1 else rust_pq_clear L res w1)
               in Some (ok, S\<lparr>world := w2\<rparr>))
      })"

section \<open>The statement caches of the connections\<close>

definition deallocate_stmt :: "'w libpq \<Rightarrow> ptr \<Rightarrow> string \<Rightarrow> 'w shim \<Rightarrow> 'w shim option" where
  "deallocate_stmt L conn name S =
     (if is_null conn then Some S
      else do {
        c \<leftarrow> heap S conn;
        if is_null (pg_conn c) \<or> name = [] then Some S
        else case cstring_new (''DEALLOCATE '' @ name) of
          None \<Rightarrow> Some S
        | Some cs \<Rightarrow>
            (let (res, w1) = rust_pq_exec L (pg_conn c) (Some cs) (world S)
             in Some (S\<lparr>world := if is_null res then w1 else rust_pq_clear L res w1\<rparr>))
      })"

fun deallocate_all_stmts :: "'w libpq \<Rightarrow> ptr \<Rightarrow> string list \<Rightarrow> 'w shim \<Rightarrow> 'w shim option" where
  "deallocate_all_stmts L conn [] S = Some S"
| "deallocate_all_stmts L conn (name # names) S =
     do { S \<leftarrow> deallocate_stmt L conn name S; deallocate_all_stmts L conn names S }"

definition rust_stmt_cache_lookup :: "'w libpq \<Rightarrow> ptr \<Rightarrow> u64 \<Rightarrow> 'w shim \<Rightarrow> string option \<times> 'w shim" where
  "rust_stmt_cache_lookup L conn h S =
     (if is_null conn \<or> h = 0 then (None, S)
      else case hm_get (stmt_caches S) conn of
        None \<Rightarrow> (None, S)
      | Some cache \<Rightarrow>
          (let (hit, cache') = lookup_mut (touch_entry (unix_time L (world S))) cache h
           in (map_option stmt_name hit, S\<lparr>stmt_caches := hm_insert conn cache' (stmt_caches S)\<rparr>)))"

definition rust_stmt_cache_add ::
  "'w libpq \<Rightarrow> ptr \<Rightarrow> u64 \<Rightarrow> string option \<Rightarrow> int \<Rightarrow> 'w shim \<Rightarrow> (int \<times> 'w shim) option" where
  "rust_stmt_cache_add L conn h name params S =
     (if is_null conn \<or> h = 0 then Some (-1, S)
      else case stmt_name_from_c name of
        None \<Rightarrow> Some (-1, S)
      | Some nm \<Rightarrow>
          (let cache = unwrap_or (hm_get (stmt_caches S) conn) StmtCache_new;
               ((idx, evicted), cache') = StmtCache_add h nm params (unix_time L (world S)) cache;
               S = S\<lparr>stmt_caches := hm_insert conn cache' (stmt_caches S)\<rparr>
           in case evicted of
                None \<Rightarrow> Some (idx, S)
              | Some evicted_name \<Rightarrow> do { S \<leftarrow> deallocate_stmt L conn evicted_name S; Some (idx, S) }))"

definition rust_stmt_cache_clear_local :: "ptr \<Rightarrow> 'w shim \<Rightarrow> 'w shim" where
  "rust_stmt_cache_clear_local conn S =
     (if is_null conn then S
      else case hm_get (stmt_caches S) conn of
        None \<Rightarrow> S
      | Some cache \<Rightarrow> S\<lparr>stmt_caches := hm_insert conn (snd (StmtCache_clear cache)) (stmt_caches S)\<rparr>)"

definition rust_stmt_cache_clear :: "'w libpq \<Rightarrow> ptr \<Rightarrow> 'w shim \<Rightarrow> 'w shim option" where
  "rust_stmt_cache_clear L conn S =
     (if is_null conn then Some S
      else case hm_get (stmt_caches S) conn of
        None \<Rightarrow> Some S
      | Some cache \<Rightarrow>
          (let (evicted, cache') = StmtCache_clear cache
           in deallocate_all_stmts L conn evicted (S\<lparr>stmt_caches := hm_insert conn cache' (stmt_caches S)\<rparr>)))"

definition rust_stmt_cache_drop :: "ptr \<Rightarrow> 'w shim \<Rightarrow> 'w shim" where
  "rust_stmt_cache_drop conn S =
     (if is_null conn then S else S\<lparr>stmt_caches := hm_remove conn (stmt_caches S)\<rparr>)"

definition clear_all_stmt_caches :: "'w shim \<Rightarrow> 'w shim" where
  "clear_all_stmt_caches S = S\<lparr>stmt_caches := []\<rparr>"

section \<open>Connection helpers\<close>

definition conn_is_streaming_active_ptr :: "ptr \<Rightarrow> 'w shim \<Rightarrow> bool option" where
  "conn_is_streaming_active_ptr conn S =
     (if is_null conn then Some False else map_option (\<lambda>c. streaming_active c \<noteq> 0) (heap S conn))"

definition conn_is_pg_active_ptr :: "ptr \<Rightarrow> 'w shim \<Rightarrow> bool option" where
  "conn_is_pg_active_ptr conn S =
     (if is_null conn then Some False else map_option (\<lambda>c. is_pg_active c \<noteq> 0) (heap S conn))"

fun count_streaming :: "tid \<Rightarrow> ptr \<Rightarrow> usize list \<Rightarrow> 'w shim \<Rightarrow> nat option" where
  "count_streaming t exclude [] S = Some 0"
| "count_streaming t exclude (i # is) S =
     (let s = slot_at S i in
      if slot_state s \<noteq> SLOT_READY then count_streaming t exclude is S
      else if \<not> threads_equal (owner_thread s) t then count_streaming t exclude is S
      else if is_null (slot_conn s) \<or> slot_conn s = exclude then count_streaming t exclude is S
      else do {
        streaming \<leftarrow> conn_is_streaming_active_ptr (slot_conn s) S;
        n \<leftarrow> count_streaming t exclude is S;
        Some (if streaming then n + 1 else n)
      })"

definition thread_streaming_connection_count :: "tid \<Rightarrow> ptr \<Rightarrow> 'w shim \<Rightarrow> nat option" where
  "thread_streaming_connection_count t exclude S =
     (if t = 0 then Some 0 else count_streaming t exclude [0..<pool_size (pm S)] S)"

definition current_thread_has_other_streaming_connection :: "tid \<Rightarrow> ptr \<Rightarrow> 'w shim \<Rightarrow> bool option" where
  "current_thread_has_other_streaming_connection t exclude S =
     map_option (\<lambda>n. n \<noteq> 0) (thread_streaming_connection_count t exclude S)"

section \<open>Creation and destruction\<close>

definition build_conninfo :: "PgEnvConfig \<Rightarrow> bool \<Rightarrow> string" where
  "build_conninfo cfg with_keepalives =
     (let base = ''host='' @ cfg_host cfg @ '' port='' @ show_int (cfg_port cfg) @ '' dbname='' @ cfg_database cfg
                 @ '' user='' @ cfg_user cfg @ '' password='' @ cfg_password cfg @ '' connect_timeout=5''
      in if with_keepalives
         then base @ '' keepalives=1 keepalives_idle=30 keepalives_interval=10 keepalives_count=3''
         else base)"

definition create_connection_struct :: "'w libpq \<Rightarrow> string \<Rightarrow> ptr \<Rightarrow> 'w shim \<Rightarrow> (ptr \<times> 'w shim) option" where
  "create_connection_struct L path shadow S =
     (let (conn, w1) = calloc L (dom (heap S)) (world S); S = S\<lparr>world := w1\<rparr> in
      if is_null conn then Some (0, S)
      else do {
        S \<leftarrow> conn_ref conn (S\<lparr>heap := (heap S)(conn \<mapsto> PgConnection_zeroed)\<rparr>);
        let (rc, w2) = pthread_mutexattr_init L (world S);
        if rc \<noteq> 0 then Some (0, S\<lparr>world := w2, heap := (heap S)(conn := None)\<rparr>)
        else do {
          let (rc, w3) = pthread_mutex_init L w2;
          if rc \<noteq> 0 then Some (0, S\<lparr>world := w3, heap := (heap S)(conn := None)\<rparr>)
          else do {
            S \<leftarrow> modify_conn conn (\<lambda>c. c\<lparr>shadow_db := shadow, conn_path := cbuf DB_PATH_LEN path\<rparr>) (S\<lparr>world := w3\<rparr>);
            Some (conn, S)
          }
        }
      })"

definition destroy_connection_struct :: "ptr \<Rightarrow> 'w shim \<Rightarrow> 'w shim option" where
  "destroy_connection_struct conn S = map_option snd (conn_unref conn S)"

text \<open>\<open>PQfinish\<close> on a struct's libpq connection, when it has one.\<close>

definition finish_pg :: "'w libpq \<Rightarrow> ptr \<Rightarrow> 'w shim \<Rightarrow> 'w shim option" where
  "finish_pg L conn S =
     do {
       c \<leftarrow> heap S conn;
       if is_null (pg_conn c) then Some S
       else modify_conn conn (\<lambda>c. c\<lparr>pg_conn := 0\<rparr>) (S\<lparr>world := rust_pq_finish L (pg_conn c) (world S)\<rparr>)
     }"

definition create_pool_connection :: "'w libpq \<Rightarrow> string \<Rightarrow> 'w shim \<Rightarrow> (ptr \<times> 'w shim) option" where
  "create_pool_connection L path S =
     (let cfg = config S in
      if cfg_host cfg = [] \<or> cfg_port cfg = 0 then Some (0, S)
      else do {
        (conn, S) \<leftarrow> create_connection_struct L path 0 S;
        if is_null conn then Some (0, S)
        else case cstring_new (build_conninfo cfg True) of
          None \<Rightarrow> do { S \<leftarrow> destroy_connection_struct conn S; Some (0, S) }
        | Some ci \<Rightarrow> do {
            let (pgc, w1) = rust_pq_connectdb L (Some ci) (world S);
            if rust_pq_status L pgc w1 \<noteq> CONNECTION_OK then do {
              let w2 = (if is_null pgc then w1 else rust_pq_finish L pgc w1);
              S \<leftarrow> modify_conn conn (\<lambda>c. c\<lparr>pg_conn := 0\<rparr>) (S\<lparr>world := w2\<rparr>);
              Some (conn, S)
            }
            else do {
              let w2 = apply_session_settings L pgc (cfg_schema cfg) True (pg_set_socket_timeout L pgc w1);
              S \<leftarrow> modify_conn conn (\<lambda>c. c\<lparr>pg_conn := pgc, is_pg_active := 1\<rparr>) (S\<lparr>world := w2\<rparr>);
              Some (conn, S\<lparr>pm := note_live_pool_connection conn (pm S)\<rparr>)
            }
          }
      })"

definition destroy_pool_connection :: "'w libpq \<Rightarrow> ptr \<Rightarrow> 'w shim \<Rightarrow> 'w shim option" where
  "destroy_pool_connection L conn S =
     (if is_null conn then Some S
      else do {
        let S = rust_stmt_cache_drop conn (S\<lparr>pm := forget_live_pool_connection conn (pm S)\<rparr>);
        S \<leftarrow> finish_pg L conn S;
        S \<leftarrow> modify_conn conn (\<lambda>c. c\<lparr>is_pg_active := 0, streaming_active := 0\<rparr>) S;
        (_, S) \<leftarrow> conn_unref conn S;
        Some S
      })"

definition check_conn_ok :: "'w libpq \<Rightarrow> ptr \<Rightarrow> 'w shim \<Rightarrow> bool option" where
  "check_conn_ok L conn S =
     (if is_null conn then Some False
      else map_option (\<lambda>c. \<not> is_null (pg_conn c) \<and> rust_pq_status L (pg_conn c) (world S) = CONNECTION_OK) (heap S conn))"

definition reset_conn :: "'w libpq \<Rightarrow> ptr \<Rightarrow> 'w shim \<Rightarrow> (bool \<times> 'w shim) option" where
  "reset_conn L conn S =
     (if is_null conn then Some (False, S)
      else do {
        c \<leftarrow> heap S conn;
        if is_null (pg_conn c) then Some (False, S)
        else do {
          S \<leftarrow> modify_conn conn (\<lambda>c. c\<lparr>streaming_active := 0\<rparr>) (S\<lparr>world := rust_pq_reset L (pg_conn c) (world S)\<rparr>);
          let S = forget_connection conn S;
          if rust_pq_status L (pg_conn c) (world S) \<noteq> CONNECTION_OK then Some (False, S)
          else
            (let w1 = pg_set_socket_timeout L (pg_conn c) (world S);
                 w2 = apply_session_settings L (pg_conn c) (cfg_schema (config S)) False w1
             in Some (True, S\<lparr>world := w2\<rparr>))
        }
      })"

definition reconnect_conn :: "'w libpq \<Rightarrow> ptr \<Rightarrow> 'w shim \<Rightarrow> (bool \<times> 'w shim) option" where
  "reconnect_conn L conn S =
     (if is_null conn then Some (False, S)
      else case cstring_new (build_conninfo (config S) True) of
        None \<Rightarrow> Some (False, S)
      | Some ci \<Rightarrow> do {
          S \<leftarrow> finish_pg L conn S;
          S \<leftarrow> modify_conn conn (\<lambda>c. c\<lparr>streaming_active := 0\<rparr>) S;
          let S = forget_connection conn S;
          let (new_pg, w1) = rust_pq_connectdb L (Some ci) (world S);
          if rust_pq_status L new_pg w1 = CONNECTION_OK then do {
            let w2 = apply_session_settings L new_pg (cfg_schema (config S)) False (pg_set_socket_timeout L new_pg w1);
            S \<leftarrow> modify_conn conn (\<lambda>c. c\<lparr>pg_conn := new_pg, is_pg_active := 1\<rparr>) (S\<lparr>world := w2\<rparr>);
            Some (True, S)
          }
          else do {
            let w2 = (if is_null new_pg then w1 else rust_pq_finish L new_pg w1);
            S \<leftarrow> modify_conn conn (\<lambda>c. c\<lparr>pg_conn := 0, is_pg_active := 0\<rparr>) (S\<lparr>world := w2\<rparr>);
            Some (False, S)
          }
        })"

definition get_txn_status :: "'w libpq \<Rightarrow> ptr \<Rightarrow> 'w shim \<Rightarrow> int option" where
  "get_txn_status L conn S =
     (if is_null conn then Some 0
      else map_option (\<lambda>c. if is_null (pg_conn c) then 0 else rust_pq_transaction_status L (pg_conn c) (world S)) (heap S conn))"

definition close_handle_connection :: "'w libpq \<Rightarrow> ptr \<Rightarrow> 'w shim \<Rightarrow> 'w shim option" where
  "close_handle_connection L conn S =
     (if is_null conn then Some S
      else do {
        S \<leftarrow> rust_stmt_cache_clear L conn S;
        S \<leftarrow> finish_pg L conn (rust_stmt_cache_drop conn S);
        destroy_connection_struct conn S
      })"

definition rust_pg_close :: "'w libpq \<Rightarrow> ptr \<Rightarrow> 'w shim \<Rightarrow> 'w shim option" where
  "rust_pg_close L conn S = close_handle_connection L conn S"

section \<open>A handle's own connection\<close>

text \<open>\<open>is_library_db\<close> and \<open>is_blobs_db\<close> of \<^verbatim>\<open>pg_client/pool_lookup.rs\<close>.\<close>

definition is_library_db :: "string \<Rightarrow> bool" where
  "is_library_db path = ends_with ''com.plexapp.plugins.library.db'' path"

definition is_blobs_db :: "string \<Rightarrow> bool" where
  "is_blobs_db path = ends_with ''com.plexapp.plugins.library.blobs.db'' path"

definition handle_schema :: "string \<Rightarrow> PgEnvConfig \<Rightarrow> string" where
  "handle_schema path cfg = unwrap_or (epg_schema_for_path path) (cfg_schema cfg)"

definition schema_exists :: "'w libpq \<Rightarrow> ptr \<Rightarrow> string \<Rightarrow> 'w \<Rightarrow> bool \<times> 'w" where
  "schema_exists L pgc sch w =
     (case cstring_new (''SELECT 1 FROM pg_namespace WHERE nspname = '' @ [CHR 0x27] @ sch @ [CHR 0x27]) of
        None \<Rightarrow> (False, w)
      | Some cs \<Rightarrow>
          (let (res, w1) = rust_pq_exec L pgc (Some cs) w;
               found = (\<not> is_null res \<and> rust_pq_result_status L res w1 = PGRES_TUPLES_OK \<and> 0 < rust_pq_ntuples L res w1)
           in (found, if is_null res then w1 else rust_pq_clear L res w1)))"

definition rust_pg_connect :: "'w libpq \<Rightarrow> string \<Rightarrow> ptr \<Rightarrow> 'w shim \<Rightarrow> (ptr \<times> 'w shim) option" where
  "rust_pg_connect L path shadow S =
     do {
       (conn, S) \<leftarrow> create_connection_struct L path shadow S;
       if is_null conn then Some (0, S)
       else if is_library_db path then do {
         S \<leftarrow> modify_conn conn (\<lambda>c. c\<lparr>pg_conn := 0, is_pg_active := 1\<rparr>) S;
         Some (conn, S)
       }
       else case cstring_new (build_conninfo (config S) False) of
         None \<Rightarrow> Some (conn, S)
       | Some ci \<Rightarrow> do {
           let (pgc, w1) = rust_pq_connectdb L (Some ci) (world S);
           if rust_pq_status L pgc w1 \<noteq> CONNECTION_OK then do {
             let w2 = (if is_null pgc then w1 else rust_pq_finish L pgc w1);
             S \<leftarrow> modify_conn conn (\<lambda>c. c\<lparr>pg_conn := 0\<rparr>) (S\<lparr>world := w2\<rparr>);
             Some (conn, S)
           }
           else do {
             let (found, w2) = (case epg_schema_for_path path of
                                  None \<Rightarrow> (True, w1) | Some sch \<Rightarrow> schema_exists L pgc sch w1);
             if \<not> found then do {
               S \<leftarrow> modify_conn conn (\<lambda>c. c\<lparr>pg_conn := 0\<rparr>) (S\<lparr>world := rust_pq_finish L pgc w2\<rparr>);
               S \<leftarrow> destroy_connection_struct conn S;
               Some (0, S)
             }
             else do {
               let w3 = apply_session_settings L pgc (handle_schema path (config S)) False (pg_set_socket_timeout L pgc w2);
               S \<leftarrow> modify_conn conn (\<lambda>c. c\<lparr>pg_conn := pgc, is_pg_active := 1\<rparr>) (S\<lparr>world := w3\<rparr>);
               Some (conn, S)
             }
           }
         }
     }"

definition rust_pg_ensure_connection :: "'w libpq \<Rightarrow> ptr \<Rightarrow> 'w shim \<Rightarrow> (int \<times> 'w shim) option" where
  "rust_pg_ensure_connection L conn S =
     (if is_null conn then Some (0, S)
      else do {
        c \<leftarrow> heap S conn;
        let (healthy, w1) =
          (if \<not> is_null (pg_conn c) \<and> rust_pq_status L (pg_conn c) (world S) = CONNECTION_OK
           then exec_tuples L (pg_conn c) ''SELECT 1'' (world S) else (False, world S));
        let S = S\<lparr>world := w1\<rparr>;
        if healthy then Some (1, S)
        else do {
          S \<leftarrow> finish_pg L conn S;
          case cstring_new (build_conninfo (config S) False) of
            None \<Rightarrow> do { S \<leftarrow> modify_conn conn (\<lambda>c. c\<lparr>is_pg_active := 0\<rparr>) S; Some (0, S) }
          | Some ci \<Rightarrow> do {
              let (pgc, w2) = rust_pq_connectdb L (Some ci) (world S);
              if rust_pq_status L pgc w2 \<noteq> CONNECTION_OK then do {
                let w3 = (if is_null pgc then w2 else rust_pq_finish L pgc w2);
                S \<leftarrow> modify_conn conn (\<lambda>c. c\<lparr>pg_conn := 0, is_pg_active := 0\<rparr>) (S\<lparr>world := w3\<rparr>);
                Some (0, S)
              }
              else do {
                let w3 = apply_session_settings L pgc (handle_schema (conn_path c) (config S)) False (pg_set_socket_timeout L pgc w2);
                S \<leftarrow> modify_conn conn (\<lambda>c. c\<lparr>pg_conn := pgc, is_pg_active := 1\<rparr>) (S\<lparr>world := w3\<rparr>);
                Some (1, S)
              }
            }
        }
      })"

section \<open>Contracts\<close>

text \<open>
  The process-wide tables are well-formed: the transaction maps as in \<open>Txn_Run\<close>, and every
  statement cache as in \<open>Stmt_Cache\<close>.
\<close>

definition caches_ok :: "'w shim \<Rightarrow> bool" where
  "caches_ok S \<longleftrightarrow> hm_ok (stmt_caches S) \<and> (\<forall>p c. hm_get (stmt_caches S) p = Some c \<longrightarrow> stmt_cache_ok c)"

definition tables_ok :: "'w shim \<Rightarrow> bool" where
  "tables_ok S \<longleftrightarrow> txn_maps_ok S \<and> caches_ok S"

text \<open>
  \<open>pool_same\<close>: what an operation on a connection leaves alone, namely all of the pool but its
  set of live connections, and everything thread-local; it keeps the tables well-formed.
  \<open>conn_step p\<close>: it changes the struct at \<open>p\<close> in place, keeping its count and its identity,
  and no other struct.
\<close>

definition pool_same :: "'w shim \<Rightarrow> 'w shim \<Rightarrow> bool" where
  "pool_same S S' \<longleftrightarrow> pm S' = (pm S)\<lparr>live_pool_conns := live_pool_conns (pm S')\<rparr> \<and> config S' = config S \<and> env S' = env S
     \<and> tls_pool_cache S' = tls_pool_cache S \<and> retry_count S' = retry_count S \<and> (tables_ok S \<longrightarrow> tables_ok S')"

definition conn_step :: "ptr \<Rightarrow> 'w shim \<Rightarrow> 'w shim \<Rightarrow> bool" where
  "conn_step p S S' \<longleftrightarrow> pool_same S S' \<and>
     (\<exists>c c'. heap S p = Some c \<and> heap S' = (heap S)(p \<mapsto> c') \<and> ref_count c' = ref_count c
        \<and> shadow_db c' = shadow_db c \<and> conn_path c' = conn_path c)"

lemma pool_same_refl [simp]: "pool_same S S"
  by (simp add: pool_same_def)

lemma pool_same_trans: "pool_same S S' \<Longrightarrow> pool_same S' S'' \<Longrightarrow> pool_same S S''"
  unfolding pool_same_def by (metis (no_types, lifting) PoolManager.surjective PoolManager.update_convs(12))

lemma pool_sameI:
  "pm S' = pm S \<Longrightarrow> config S' = config S \<Longrightarrow> env S' = env S \<Longrightarrow> tls_pool_cache S' = tls_pool_cache S \<Longrightarrow>
   retry_count S' = retry_count S \<Longrightarrow> (tables_ok S \<Longrightarrow> tables_ok S') \<Longrightarrow> pool_same S S'"
  by (simp add: pool_same_def)

lemma tables_ok_cong:
  "txn_by_conn S' = txn_by_conn S \<Longrightarrow> txn_pins S' = txn_pins S \<Longrightarrow> stmt_caches S' = stmt_caches S \<Longrightarrow> tables_ok S' = tables_ok S"
  by (simp add: tables_ok_def txn_maps_ok_def caches_ok_def)

lemma tables_ok_forget: "tables_ok S \<Longrightarrow> tables_ok (forget_connection p S)"
  by (simp add: tables_ok_def forget_connection_ok caches_ok_def frame_simps)

lemma tables_ok_forget_db: "tables_ok S \<Longrightarrow> tables_ok (forget_db d S)"
  by (simp add: tables_ok_def forget_db_ok caches_ok_def frame_simps)

lemma tables_ok_cache:
  "tables_ok S \<Longrightarrow> stmt_cache_ok c \<Longrightarrow> tables_ok (S\<lparr>stmt_caches := hm_insert p c (stmt_caches S)\<rparr>)"
  by (auto simp: tables_ok_def txn_maps_ok_def caches_ok_def)

lemma tables_ok_cacheD: "tables_ok S \<Longrightarrow> hm_get (stmt_caches S) p = Some c \<Longrightarrow> stmt_cache_ok c"
  by (auto simp: tables_ok_def caches_ok_def)

lemma tables_ok_drop_cache: "tables_ok S \<Longrightarrow> tables_ok (rust_stmt_cache_drop p S)"
  by (auto simp: tables_ok_def txn_maps_ok_def caches_ok_def rust_stmt_cache_drop_def split: if_splits)

lemma world_same [simp]: "pool_same S (S\<lparr>world := w\<rparr>)"
  by (rule pool_sameI) (simp_all cong: tables_ok_cong add: tables_ok_cong [of "S\<lparr>world := w\<rparr>" S])

lemma heap_same [simp]: "pool_same S (S\<lparr>heap := h\<rparr>)"
  by (rule pool_sameI) (simp_all add: tables_ok_cong [of "S\<lparr>heap := h\<rparr>" S])

lemma world_heap_same [simp]: "pool_same S (S\<lparr>world := w, heap := h\<rparr>)"
  by (rule pool_same_trans [OF world_same heap_same])

lemma forget_same: "pool_same S (forget_connection p S)"
  by (rule pool_sameI) (simp_all add: frame_simps tables_ok_forget)

lemma drop_cache_same: "pool_same S (rust_stmt_cache_drop p S)"
  by (rule pool_sameI) (auto simp: tables_ok_drop_cache, auto simp: rust_stmt_cache_drop_def)

lemma modify_conn_eq [simp]: "heap S p = Some c \<Longrightarrow> modify_conn p f S = Some (S\<lparr>heap := (heap S)(p \<mapsto> f c)\<rparr>)"
  by (simp add: modify_conn_def)

lemma conn_stepI:
  "pool_same S S' \<Longrightarrow> heap S p = Some c \<Longrightarrow> heap S' = (heap S)(p \<mapsto> c') \<Longrightarrow> ref_count c' = ref_count c \<Longrightarrow>
   shadow_db c' = shadow_db c \<Longrightarrow> conn_path c' = conn_path c \<Longrightarrow> conn_step p S S'"
  by (auto simp: conn_step_def)

lemma conn_step_refl: "heap S p = Some c \<Longrightarrow> conn_step p S S"
  by (rule conn_stepI [of _ _ _ c c]) auto

lemma conn_step_trans: "conn_step p S S' \<Longrightarrow> conn_step p S' S'' \<Longrightarrow> conn_step p S S''"
  unfolding conn_step_def using pool_same_trans by fastforce

lemma conn_step_same_heap: "heap S p = Some c \<Longrightarrow> pool_same S S' \<Longrightarrow> heap S' = heap S \<Longrightarrow> conn_step p S S'"
  by (rule conn_stepI [of _ _ _ c c]) auto

lemma conn_step_mem: "conn_step p S S' \<Longrightarrow> mem_ok R S \<Longrightarrow> mem_ok R S'"
  unfolding conn_step_def using mem_ok_modify by blast

lemma conn_step_alloc: "conn_step p S S' \<Longrightarrow> \<exists>c. heap S' p = Some c"
  by (auto simp: conn_step_def)

lemma conn_step_other: "conn_step p S S' \<Longrightarrow> q \<noteq> p \<Longrightarrow> heap S' q = heap S q"
  by (auto simp: conn_step_def)

subsection \<open>Operations that only talk to the server\<close>

lemma exec_simple_ok:
  assumes "heap S p = Some c"
  shows "returns (exec_simple L p sql S) (\<lambda>(_, S'). pool_same S S' \<and> heap S' = heap S \<and> stmt_caches S' = stmt_caches S)"
  using assms by (auto simp: exec_simple_def Let_def split: option.splits prod.splits)

lemma deallocate_stmt_ok:
  assumes "heap S p = Some c"
  shows "returns (deallocate_stmt L p name S) (\<lambda>S'. pool_same S S' \<and> heap S' = heap S \<and> stmt_caches S' = stmt_caches S)"
  using assms by (auto simp: deallocate_stmt_def Let_def split: option.splits prod.splits)

lemma deallocate_all_stmts_ok:
  assumes "heap S p = Some c"
  shows "returns (deallocate_all_stmts L p names S) (\<lambda>S'. pool_same S S' \<and> heap S' = heap S \<and> stmt_caches S' = stmt_caches S)"
  using assms
proof (induction names arbitrary: S)
  case (Cons n names)
  show ?case
    by (simp, rule returns_weaken [OF deallocate_stmt_ok [OF Cons.prems]])
      (rule returns_weaken [OF Cons.IH], use Cons.prems pool_same_trans in auto)
qed simp

lemma stmt_cache_clear_spec:
  assumes "heap S p = Some c"
  shows "returns (rust_stmt_cache_clear L p S) (\<lambda>S'. pool_same S S' \<and> heap S' = heap S)"
proof (cases "p = 0 \<or> hm_get (stmt_caches S) p = None")
  case True
  then show ?thesis by (auto simp: rust_stmt_cache_clear_def)
next
  case False
  then obtain cache where cache: "hm_get (stmt_caches S) p = Some cache" and p: "p \<noteq> 0" by auto
  obtain ev cache' where cl: "StmtCache_clear cache = (ev, cache')" by (cases "StmtCache_clear cache")
  let ?S = "S\<lparr>stmt_caches := hm_insert p cache' (stmt_caches S)\<rparr>"
  have "tables_ok ?S" if "tables_ok S"
    using tables_ok_cache [OF that] stmt_cache_clear_ok [OF tables_ok_cacheD [OF that cache]] cl by simp
  then have "pool_same S ?S" by (intro pool_sameI) simp_all
  moreover have "returns (deallocate_all_stmts L p ev ?S) (\<lambda>S'. pool_same ?S S' \<and> heap S' = heap ?S \<and> stmt_caches S' = stmt_caches ?S)"
    by (rule deallocate_all_stmts_ok) (simp add: assms)
  ultimately show ?thesis
    using cache p cl by (auto simp: rust_stmt_cache_clear_def intro: returns_weaken pool_same_trans)
qed

subsection \<open>Operations on one connection\<close>

lemma finish_pg_spec:
  assumes "heap S p = Some c"
  shows "\<exists>w. finish_pg L p S = Some (S\<lparr>world := w, heap := (heap S)(p \<mapsto> c\<lparr>pg_conn := 0\<rparr>)\<rparr>)"
proof (cases "pg_conn c = 0")
  case True
  then have "c\<lparr>pg_conn := 0\<rparr> = c" by simp
  then have "S = S\<lparr>world := world S, heap := (heap S)(p \<mapsto> c\<lparr>pg_conn := 0\<rparr>)\<rparr>" using assms by (simp add: fun_upd_idem)
  moreover have "finish_pg L p S = Some S" using True assms by (simp add: finish_pg_def)
  ultimately show ?thesis by metis
qed (use assms in \<open>auto simp: finish_pg_def\<close>)

lemma reset_conn_spec:
  assumes "heap S p = Some c" "p \<noteq> 0"
  shows "returns (reset_conn L p S) (\<lambda>(ok, S'). conn_step p S S' \<and>
     (\<exists>c'. heap S' p = Some c' \<and> is_pg_active c' = is_pg_active c \<and> (ok \<longrightarrow> streaming_active c' = 0)))"
proof (cases "pg_conn c = 0")
  case True
  with assms conn_step_refl show ?thesis by (auto simp: reset_conn_def)
next
  case False
  define S1 where "S1 = forget_connection p (S\<lparr>world := rust_pq_reset L (pg_conn c) (world S),
      heap := (heap S)(p \<mapsto> c\<lparr>streaming_active := 0\<rparr>)\<rparr>)"
  have h: "heap S1 = (heap S)(p \<mapsto> c\<lparr>streaming_active := 0\<rparr>)" by (simp add: S1_def frame_simps)
  have same: "pool_same S S1"
    unfolding S1_def by (rule pool_same_trans [OF world_heap_same forget_same])
  have step: "conn_step p S (S1\<lparr>world := w\<rparr>)" for w
    using conn_stepI [of S "S1\<lparr>world := w\<rparr>" p c "c\<lparr>streaming_active := 0\<rparr>"] assms h
      pool_same_trans [OF same world_same] by simp
  have "conn_step p S S1" using step [of "world S1"] by simp
  with False assms h step show ?thesis
    by (auto simp: reset_conn_def S1_def [symmetric] Let_def)
qed

lemma reconnect_conn_spec:
  assumes "heap S p = Some c" "p \<noteq> 0"
  shows "returns (reconnect_conn L p S) (\<lambda>(ok, S'). conn_step p S S' \<and>
     (\<exists>c'. heap S' p = Some c' \<and> (ok \<longrightarrow> is_pg_active c' = 1 \<and> streaming_active c' = 0)))"
proof (cases "cstring_new (build_conninfo (config S) True)")
  case None
  with assms conn_step_refl show ?thesis by (auto simp: reconnect_conn_def)
next
  case (Some ci)
  obtain w where fin: "finish_pg L p S = Some (S\<lparr>world := w, heap := (heap S)(p \<mapsto> c\<lparr>pg_conn := 0\<rparr>)\<rparr>)"
    using finish_pg_spec [OF assms(1)] by blast
  define S1 where "S1 = forget_connection p (S\<lparr>world := w, heap := (heap S)(p \<mapsto> c\<lparr>pg_conn := 0, streaming_active := 0\<rparr>)\<rparr>)"
  have h: "heap S1 = (heap S)(p \<mapsto> c\<lparr>pg_conn := 0, streaming_active := 0\<rparr>)" by (simp add: S1_def frame_simps)
  have same: "pool_same S S1"
    unfolding S1_def by (rule pool_same_trans [OF world_heap_same forget_same])
  have cfg: "config S1 = config S" by (simp add: S1_def frame_simps)
  have step: "conn_step p S (S1\<lparr>world := w2, heap := (heap S1)(p \<mapsto> c2)\<rparr>)"
    if "ref_count c2 = ref_count c" "shadow_db c2 = shadow_db c" "conn_path c2 = conn_path c" for c2 w2
    using conn_stepI [of S "S1\<lparr>world := w2, heap := (heap S1)(p \<mapsto> c2)\<rparr>" p c c2] that assms(1) h
      pool_same_trans [OF same pool_same_trans [OF world_same heap_same]] by simp
  show ?thesis
    using Some assms fin h step
    by (auto simp: reconnect_conn_def S1_def [symmetric] Let_def cfg split: prod.splits)
qed

subsection \<open>Creation and destruction\<close>

lemma create_connection_struct_spec:
  assumes "calloc_fresh L" "heap S 0 = None"
  shows "returns (create_connection_struct L path shadow S) (\<lambda>(p, S'). pool_same S S' \<and>
     (if p = 0 then heap S' = heap S
      else heap S p = None \<and> (\<exists>c. heap S' = (heap S)(p \<mapsto> c) \<and> ref_count c = 1 \<and> shadow_db c = shadow
             \<and> conn_path c = cbuf DB_PATH_LEN path \<and> streaming_active c = 0 \<and> is_pg_active c = 0)))"
proof -
  obtain p w where al: "calloc L (dom (heap S)) (world S) = (p, w)" by (cases "calloc L (dom (heap S)) (world S)")
  have fresh: "p = 0 \<or> heap S p = None"
    using assms(1) al unfolding calloc_fresh_def by (metis domIff fst_conv)
  have [simp]: "(heap S)(p := None) = heap S" if "heap S p = None" using that by auto
  show ?thesis
    using fresh
    by (auto simp: create_connection_struct_def al Let_def conn_ref_def PgConnection_zeroed_def
        intro: pool_same_trans [OF world_same] split: prod.splits)
qed

lemma destroy_fresh:
  assumes "heap S' = (heap S)(p \<mapsto> c)" "ref_count c = 1" "heap S p = None" "p \<noteq> 0"
  shows "destroy_connection_struct p S' = Some (S'\<lparr>heap := heap S\<rparr>)"
proof -
  have "(heap S)(p := None) = heap S" using assms(3) by auto
  with assms conn_unref_eq [of S' p c] show ?thesis by (simp add: destroy_connection_struct_def)
qed

lemma note_live_same: "pool_same S (S\<lparr>pm := note_live_pool_connection p (pm S)\<rparr>)"
  by (simp add: pool_same_def note_live_pool_connection_def tables_ok_cong [of "S\<lparr>pm := m\<rparr>" S for m])

lemma forget_live_same: "pool_same S (S\<lparr>pm := forget_live_pool_connection p (pm S)\<rparr>)"
  by (simp add: pool_same_def forget_live_pool_connection_def tables_ok_cong [of "S\<lparr>pm := m\<rparr>" S for m])

lemma status_ok_nonnull: "rust_pq_status L pgc w = CONNECTION_OK \<Longrightarrow> pgc \<noteq> 0"
  by (cases "pgc = 0") (auto simp: rust_pq_status_def CONNECTION_OK_def)

definition created :: "ptr \<Rightarrow> 'w shim \<Rightarrow> 'w shim \<Rightarrow> bool" where
  "created p S S' \<longleftrightarrow> pool_same S S' \<and>
     (if p = 0 then heap S' = heap S
      else heap S p = None \<and> (\<exists>c. heap S' = (heap S)(p \<mapsto> c) \<and> ref_count c = 1 \<and> streaming_active c = 0))"

lemma created_mem:
  assumes "created p S S'" "mem_ok R S"
  shows "mem_ok (if p = 0 then R else R(p := Suc (R p))) S' \<and> (p \<noteq> 0 \<longrightarrow> R p = 0)"
proof (cases "p = 0")
  case True
  with assms show ?thesis by (simp add: created_def mem_ok_heap_eq [of S' S])
next
  case False
  then obtain c where c: "heap S' = (heap S)(p \<mapsto> c)" "ref_count c = 1" "heap S p = None"
    using assms(1) by (auto simp: created_def)
  then have "R p = 0" using mem_ok_alloc [OF assms(2)] by simp
  with mem_ok_upd [OF assms(2) False c(1), of 1] c False show ?thesis by simp
qed

lemma create_pool_connection_spec:
  assumes "calloc_fresh L" "heap S 0 = None"
  shows "returns (create_pool_connection L path S) (\<lambda>(p, S'). created p S S')"
proof (cases "cfg_host (config S) = [] \<or> cfg_port (config S) = 0")
  case True
  then show ?thesis by (auto simp: create_pool_connection_def created_def)
next
  case False
  obtain p S1 where mk: "create_connection_struct L path 0 S = Some (p, S1)" and same: "pool_same S S1"
    and post: "if p = 0 then heap S1 = heap S
      else heap S p = None \<and> (\<exists>c. heap S1 = (heap S)(p \<mapsto> c) \<and> ref_count c = 1 \<and> shadow_db c = 0
             \<and> conn_path c = cbuf DB_PATH_LEN path \<and> streaming_active c = 0 \<and> is_pg_active c = 0)"
    using returnsD [OF create_connection_struct_spec [OF assms, of path 0]] by auto
  have cfg: "config S1 = config S" using same by (simp add: pool_same_def)
  show ?thesis
  proof (cases "p = 0")
    case True
    with False mk same post show ?thesis by (auto simp: create_pool_connection_def created_def)
  next
    case p: False
    with post obtain c where none: "heap S p = None" and h: "heap S1 = (heap S)(p \<mapsto> c)"
      and c: "ref_count c = 1" "streaming_active c = 0" by auto
    have upd: "created p S (S1\<lparr>world := w, heap := (heap S1)(p \<mapsto> c')\<rparr>)"
      if "ref_count c' = 1" "streaming_active c' = 0" for c' w
      using p none h that pool_same_trans [OF same world_heap_same] by (auto simp: created_def)
    have noted: "created p S (S2\<lparr>pm := note_live_pool_connection p (pm S2)\<rparr>)" if "created p S S2" for S2
      using that pool_same_trans [OF _ note_live_same] by (auto simp: created_def)
    have live: "created p S (S1\<lparr>world := w, heap := (heap S1)(p \<mapsto> c'), pm := note_live_pool_connection p (pm S1)\<rparr>)"
      if "ref_count c' = 1" "streaming_active c' = 0" for c' w
      using noted [OF upd [OF that]] by simp
    have gone: "created 0 S (S1\<lparr>heap := heap S\<rparr>)"
      using pool_same_trans [OF same heap_same] by (simp add: created_def)
    show ?thesis
      using False mk p none h c destroy_fresh [OF h c(1) none p] gone upd live
      by (auto simp: create_pool_connection_def Let_def split: option.splits prod.splits)
  qed
qed

lemma destroy_pool_connection_spec:
  assumes "heap S p = Some c" "p \<noteq> 0" "0 < ref_count c"
  shows "\<exists>S'. destroy_pool_connection L p S = Some S' \<and> pool_same S S' \<and> txn_pins S' = txn_pins S \<and> txn_by_conn S' = txn_by_conn S
    \<and> heap S' = (heap S)(p := if ref_count c = 1 then None
         else Some (c\<lparr>pg_conn := 0, is_pg_active := 0, streaming_active := 0, ref_count := ref_count c - 1\<rparr>))"
proof -
  define S1 where "S1 = rust_stmt_cache_drop p (S\<lparr>pm := forget_live_pool_connection p (pm S)\<rparr>)"
  have h: "heap S1 = heap S" "txn_pins S1 = txn_pins S" "txn_by_conn S1 = txn_by_conn S"
    by (simp_all add: S1_def rust_stmt_cache_drop_def)
  have same: "pool_same S S1" unfolding S1_def by (rule pool_same_trans [OF forget_live_same drop_cache_same])
  obtain w where fin: "finish_pg L p S1 = Some (S1\<lparr>world := w, heap := (heap S1)(p \<mapsto> c\<lparr>pg_conn := 0\<rparr>)\<rparr>)"
    using finish_pg_spec [of S1 p c] assms(1) h by auto
  let ?c = "c\<lparr>pg_conn := 0, is_pg_active := 0, streaming_active := 0\<rparr>"
  let ?S2 = "S1\<lparr>world := w, heap := (heap S1)(p \<mapsto> ?c)\<rparr>"
  have "conn_unref p ?S2 = Some (ref_count c = 1,
      ?S2\<lparr>heap := (heap ?S2)(p := if ref_count c = 1 then None else Some (?c\<lparr>ref_count := ref_count c - 1\<rparr>))\<rparr>)"
    using conn_unref_eq [of ?S2 p ?c] assms(2,3) by simp
  with fin have "destroy_pool_connection L p S =
      Some (?S2\<lparr>heap := (heap ?S2)(p := if ref_count c = 1 then None else Some (?c\<lparr>ref_count := ref_count c - 1\<rparr>))\<rparr>)"
    using assms(2) by (simp add: destroy_pool_connection_def S1_def [symmetric])
  with h same show ?thesis by (auto intro: pool_same_trans [OF same])
qed

lemma destroy_pool_connection_mem:
  assumes "mem_ok R S" "0 < R p"
  shows "returns (destroy_pool_connection L p S) (\<lambda>S'. pool_same S S' \<and> mem_ok (R(p := R p - 1)) S'
    \<and> (\<forall>q. q \<noteq> p \<longrightarrow> heap S' q = heap S q))"
proof -
  obtain c where c: "heap S p = Some c" "ref_count c = int (R p)" "p \<noteq> 0" using assms by (rule mem_okD)
  obtain S' where S': "destroy_pool_connection L p S = Some S'" "pool_same S S'"
    and h: "heap S' = (heap S)(p := if ref_count c = 1 then None
         else Some (c\<lparr>pg_conn := 0, is_pg_active := 0, streaming_active := 0, ref_count := ref_count c - 1\<rparr>))"
    using destroy_pool_connection_spec [OF c(1,3)] c(2) assms(2) by auto
  have "mem_ok (R(p := R p - 1)) S'"
    by (rule mem_ok_upd [OF assms(1) c(3) h]) (use c assms(2) in \<open>auto split: option.splits if_splits\<close>)
  with S' h show ?thesis by (auto intro: returnsI)
qed

lemma close_handle_connection_spec:
  assumes "heap S p = Some c" "p \<noteq> 0" "0 < ref_count c"
  shows "\<exists>S'. close_handle_connection L p S = Some S' \<and> pool_same S S'
    \<and> heap S' = (heap S)(p := if ref_count c = 1 then None else Some (c\<lparr>pg_conn := 0, ref_count := ref_count c - 1\<rparr>))"
proof -
  obtain S1 where S1: "rust_stmt_cache_clear L p S = Some S1" "pool_same S S1" "heap S1 = heap S"
    using returnsD [OF stmt_cache_clear_spec [OF assms(1)]] by blast
  define S2 where "S2 = rust_stmt_cache_drop p S1"
  have S2: "pool_same S S2" "heap S2 = heap S"
    unfolding S2_def using pool_same_trans [OF S1(2) drop_cache_same] S1(3) by (simp_all add: rust_stmt_cache_drop_def)
  obtain w where fin: "finish_pg L p S2 = Some (S2\<lparr>world := w, heap := (heap S2)(p \<mapsto> c\<lparr>pg_conn := 0\<rparr>)\<rparr>)"
    using finish_pg_spec [of S2 p c] assms(1) S2(2) by auto
  let ?S3 = "S2\<lparr>world := w, heap := (heap S2)(p \<mapsto> c\<lparr>pg_conn := 0\<rparr>)\<rparr>"
  let ?S4 = "?S3\<lparr>heap := (heap ?S3)(p := if ref_count c = 1 then None else Some (c\<lparr>pg_conn := 0, ref_count := ref_count c - 1\<rparr>))\<rparr>"
  have "conn_unref p ?S3 = Some (ref_count c = 1, ?S4)"
    using conn_unref_eq [of ?S3 p "c\<lparr>pg_conn := 0\<rparr>"] assms(2,3) by simp
  then have "close_handle_connection L p S = Some ?S4"
    using assms(2) S1 fin by (simp add: close_handle_connection_def S2_def [symmetric] destroy_connection_struct_def)
  moreover have "pool_same S ?S4" by (rule pool_same_trans [OF pool_same_trans [OF S2(1) world_heap_same] heap_same])
  ultimately show ?thesis using S2(2) by auto
qed

lemma close_handle_connection_mem:
  assumes "mem_ok R S" "0 < R p"
  shows "returns (close_handle_connection L p S) (\<lambda>S'. pool_same S S' \<and> mem_ok (R(p := R p - 1)) S'
    \<and> (\<forall>q. q \<noteq> p \<longrightarrow> heap S' q = heap S q)
    \<and> (1 < R p \<longrightarrow> map_option is_pg_active (heap S' p) = map_option is_pg_active (heap S p)
         \<and> map_option streaming_active (heap S' p) = map_option streaming_active (heap S p)))"
proof -
  obtain c where c: "heap S p = Some c" "ref_count c = int (R p)" "p \<noteq> 0" using assms by (rule mem_okD)
  obtain S' where S': "close_handle_connection L p S = Some S'" "pool_same S S'"
    and h: "heap S' = (heap S)(p := if ref_count c = 1 then None else Some (c\<lparr>pg_conn := 0, ref_count := ref_count c - 1\<rparr>))"
    using close_handle_connection_spec [OF c(1,3)] c(2) assms(2) by auto
  have "mem_ok (R(p := R p - 1)) S'"
    by (rule mem_ok_upd [OF assms(1) c(3) h]) (use c assms(2) in \<open>auto split: option.splits if_splits\<close>)
  with S' h c show ?thesis by (auto intro: returnsI)
qed

lemma rust_pg_connect_spec:
  assumes "calloc_fresh L" "heap S 0 = None"
  shows "returns (rust_pg_connect L path shadow S) (\<lambda>(p, S'). created p S S'
    \<and> (p = 0 \<or> (\<exists>c. heap S' p = Some c \<and> shadow_db c = shadow \<and> conn_path c = cbuf DB_PATH_LEN path)))" (is "returns _ ?Q")
proof -
  define post where "post = ?Q"
  obtain p S1 where mk: "create_connection_struct L path shadow S = Some (p, S1)" and same: "pool_same S S1"
    and new: "if p = 0 then heap S1 = heap S
      else heap S p = None \<and> (\<exists>c. heap S1 = (heap S)(p \<mapsto> c) \<and> ref_count c = 1 \<and> shadow_db c = shadow
             \<and> conn_path c = cbuf DB_PATH_LEN path \<and> streaming_active c = 0 \<and> is_pg_active c = 0)"
    using returnsD [OF create_connection_struct_spec [OF assms, of path shadow]] by auto
  have "returns (rust_pg_connect L path shadow S) post"
  proof (cases "p = 0")
    case True
    with mk same new show ?thesis by (auto simp: rust_pg_connect_def created_def post_def)
  next
    case p: False
    with new obtain c where none: "heap S p = None" and h: "heap S1 = (heap S)(p \<mapsto> c)" and c: "ref_count c = 1" "streaming_active c = 0"
      and id: "shadow_db c = shadow" "conn_path c = cbuf DB_PATH_LEN path" by auto
    have upd: "post (p, S2)" if "pool_same S1 S2" "heap S2 = (heap S1)(p \<mapsto> c')"
        "ref_count c' = 1" "streaming_active c' = 0" "shadow_db c' = shadow" "conn_path c' = cbuf DB_PATH_LEN path" for c' S2
      using p none h that pool_same_trans [OF same that(1)] by (auto simp: created_def post_def)
    have keep: "post (p, S1)" using p none h c id same by (auto simp: created_def post_def)
    have gone: "returns (destroy_connection_struct p S2) (\<lambda>S3. post (0, S3))"
      if "pool_same S1 S2" "heap S2 = (heap S1)(p \<mapsto> c')" "ref_count c' = 1" for c' S2
      using destroy_fresh [of S2 S p c'] that none p h pool_same_trans [OF pool_same_trans [OF same that(1)] heap_same]
      by (auto simp: created_def post_def)
    show ?thesis
      using mk p h c id keep gone [of "S1\<lparr>world := w, heap := (heap S1)(p \<mapsto> c\<lparr>pg_conn := 0\<rparr>)\<rparr>" "c\<lparr>pg_conn := 0\<rparr>" for w]
      by (auto simp: rust_pg_connect_def Let_def split: option.splits prod.splits intro!: upd)
  qed
  then show ?thesis by (simp add: post_def)
qed

text \<open>
  C23. Opening a handle's connection, whatever the server answers, either hands out one new
  struct that it alone references, set up for the handle's file, or hands out null and has
  freed what it allocated: the exact account of references grows by that one reference and
  by nothing else. No pool slot and no other connection is touched.
\<close>

theorem rust_pg_connect_exact:
  assumes "calloc_fresh L" and "mem_ok R S"
  shows "\<exists>p S'. rust_pg_connect L path shadow S = Some (p, S') \<and> pool_same S S' \<and> mem_ok (if p = 0 then R else R(p := 1)) S'
    \<and> (\<forall>q. q \<noteq> p \<longrightarrow> heap S' q = heap S q)
    \<and> (p = 0 \<or> (\<exists>c. heap S' p = Some c \<and> shadow_db c = shadow \<and> conn_path c = cbuf DB_PATH_LEN path))"
proof -
  have h0: "heap S 0 = None" using mem_ok_null [OF assms(2)] by simp
  obtain p S' where S': "rust_pg_connect L path shadow S = Some (p, S')" "created p S S'"
    "p = 0 \<or> (\<exists>c. heap S' p = Some c \<and> shadow_db c = shadow \<and> conn_path c = cbuf DB_PATH_LEN path)"
    using returnsD [OF rust_pg_connect_spec [OF assms(1) h0, of path shadow]] by auto
  moreover have "mem_ok (if p = 0 then R else R(p := 1)) S'"
    using created_mem [OF S'(2) assms(2)] by (auto split: if_splits)
  moreover have "pool_same S S'" "\<forall>q. q \<noteq> p \<longrightarrow> heap S' q = heap S q"
    using S'(2) by (auto simp: created_def split: if_splits)
  ultimately show ?thesis by blast
qed

theorem rust_pg_connect_exact_witness:
  "\<exists>p S'. rust_pg_connect (quiet_pq id Suc) ''/x/com.plexapp.plugins.library.blobs.db'' 9 (demo_shim 7) = Some (p, S')
    \<and> mem_ok (if p = 0 then (\<lambda>_. 0) else (\<lambda>_. 0)(p := 1)) S'"
proof -
  have "mem_ok (\<lambda>_. 0) (demo_shim (7 :: nat))" by (simp add: mem_ok_def demo_shim_def)
  from rust_pg_connect_exact [OF quiet_pq_fresh this] show ?thesis by blast
qed

lemma rust_pg_ensure_connection_spec:
  assumes "heap S p = Some c" "p \<noteq> 0"
  shows "returns (rust_pg_ensure_connection L p S) (\<lambda>(r, S'). conn_step p S S' \<and>
     (\<exists>c'. heap S' p = Some c' \<and> (r = 1 \<longrightarrow> pg_conn c' \<noteq> 0)))"
proof -
  obtain healthy w1 where hw: "(if pg_conn c \<noteq> 0 \<and> rust_pq_status L (pg_conn c) (world S) = CONNECTION_OK
      then exec_tuples L (pg_conn c) ''SELECT 1'' (world S) else (False, world S)) = (healthy, w1)" by (meson surj_pair)
  let ?S1 = "S\<lparr>world := w1\<rparr>"
  obtain w2 where fin: "finish_pg L p ?S1 = Some (?S1\<lparr>world := w2, heap := (heap ?S1)(p \<mapsto> c\<lparr>pg_conn := 0\<rparr>)\<rparr>)"
    using finish_pg_spec [of ?S1 p c] assms(1) by auto
  have step: "conn_step p S (S\<lparr>world := w, heap := (heap S)(p \<mapsto> c')\<rparr>)"
    if "ref_count c' = ref_count c" "shadow_db c' = shadow_db c" "conn_path c' = conn_path c" for w c'
    using that assms(1) by (intro conn_stepI [of S _ p c c']) simp_all
  show ?thesis
  proof (cases healthy)
    case True
    then have "pg_conn c \<noteq> 0" using hw by (auto split: if_splits)
    moreover have "conn_step p S ?S1" using assms(1) by (intro conn_step_same_heap) simp_all
    ultimately show ?thesis using True hw assms by (auto simp: rust_pg_ensure_connection_def)
  next
    case False
    with hw fin assms step show ?thesis
      by (auto simp: rust_pg_ensure_connection_def Let_def split: option.splits prod.splits dest: status_ok_nonnull
          simp del: not_gr_zero)
  qed
qed

text \<open>
  Destroying a pooled connection does not forget its transaction, although \<open>pinned_conn\<close>
  relies on pins being dropped before a connection goes: if nobody else references the
  struct, the next look at the pin follows a freed pointer.
\<close>

lemma pin_survives_destroy:
  assumes "heap S p = Some c" "p \<noteq> 0" "ref_count c = 1" "db \<noteq> 0"
    and "hm_get (txn_pins S) db = Some p" "hm_get (txn_by_conn S) p = Some st" "is_open st" "txn_db st = db"
  shows "\<exists>S'. destroy_pool_connection L p S = Some S' \<and> pinned_conn db S' = None"
proof -
  obtain S' where "destroy_pool_connection L p S = Some S'" "txn_pins S' = txn_pins S" "txn_by_conn S' = txn_by_conn S"
    "heap S' p = None"
    using destroy_pool_connection_spec [OF assms(1,2), of L] assms(3) by auto
  with assms show ?thesis by (simp add: pinned_conn_def)
qed

end
