(* ===== verification/Pool_Invariant.thy ===== *)
theory Pool_Invariant
  imports Conn_Lifecycle
begin

text \<open>
  The invariant of the pool, and the lemmas by which every operation's proof goes: how it
  moves when a slot is rewritten, a connection changes in place, one is taken out of a slot
  or put into one.

  \<open>hold p\<close> is how many references to the connection at \<open>p\<close> there are outside the pool's slots
  and the handle registry: those of statements, and the one an operation has in its hands
  between taking a connection out of a slot and destroying it. With it the reference account
  of every connection is exact at each point of an operation, and moving a connection
  between a slot and the operation's hands leaves the account as it is.
\<close>

definition slot_count :: "PoolManager \<Rightarrow> ptr \<Rightarrow> nat" where
  "slot_count m p = count_list (map slot_conn (slots m)) p"

definition reg_count :: "PoolManager \<Rightarrow> ptr \<Rightarrow> nat" where
  "reg_count m p = count_list (hm_values (registry m)) p"

definition refs :: "(ptr \<Rightarrow> nat) \<Rightarrow> PoolManager \<Rightarrow> ptr \<Rightarrow> nat" where
  "refs hold m p = (if p = 0 then 0 else hold p + slot_count m p + reg_count m p)"

definition active :: "'w shim \<Rightarrow> ptr \<Rightarrow> bool" where
  "active S p \<longleftrightarrow> (\<exists>c. heap S p = Some c \<and> is_pg_active c \<noteq> 0)"

definition slot_ok :: "'w shim \<Rightarrow> PoolSlot \<Rightarrow> bool" where
  "slot_ok S s \<longleftrightarrow> slot_state s \<in> {SLOT_FREE, SLOT_READY, SLOT_ERROR}
     \<and> (slot_state s = SLOT_READY \<longrightarrow> slot_conn s \<noteq> 0 \<and> owner_thread s \<noteq> 0)
     \<and> (slot_state s \<noteq> SLOT_ERROR \<longrightarrow> slot_conn s \<noteq> 0 \<longrightarrow> active S (slot_conn s))"

definition sizes_ok :: "PoolManager \<Rightarrow> bool" where
  "sizes_ok m \<longleftrightarrow> 1 \<le> configured_size m \<and> configured_size m \<le> configured_max_size m
     \<and> configured_max_size m \<le> length (slots m) \<and> hm_ok (registry m) \<and> hm_ok (db_to_pool m)"

definition slot_conns :: "PoolManager \<Rightarrow> ptr list" where
  "slot_conns m = filter (\<lambda>p. p \<noteq> 0) (map slot_conn (slots m))"

text \<open>A connection of a handle's own is in no slot.\<close>

definition apart :: "PoolManager \<Rightarrow> bool" where
  "apart m \<longleftrightarrow> set (slot_conns m) \<inter> set (hm_values (registry m)) = {}"

text \<open>All of the invariant but the state of one slot, which an operation is working on.\<close>

definition pool_ok_but :: "usize option \<Rightarrow> (ptr \<Rightarrow> nat) \<Rightarrow> 'w shim \<Rightarrow> bool" where
  "pool_ok_but w hold S \<longleftrightarrow> sizes_ok (pm S) \<and> distinct (slot_conns (pm S)) \<and> apart (pm S)
     \<and> mem_ok (refs hold (pm S)) S \<and> tables_ok S \<and> (\<forall>j<length (slots (pm S)). w \<noteq> Some j \<longrightarrow> slot_ok S (slot_at S j))"

abbreviation pool_ok :: "(ptr \<Rightarrow> nat) \<Rightarrow> 'w shim \<Rightarrow> bool" where
  "pool_ok \<equiv> pool_ok_but None"

abbreviation working :: "usize \<Rightarrow> (ptr \<Rightarrow> nat) \<Rightarrow> 'w shim \<Rightarrow> bool" where
  "working i \<equiv> pool_ok_but (Some i)"

lemma pool_okI: "working i hold S \<Longrightarrow> slot_ok S (slot_at S i) \<Longrightarrow> pool_ok hold S"
  by (auto simp: pool_ok_but_def)

lemma pool_ok_working: "pool_ok hold S \<Longrightarrow> working i hold S"
  by (auto simp: pool_ok_but_def)

lemma pool_okD: "pool_ok hold S \<Longrightarrow> i < length (slots (pm S)) \<Longrightarrow> slot_ok S (slot_at S i)"
  by (simp add: pool_ok_but_def)

lemma pool_ok_null: "pool_ok_but w hold S \<Longrightarrow> heap S 0 = None"
  using mem_ok_null by (auto simp: pool_ok_but_def)

lemma pool_size_le: "pool_ok_but w hold S \<Longrightarrow> pool_size (pm S) \<le> length (slots (pm S)) \<and> 1 \<le> pool_size (pm S)
    \<and> pool_size (pm S) = configured_size (pm S)"
  by (auto simp: pool_ok_but_def sizes_ok_def pool_size_def pool_max_def)

section \<open>Counting\<close>

lemma count_list_update:
  "i < length xs \<Longrightarrow> count_list (xs[i := y]) p + (if xs ! i = p then 1 else 0) = count_list xs p + (if y = p then 1 else 0)"
proof (induction xs arbitrary: i)
  case (Cons x xs)
  show ?case
  proof (cases i)
    case (Suc k)
    with Cons.IH [of k] Cons.prems show ?thesis by (auto split: if_splits)
  qed simp
qed simp

lemma slot_count_update:
  assumes "i < length (slots m)"
  shows "slot_count (m\<lparr>slots := (slots m)[i := s]\<rparr>) p + (if slot_conn (slots m ! i) = p then 1 else 0)
    = slot_count m p + (if slot_conn s = p then 1 else 0)"
  using count_list_update [of i "map slot_conn (slots m)" "slot_conn s" p] assms
  by (simp add: slot_count_def map_update)

lemma count_list_pos: "count_list xs p = 0 \<longleftrightarrow> p \<notin> set xs"
  by (simp add: count_list_0_iff)

lemma slot_count_at: "i < length (slots m) \<Longrightarrow> 0 < slot_count m (slot_conn (slots m ! i))"
proof -
  assume "i < length (slots m)"
  then have "slot_conn (slots m ! i) \<in> set (map slot_conn (slots m))" by simp
  then show ?thesis unfolding slot_count_def using count_list_pos by (metis gr0I)
qed

text \<open>With distinct connections, the others' are not this slot's.\<close>

lemma distinct_slot_conns:
  assumes "distinct (slot_conns m)" "i < length (slots m)" "j < length (slots m)" "i \<noteq> j"
    and "slot_conn (slots m ! i) = slot_conn (slots m ! j)"
  shows "slot_conn (slots m ! i) = 0"
proof (rule ccontr)
  assume nz: "slot_conn (slots m ! i) \<noteq> 0"
  have "distinct (filter (\<lambda>p. p \<noteq> 0) xs) \<Longrightarrow> i < length xs \<Longrightarrow> j < length xs \<Longrightarrow> i \<noteq> j \<Longrightarrow> xs ! i = xs ! j \<Longrightarrow> xs ! i = 0"
    for xs :: "ptr list" and i j
  proof (induction xs arbitrary: i j)
    case (Cons x xs)
    have in_tail: "xs ! k \<noteq> x" if "x \<noteq> 0" "k < length xs" for k
      using Cons.prems(1) that by (auto simp: in_set_conv_nth)
    show ?case
    proof (cases i; cases j)
      fix i' j' assume "i = Suc i'" "j = Suc j'"
      with Cons.IH [of i' j'] Cons.prems show ?thesis by (auto split: if_splits)
    qed (use Cons.prems in_tail in auto)
  qed simp
  from this [of "map slot_conn (slots m)" i j] assms nz show False by (simp add: slot_conns_def)
qed

lemma distinct_filter_replace:
  "distinct (filter P (xs @ x # ys)) \<Longrightarrow> \<not> P y \<or> y = x \<or> y \<notin> set xs \<union> set ys \<Longrightarrow> distinct (filter P (xs @ y # ys))"
  by (cases "P x"; cases "P y") auto

lemma distinct_slot_conns_update:
  assumes "distinct (slot_conns m)" "i < length (slots m)"
    and "slot_conn s = 0 \<or> slot_conn s = slot_conn (slots m ! i) \<or> slot_count m (slot_conn s) = 0"
  shows "distinct (slot_conns (m\<lparr>slots := (slots m)[i := s]\<rparr>))"
proof -
  let ?xs = "map slot_conn (slots m)"
  have split: "?xs = take i ?xs @ ?xs ! i # drop (Suc i) ?xs" by (rule id_take_nth_drop) (simp add: assms(2))
  have upd: "map slot_conn ((slots m)[i := s]) = take i ?xs @ slot_conn s # drop (Suc i) ?xs"
    using assms(2) by (simp add: upd_conv_take_nth_drop take_map drop_map)
  have d: "distinct (filter (\<lambda>p. p \<noteq> 0) (take i ?xs @ ?xs ! i # drop (Suc i) ?xs))"
    using assms(1) split unfolding slot_conns_def by metis
  have "slot_count m (slot_conn s) = 0 \<Longrightarrow> slot_conn s \<notin> set (take i ?xs) \<union> set (drop (Suc i) ?xs)"
    unfolding slot_count_def count_list_pos by (auto dest: in_set_takeD in_set_dropD)
  with distinct_filter_replace [OF d, of "slot_conn s"] assms(2,3) show ?thesis
    unfolding slot_conns_def by (auto simp: upd)
qed

lemma apart_update:
  assumes "apart m" "i < length (slots m)"
    and "slot_conn s = 0 \<or> slot_conn s = slot_conn (slots m ! i) \<or> reg_count m (slot_conn s) = 0"
  shows "apart (m\<lparr>slots := (slots m)[i := s]\<rparr>)"
proof -
  have "set (slot_conns (m\<lparr>slots := (slots m)[i := s]\<rparr>)) \<subseteq> set (slot_conns m) \<union> (if slot_conn s = 0 then {} else {slot_conn s})"
    using set_update_subset_insert [of "slots m" i s] by (auto simp: slot_conns_def)
  moreover have "slot_conn s \<in> set (slot_conns m) \<or> slot_conn s \<notin> set (hm_values (registry m))" if "slot_conn s \<noteq> 0"
    using assms that by (auto simp: slot_conns_def reg_count_def count_list_pos)
  ultimately show ?thesis using assms(1) by (auto simp: apart_def split: if_splits)
qed

lemma apart_slot:
  assumes "apart m" "i < length (slots m)" "slot_conn (slots m ! i) \<noteq> 0"
  shows "reg_count m (slot_conn (slots m ! i)) = 0"
proof -
  have "slot_conn (slots m ! i) \<in> set (slot_conns m)" using assms(2,3) by (simp add: slot_conns_def)
  then show ?thesis using assms(1) by (auto simp: apart_def reg_count_def count_list_pos)
qed

lemma apart_registered: "apart m \<Longrightarrow> 0 < reg_count m p \<Longrightarrow> p \<noteq> 0 \<Longrightarrow> slot_count m p = 0"
  using apart_slot [of m] by (fastforce simp: slot_count_def count_list_pos in_set_conv_nth)

section \<open>Moves\<close>

text \<open>A slot rewritten, its connection kept.\<close>

lemma refs_same_conn:
  assumes "i < length (slots m)" "slot_conn s = slot_conn (slots m ! i)"
  shows "refs hold (m\<lparr>slots := (slots m)[i := s]\<rparr>) = refs hold m"
proof
  fix p
  show "refs hold (m\<lparr>slots := (slots m)[i := s]\<rparr>) p = refs hold m p"
    using slot_count_update [OF assms(1), of s p] assms(2) by (auto simp: refs_def reg_count_def)
qed

text \<open>A connection taken out of a slot, into the operation's hands; and put into an empty one.\<close>

lemma refs_take_out:
  assumes "i < length (slots m)" "slot_conn s = 0" "slot_conn (slots m ! i) = p" "p \<noteq> 0"
  shows "refs (hold(p := Suc (hold p))) (m\<lparr>slots := (slots m)[i := s]\<rparr>) = refs hold m"
proof
  fix q
  show "refs (hold(p := Suc (hold p))) (m\<lparr>slots := (slots m)[i := s]\<rparr>) q = refs hold m q"
    using slot_count_update [OF assms(1), of s q] assms(2-4) by (auto simp: refs_def reg_count_def)
qed

lemma refs_put_in:
  assumes "i < length (slots m)" "slot_conn (slots m ! i) = 0" "slot_conn s = p" "p \<noteq> 0"
  shows "refs hold (m\<lparr>slots := (slots m)[i := s]\<rparr>) = refs (hold(p := Suc (hold p))) m"
proof
  fix q
  show "refs hold (m\<lparr>slots := (slots m)[i := s]\<rparr>) q = refs (hold(p := Suc (hold p))) m q"
    using slot_count_update [OF assms(1), of s q] assms(2-4) by (auto simp: refs_def reg_count_def)
qed

lemma refs_hold: "p \<noteq> 0 \<Longrightarrow> refs (hold(p := Suc (hold p))) m = (refs hold m)(p := Suc (refs hold m p))"
  by (auto simp: refs_def fun_eq_iff)

lemma refs_pm_cong:
  "slots m' = slots m \<Longrightarrow> registry m' = registry m \<Longrightarrow> refs hold m' = refs hold m"
  by (auto simp: refs_def slot_count_def reg_count_def fun_eq_iff)

lemma set_slot_simps [simp]:
  "pm (set_slot i s S) = (pm S)\<lparr>slots := (slots (pm S))[i := s]\<rparr>"
  "heap (set_slot i s S) = heap S" "world (set_slot i s S) = world S" "config (set_slot i s S) = config S"
  "env (set_slot i s S) = env S" "tls_pool_cache (set_slot i s S) = tls_pool_cache S"
  "retry_count (set_slot i s S) = retry_count S" "stmt_caches (set_slot i s S) = stmt_caches S"
  "txn_by_conn (set_slot i s S) = txn_by_conn S" "txn_pins (set_slot i s S) = txn_pins S"
  by (simp_all add: set_slot_def)

lemma slot_ok_cong: "heap S' = heap S \<Longrightarrow> slot_ok S' s = slot_ok S s"
  by (simp add: slot_ok_def active_def)

lemma sizes_ok_slots [simp]: "sizes_ok (m\<lparr>slots := (slots m)[i := s]\<rparr>) = sizes_ok m"
  by (simp add: sizes_ok_def)

lemma tables_ok_set_slot [simp]: "tables_ok (set_slot i s S) = tables_ok S"
  by (rule tables_ok_cong) simp_all

lemma working_set_slot:
  assumes "pool_ok_but w hold S" "w = None \<or> w = Some i" "i < length (slots (pm S))" "slot_conn s = slot_conn (slot_at S i)"
  shows "working i hold (set_slot i s S)"
  using assms distinct_slot_conns_update [of "pm S" i s] apart_update [of "pm S" i s]
  by (auto simp: pool_ok_but_def refs_same_conn mem_ok_heap_eq [of "set_slot i s S" S] slot_ok_cong [of "set_slot i s S" S])

lemma pool_ok_set_slot:
  assumes "pool_ok_but w hold S" "w = None \<or> w = Some i" "i < length (slots (pm S))" "slot_conn s = slot_conn (slot_at S i)" "slot_ok S s"
  shows "pool_ok hold (set_slot i s S)"
  by (rule pool_okI [OF working_set_slot [OF assms(1-4)]])
    (use assms(3,5) in \<open>simp add: slot_ok_cong [of "set_slot i s S" S]\<close>)

lemma working_take_out:
  assumes "pool_ok_but w hold S" "w = None \<or> w = Some i" "i < length (slots (pm S))" "slot_conn s = 0"
    "slot_conn (slot_at S i) = p" "p \<noteq> 0"
  shows "working i (hold(p := Suc (hold p))) (set_slot i s S) \<and> slot_count (pm (set_slot i s S)) p = 0"
proof
  show "working i (hold(p := Suc (hold p))) (set_slot i s S)"
    using assms distinct_slot_conns_update [of "pm S" i s] apart_update [of "pm S" i s] refs_take_out [OF assms(3-6)]
    by (auto simp: pool_ok_but_def mem_ok_heap_eq [of "set_slot i s S" S] slot_ok_cong [of "set_slot i s S" S])
  have "slot_conn (slot_at (set_slot i s S) j) \<noteq> p" if "j < length (slots (pm S))" for j
  proof (cases "j = i")
    case False
    with that distinct_slot_conns [of "pm S" i j] assms show ?thesis by (auto simp: pool_ok_but_def)
  qed (use assms in simp)
  then show "slot_count (pm (set_slot i s S)) p = 0"
    unfolding slot_count_def count_list_pos by (fastforce simp: in_set_conv_nth)
qed

lemma taken_unregistered:
  assumes "pool_ok_but w hold S" "i < length (slots (pm S))" "slot_conn (slot_at S i) = p" "p \<noteq> 0"
  shows "reg_count (pm (set_slot j s S)) p = 0"
  using apart_slot [of "pm S" i] assms by (simp add: pool_ok_but_def reg_count_def)

lemma working_put_in:
  assumes "working i (hold(p := Suc (hold p))) S" "i < length (slots (pm S))" "slot_conn (slot_at S i) = 0"
    "slot_conn s = p" "p \<noteq> 0" "slot_count (pm S) p = 0" "reg_count (pm S) p = 0"
  shows "working i hold (set_slot i s S)"
  using assms distinct_slot_conns_update [of "pm S" i s] apart_update [of "pm S" i s] refs_put_in [OF assms(2-5)]
  by (auto simp: pool_ok_but_def mem_ok_heap_eq [of "set_slot i s S" S] slot_ok_cong [of "set_slot i s S" S])

text \<open>
  A connection that changes in place: the one of the slot being worked on, which no other
  slot has, or one that stays active.
\<close>

lemma pool_same_pm:
  "pool_same S S' \<Longrightarrow> slots (pm S') = slots (pm S) \<and> registry (pm S') = registry (pm S) \<and> db_to_pool (pm S') = db_to_pool (pm S)
     \<and> configured_size (pm S') = configured_size (pm S) \<and> configured_max_size (pm S') = configured_max_size (pm S)
     \<and> idle_timeout_secs (pm S') = idle_timeout_secs (pm S) \<and> last_reap_time (pm S') = last_reap_time (pm S)
     \<and> library_db_path (pm S') = library_db_path (pm S) \<and> init_pid (pm S') = init_pid (pm S)"
proof -
  assume "pool_same S S'"
  then obtain l where "pm S' = (pm S)\<lparr>live_pool_conns := l\<rparr>" unfolding pool_same_def by blast
  then show ?thesis by simp
qed

lemma sizes_ok_same: "pool_same S S' \<Longrightarrow> sizes_ok (pm S') = sizes_ok (pm S)"
  by (frule pool_same_pm) (simp add: sizes_ok_def)

lemma refs_same: "pool_same S S' \<Longrightarrow> refs hold (pm S') = refs hold (pm S)"
  using pool_same_pm by (intro refs_pm_cong) auto

lemma slot_conns_same: "pool_same S S' \<Longrightarrow> slot_conns (pm S') = slot_conns (pm S)"
  by (frule pool_same_pm) (simp add: slot_conns_def)

lemma apart_same: "pool_same S S' \<Longrightarrow> apart (pm S') = apart (pm S)"
  by (frule pool_same_pm) (simp add: apart_def slot_conns_def)

lemma slot_ok_heap:
  "slot_ok S s \<Longrightarrow> (slot_conn s \<noteq> 0 \<Longrightarrow> heap S' (slot_conn s) = heap S (slot_conn s)) \<Longrightarrow> slot_ok S' s"
  by (auto simp: slot_ok_def active_def)

lemma pool_ok_same_heap:
  assumes "pool_ok_but w hold S" "pool_same S S'" "heap S' = heap S"
  shows "pool_ok_but w hold S'"
  using assms pool_same_pm [OF assms(2)]
  by (auto simp: pool_ok_but_def sizes_ok_same refs_same slot_conns_same apart_same mem_ok_heap_eq [of S' S] slot_ok_cong [of S' S] pool_same_def)

lemma working_conn_step:
  assumes w: "working i hold S" and i: "i < length (slots (pm S))" and p: "p = slot_conn (slot_at S i)" "p \<noteq> 0"
    and step: "conn_step p S S'"
  shows "working i hold S'"
proof -
  have same: "pool_same S S'" using step by (simp add: conn_step_def)
  note pm = pool_same_pm [OF same]
  have "slot_ok S' (slot_at S' j)" if "j < length (slots (pm S'))" "j \<noteq> i" for j
  proof (rule slot_ok_heap [of S])
    show "slot_ok S (slot_at S' j)" using w that pm by (auto simp: pool_ok_but_def)
    assume nz: "slot_conn (slot_at S' j) \<noteq> 0"
    then have "slot_conn (slot_at S' j) \<noteq> p"
      using distinct_slot_conns [of "pm S" j i] w that i p pm by (auto simp: pool_ok_but_def)
    then show "heap S' (slot_conn (slot_at S' j)) = heap S (slot_conn (slot_at S' j))" by (rule conn_step_other [OF step])
  qed
  then show ?thesis
    using w same conn_step_mem [OF step]
    by (auto simp: pool_ok_but_def sizes_ok_same refs_same slot_conns_same apart_same pool_same_def)
qed

lemma working_created:
  assumes w: "pool_ok_but v hold S" and new: "created p S S'"
  shows "pool_ok_but v (if p = 0 then hold else hold(p := Suc (hold p))) S'
    \<and> (p \<noteq> 0 \<longrightarrow> slot_count (pm S') p = 0 \<and> reg_count (pm S') p = 0)"
proof -
  have same: "pool_same S S'" using new by (simp add: created_def)
  note pm = pool_same_pm [OF same]
  have mem: "mem_ok (if p = 0 then refs hold (pm S) else (refs hold (pm S))(p := Suc (refs hold (pm S) p))) S'"
    and fresh: "p \<noteq> 0 \<Longrightarrow> refs hold (pm S) p = 0"
    using created_mem [OF new, of "refs hold (pm S)"] w by (auto simp: pool_ok_but_def)
  have "slot_ok S' (slot_at S' j)" if "j < length (slots (pm S'))" "v \<noteq> Some j" for j
  proof (rule slot_ok_heap [of S])
    show ok: "slot_ok S (slot_at S' j)" using w that pm by (auto simp: pool_ok_but_def)
    assume nz: "slot_conn (slot_at S' j) \<noteq> 0"
    have "0 < slot_count (pm S) (slot_conn (slot_at S' j))" using slot_count_at [of j "pm S"] that pm by simp
    then have "p \<noteq> 0 \<Longrightarrow> slot_conn (slot_at S' j) \<noteq> p" using fresh by (auto simp: refs_def)
    with nz new show "heap S' (slot_conn (slot_at S' j)) = heap S (slot_conn (slot_at S' j))"
      by (auto simp: created_def split: if_splits)
  qed
  moreover have "p \<noteq> 0 \<Longrightarrow> slot_count (pm S') p = 0 \<and> reg_count (pm S') p = 0"
    using fresh pm by (simp add: refs_def slot_count_def reg_count_def)
  ultimately show ?thesis
    using w same mem refs_hold [of p hold "pm S"]
    by (cases "p = 0") (auto simp: pool_ok_but_def sizes_ok_same refs_same slot_conns_same apart_same pool_same_def)
qed

lemma destroy_working:
  assumes w: "pool_ok_but v (hold(p := Suc (hold p))) S" and p: "p \<noteq> 0" and out: "slot_count (pm S) p = 0"
  shows "returns (destroy_pool_connection L p S) (\<lambda>S'. pool_ok_but v hold S' \<and> pool_same S S'
    \<and> (\<forall>q. q \<noteq> p \<longrightarrow> heap S' q = heap S q))"
proof -
  let ?R = "refs (hold(p := Suc (hold p))) (pm S)"
  have mem: "mem_ok ?R S" using w by (simp add: pool_ok_but_def)
  have R: "?R = (refs hold (pm S))(p := Suc (refs hold (pm S) p))" by (rule refs_hold [OF p])
  then have "0 < ?R p" by simp
  from returnsD [OF destroy_pool_connection_mem [OF mem this, of L]]
  obtain S' where S': "destroy_pool_connection L p S = Some S'"
    "pool_same S S'" "mem_ok (?R(p := ?R p - 1)) S'" "\<forall>q. q \<noteq> p \<longrightarrow> heap S' q = heap S q"
    by blast
  have "?R(p := ?R p - 1) = refs hold (pm S)" by (simp add: R)
  with S'(3) have mem': "mem_ok (refs hold (pm S')) S'" by (simp add: refs_same [OF S'(2)])
  note pm = pool_same_pm [OF S'(2)]
  have "slot_ok S' (slot_at S' j)" if "j < length (slots (pm S'))" "v \<noteq> Some j" for j
  proof (rule slot_ok_heap [of S])
    show "slot_ok S (slot_at S' j)" using w that pm by (auto simp: pool_ok_but_def)
    have "0 < slot_count (pm S) (slot_conn (slot_at S' j))" using slot_count_at [of j "pm S"] that pm by simp
    then have "slot_conn (slot_at S' j) \<noteq> p" using out by auto
    then show "heap S' (slot_conn (slot_at S' j)) = heap S (slot_conn (slot_at S' j))" using S'(4) by blast
  qed
  then have "pool_ok_but v hold S'"
    using w S'(2) mem' by (auto simp: pool_ok_but_def sizes_ok_same slot_conns_same apart_same pool_same_def)
  with S' show ?thesis by (auto intro: returnsI)
qed

end
