(* ===== verification/Pool_Acquire.thy ===== *)
theory Pool_Acquire
  imports Conn_Lifecycle
begin

text \<open>
  Acquiring a pooled connection: path selection, the maintenance pass, the five phases and
  the retry (\<^verbatim>\<open>pg_client/pool_acquire/\<close>). A phase either answers (\<open>Return\<close>, possibly with
  null) or passes on (\<open>Continue\<close>). The scans over the slots are one combinator,
  \<open>for_slots\<close>, with its invariant rule.
\<close>

section \<open>Paths\<close>

definition LIBRARY_DB :: string where "LIBRARY_DB = ''com.plexapp.plugins.library.db''"
definition BLOBS_DB :: string where "BLOBS_DB = ''com.plexapp.plugins.library.blobs.db''"

definition option_filter :: "('a \<Rightarrow> bool) \<Rightarrow> 'a option \<Rightarrow> 'a option" where
  "option_filter P x = (case x of None \<Rightarrow> None | Some v \<Rightarrow> if P v then Some v else None)"

definition select_library_pool_path :: "string \<Rightarrow> string option \<Rightarrow> string option" where
  "select_library_pool_path raw_path cached_library_path =
     (if is_library_db raw_path then Some raw_path
      else if is_blobs_db raw_path then
        (case option_filter is_library_db cached_library_path of
           Some path \<Rightarrow> Some path
         | None \<Rightarrow> map_option (\<lambda>pfx. pfx @ LIBRARY_DB) (strip_suffix BLOBS_DB raw_path))
      else if raw_path \<noteq> [] then None
      else option_filter is_library_db cached_library_path)"

definition resolve_selected_pool_path :: "string \<Rightarrow> 'w shim \<Rightarrow> string option" where
  "resolve_selected_pool_path raw_path S =
     (let cached_path = (if raw_path = [] then library_db_path (pm S) else None)
      in case select_library_pool_path raw_path cached_path of
           None \<Rightarrow> None
         | Some selected \<Rightarrow> if is_library_db selected then Some selected else None)"

definition remember_library_path :: "string \<Rightarrow> 'w shim \<Rightarrow> 'w shim" where
  "remember_library_path selected S =
     (if library_db_path (pm S) = None \<and> selected \<noteq> []
      then S\<lparr>pm := (pm S)\<lparr>library_db_path := Some selected\<rparr>\<rparr> else S)"

section \<open>What the phases share\<close>

record AcquireCtx =
  current_thread :: tid
  now :: int
  ctx_pool_size :: usize
  ctx_path :: string
  exclude_conn :: ptr

datatype AcquireDecision = Continue | Return ptr

fun for_slots :: "(usize \<Rightarrow> 's \<Rightarrow> (AcquireDecision \<times> 's) option) \<Rightarrow> usize list \<Rightarrow> 's \<Rightarrow> (AcquireDecision \<times> 's) option" where
  "for_slots body [] S = Some (Continue, S)"
| "for_slots body (i # is) S =
     do {
       (d, S) \<leftarrow> body i S;
       case d of Return conn \<Rightarrow> Some (Return conn, S) | Continue \<Rightarrow> for_slots body is S
     }"

definition claim_slot_for_thread :: "AcquireCtx \<Rightarrow> PoolSlot \<Rightarrow> PoolSlot" where
  "claim_slot_for_thread ctx s =
     s\<lparr>owner_thread := current_thread ctx, slot_last_used := now ctx, generation := generation s + 1\<rparr>"

definition cache_existing_ready_slot :: "AcquireCtx \<Rightarrow> usize \<Rightarrow> ptr \<Rightarrow> 'w shim \<Rightarrow> AcquireDecision \<times> 'w shim" where
  "cache_existing_ready_slot ctx idx conn S =
     (let S = set_slot idx ((slot_at S idx)\<lparr>slot_last_used := now ctx\<rparr>) S
      in (Return conn, tls_pool_cache_set (current_thread ctx) 0 (of_nat idx) (generation (slot_at S idx)) S))"

definition mark_ready_and_cache_slot :: "AcquireCtx \<Rightarrow> usize \<Rightarrow> ptr \<Rightarrow> 'w shim \<Rightarrow> AcquireDecision \<times> 'w shim" where
  "mark_ready_and_cache_slot ctx idx conn S =
     (let S = set_slot idx (mark_ready (slot_at S idx)) S
      in (Return conn, tls_pool_cache_set (current_thread ctx) 0 (of_nat idx) (generation (slot_at S idx)) S))"

definition release_failed_new_connection :: "'w libpq \<Rightarrow> usize \<Rightarrow> ptr \<Rightarrow> 'w shim \<Rightarrow> 'w shim option" where
  "release_failed_new_connection L i new_conn S =
     do {
       S \<leftarrow> (if is_null new_conn then Some S else destroy_pool_connection L new_conn S);
       Some (set_slot i (slot_release ((slot_at S i)\<lparr>slot_conn := 0, owner_thread := 0\<rparr>)) S)
     }"

text \<open>The end of phases 3, 4 and 5: create a connection for a claimed, empty slot.\<close>

definition create_into_slot :: "'w libpq \<Rightarrow> AcquireCtx \<Rightarrow> usize \<Rightarrow> 'w shim \<Rightarrow> (AcquireDecision \<times> 'w shim) option" where
  "create_into_slot L ctx i S =
     do {
       (new_conn, S) \<leftarrow> create_pool_connection L (ctx_path ctx) S;
       active \<leftarrow> conn_is_pg_active_ptr new_conn S;
       if \<not> is_null new_conn \<and> active
       then Some (mark_ready_and_cache_slot ctx i new_conn (set_slot i ((slot_at S i)\<lparr>slot_conn := new_conn\<rparr>) S))
       else do { S \<leftarrow> release_failed_new_connection L i new_conn S; Some (Continue, S) }
     }"

section \<open>Phase 1: a slot the thread already has\<close>

definition fast_path_hit :: "'w libpq \<Rightarrow> AcquireCtx \<Rightarrow> usize \<Rightarrow> u32 \<Rightarrow> 'w shim \<Rightarrow> bool option" where
  "fast_path_hit L ctx idx gen S =
     (if idx < ctx_pool_size ctx then
        (let s = slot_at S idx in
         if slot_state s = SLOT_READY \<and> generation s = gen \<and> threads_equal (owner_thread s) (current_thread ctx)
         then if slot_conn s = exclude_conn ctx then Some False
              else if is_null (slot_conn s) then Some False
              else do {
                ok \<leftarrow> check_conn_ok L (slot_conn s) S;
                if ok then map_option (\<lambda>streaming. \<not> streaming) (conn_is_streaming_active_ptr (slot_conn s) S)
                else Some False
              }
         else Some False)
      else Some False)"

definition phase1_fast :: "'w libpq \<Rightarrow> AcquireCtx \<Rightarrow> 'w shim \<Rightarrow> (AcquireDecision \<times> 'w shim) option" where
  "phase1_fast L ctx S =
     (case tls_pool_cache_get (current_thread ctx) 0 S of
        None \<Rightarrow> Some (Continue, S)
      | Some (idx, gen) \<Rightarrow> do {
          hit \<leftarrow> fast_path_hit L ctx (unat idx) gen S;
          Some (if hit then cache_existing_ready_slot ctx (unat idx) (slot_conn (slot_at S (unat idx))) S
                else (Continue, tls_pool_cache_clear (current_thread ctx) S))
        })"

definition phase1_slot :: "'w libpq \<Rightarrow> AcquireCtx \<Rightarrow> usize \<Rightarrow> 'w shim \<Rightarrow> (AcquireDecision \<times> 'w shim) option" where
  "phase1_slot L ctx i S =
     (let s = slot_at S i; conn = slot_conn s in
      if slot_state s \<noteq> SLOT_READY then Some (Continue, S)
      else if \<not> threads_equal (owner_thread s) (current_thread ctx) then Some (Continue, S)
      else if conn = exclude_conn ctx then Some (Continue, S)
      else do {
        ok \<leftarrow> check_conn_ok L conn S;
        if \<not> is_null conn \<and> ok then do {
          streaming \<leftarrow> conn_is_streaming_active_ptr conn S;
          if streaming then Some (Continue, S) else Some (cache_existing_ready_slot ctx i conn S)
        }
        else do {
          let (began, s) = try_begin_reconnect s;
          if \<not> began then Some (Continue, S)
          else do {
            S \<leftarrow> rust_stmt_cache_clear L conn (set_slot i s S);
            (ok, S) \<leftarrow> reconnect_conn L conn S;
            Some (if ok then mark_ready_and_cache_slot ctx i conn S
                  else (Return 0, set_slot i (mark_error (slot_at S i)) S))
          }
        }
      })"

definition phase1_existing_ready :: "'w libpq \<Rightarrow> AcquireCtx \<Rightarrow> 'w shim \<Rightarrow> (AcquireDecision \<times> 'w shim) option" where
  "phase1_existing_ready L ctx S =
     do {
       (d, S) \<leftarrow> phase1_fast L ctx S;
       case d of Return conn \<Rightarrow> Some (Return conn, S)
       | Continue \<Rightarrow> for_slots (phase1_slot L ctx) [0..<ctx_pool_size ctx] S
     }"

section \<open>Phase 2: a free slot with a connection\<close>

definition phase2_reconnect :: "'w libpq \<Rightarrow> AcquireCtx \<Rightarrow> usize \<Rightarrow> ptr \<Rightarrow> 'w shim \<Rightarrow> (AcquireDecision \<times> 'w shim) option" where
  "phase2_reconnect L ctx i conn S =
     do {
       S \<leftarrow> rust_stmt_cache_clear L conn S;
       (ok, S) \<leftarrow> reconnect_conn L conn S;
       active \<leftarrow> conn_is_pg_active_ptr conn S;
       Some (if ok \<and> active then mark_ready_and_cache_slot ctx i conn S
             else (Continue, set_slot i (mark_error (slot_at S i)) S))
     }"

definition phase2_reset :: "'w libpq \<Rightarrow> AcquireCtx \<Rightarrow> usize \<Rightarrow> ptr \<Rightarrow> 'w shim \<Rightarrow> (AcquireDecision \<times> 'w shim) option" where
  "phase2_reset L ctx i conn S =
     do {
       txn \<leftarrow> get_txn_status L conn S;
       (_, S) \<leftarrow> (if txn = PQTRANS_INTRANS \<or> txn = PQTRANS_INERROR then exec_simple L conn ''ROLLBACK'' S else Some (True, S));
       S \<leftarrow> rust_stmt_cache_clear L conn S;
       (ok, S) \<leftarrow> reset_conn L conn S;
       if ok then Some (mark_ready_and_cache_slot ctx i conn S) else phase2_reconnect L ctx i conn S
     }"

definition phase2_slot :: "'w libpq \<Rightarrow> AcquireCtx \<Rightarrow> usize \<Rightarrow> 'w shim \<Rightarrow> (AcquireDecision \<times> 'w shim) option" where
  "phase2_slot L ctx i S =
     (let s = slot_at S i; conn = slot_conn s in
      if is_null conn \<or> conn = exclude_conn ctx then Some (Continue, S)
      else do {
        streaming \<leftarrow> conn_is_streaming_active_ptr conn S;
        if streaming then Some (Continue, S)
        else let (claimed, s1) = try_claim_free_with_conn conn s in
          if \<not> claimed then Some (Continue, S)
          else phase2_reset L ctx i conn (set_slot i (claim_slot_for_thread ctx s1) S)
      })"

definition phase2_reuse_existing :: "'w libpq \<Rightarrow> AcquireCtx \<Rightarrow> 'w shim \<Rightarrow> (AcquireDecision \<times> 'w shim) option" where
  "phase2_reuse_existing L ctx S = for_slots (phase2_slot L ctx) [0..<ctx_pool_size ctx] S"

section \<open>Phases 3, 4 and 5: a new connection\<close>

definition phase3_slot :: "'w libpq \<Rightarrow> AcquireCtx \<Rightarrow> usize \<Rightarrow> 'w shim \<Rightarrow> (AcquireDecision \<times> 'w shim) option" where
  "phase3_slot L ctx i S =
     (let s = slot_at S i in
      if \<not> is_null (slot_conn s) then Some (Continue, S)
      else let (claimed, s1) = try_claim_free_with_conn 0 s in
        if \<not> claimed then Some (Continue, S)
        else create_into_slot L ctx i (set_slot i (claim_slot_for_thread ctx s1) S))"

definition phase3_create_empty :: "'w libpq \<Rightarrow> AcquireCtx \<Rightarrow> 'w shim \<Rightarrow> (AcquireDecision \<times> 'w shim) option" where
  "phase3_create_empty L ctx S = for_slots (phase3_slot L ctx) [0..<ctx_pool_size ctx] S"

definition phase4_slot :: "'w libpq \<Rightarrow> AcquireCtx \<Rightarrow> usize \<Rightarrow> 'w shim \<Rightarrow> (AcquireDecision \<times> 'w shim) option" where
  "phase4_slot L ctx i S =
     (let (reclaimed, s) = try_reclaim_error (slot_at S i) in
      if \<not> reclaimed then Some (Continue, S)
      else do {
        let s = claim_slot_for_thread ctx s;
        let old_conn = slot_conn s;
        let S = set_slot i (s\<lparr>slot_conn := 0\<rparr>) S;
        S \<leftarrow> (if is_null old_conn then Some S else destroy_pool_connection L old_conn S);
        create_into_slot L ctx i S
      })"

definition phase4_reclaim_error :: "'w libpq \<Rightarrow> AcquireCtx \<Rightarrow> 'w shim \<Rightarrow> (AcquireDecision \<times> 'w shim) option" where
  "phase4_reclaim_error L ctx S = for_slots (phase4_slot L ctx) [0..<ctx_pool_size ctx] S"

definition phase5_autogrow :: "'w libpq \<Rightarrow> AcquireCtx \<Rightarrow> 'w shim \<Rightarrow> (AcquireDecision \<times> 'w shim) option" where
  "phase5_autogrow L ctx S =
     (let current_size = configured_size (pm S); runtime_max = pool_max (pm S) in
      if runtime_max \<le> current_size then Some (Continue, S)
      else
        let new_size = current_size + 1; S = S\<lparr>pm := (pm S)\<lparr>configured_size := new_size\<rparr>\<rparr>; idx = new_size - 1 in
        if length (slots (pm S)) \<le> idx then Some (Continue, S)
        else let (claimed, s) = try_claim_free_with_conn 0 (slot_at S idx) in
          if \<not> claimed then Some (Continue, S)
          else create_into_slot L ctx idx (set_slot idx (claim_slot_for_thread ctx s) S))"

section \<open>The maintenance pass\<close>

definition REAP_INTERVAL_SECS :: int where "REAP_INTERVAL_SECS = 60"

definition maintenance_due :: "PoolManager \<Rightarrow> int \<Rightarrow> bool" where
  "maintenance_due m t \<longleftrightarrow> REAP_INTERVAL_SECS \<le> t - last_reap_time m"

definition reclaim_slot :: "int \<Rightarrow> usize \<Rightarrow> 'w shim \<Rightarrow> 'w shim option" where
  "reclaim_slot t i S =
     (let s = slot_at S i in
      if slot_state s \<noteq> SLOT_READY then Some S
      else if \<not> zombie_reclaimable (slot_is_referenced (pm S) i) (t - slot_last_used s) (int (idle_timeout_secs (pm S)))
      then Some S
      else do {
        streaming \<leftarrow> (if is_null (slot_conn s) then Some False else conn_is_streaming_active_ptr (slot_conn s) S);
        if streaming then Some S else Some (set_slot i (snd (try_reclaim_zombie s)) S)
      })"

fun reclaim_slots :: "int \<Rightarrow> usize list \<Rightarrow> 'w shim \<Rightarrow> 'w shim option" where
  "reclaim_slots t [] S = Some S"
| "reclaim_slots t (i # is) S = do { S \<leftarrow> reclaim_slot t i S; reclaim_slots t is S }"

fun destroy_all :: "'w libpq \<Rightarrow> (usize \<times> ptr) list \<Rightarrow> 'w shim \<Rightarrow> 'w shim option" where
  "destroy_all L [] S = Some S"
| "destroy_all L ((_, conn) # ds) S = do { S \<leftarrow> destroy_pool_connection L conn S; destroy_all L ds S }"

definition reclaim_zombies_and_reap :: "'w libpq \<Rightarrow> AcquireCtx \<Rightarrow> 'w shim \<Rightarrow> 'w shim option" where
  "reclaim_zombies_and_reap L ctx S =
     do {
       S \<leftarrow> reclaim_slots (now ctx) [0..<ctx_pool_size ctx] S;
       if now ctx - last_reap_time (pm S) < REAP_INTERVAL_SECS then Some S
       else
         let m = (pm S)\<lparr>last_reap_time := now ctx\<rparr>; (to_destroy, m) = reap_idle (now ctx) m
         in destroy_all L to_destroy (S\<lparr>pm := m\<rparr>)
     }"

section \<open>The acquire\<close>

text \<open>
  One round of the acquire: the maintenance pass when it is due, then the phases in their
  order, with the pass once more before the first phase that takes a slot from the pool.
\<close>

definition acquire_phases :: "'w libpq \<Rightarrow> AcquireCtx \<Rightarrow> 'w shim \<Rightarrow> (AcquireDecision \<times> 'w shim) option" where
  "acquire_phases L ctx S =
     do {
       S \<leftarrow> (if maintenance_due (pm S) (now ctx) then reclaim_zombies_and_reap L ctx S else Some S);
       (d, S) \<leftarrow> phase1_existing_ready L ctx S;
       case d of Return conn \<Rightarrow> Some (Return conn, S) | Continue \<Rightarrow> do {
         S \<leftarrow> reclaim_zombies_and_reap L ctx S;
         (d, S) \<leftarrow> phase2_reuse_existing L ctx S;
         case d of Return conn \<Rightarrow> Some (Return conn, S) | Continue \<Rightarrow> do {
           (d, S) \<leftarrow> phase3_create_empty L ctx S;
           case d of Return conn \<Rightarrow> Some (Return conn, S) | Continue \<Rightarrow> do {
             (d, S) \<leftarrow> phase4_reclaim_error L ctx S;
             case d of Return conn \<Rightarrow> Some (Return conn, S) | Continue \<Rightarrow> phase5_autogrow L ctx S
           }
         }
       }
     }"

definition acquire_ctx :: "'w libpq \<Rightarrow> tid \<Rightarrow> string \<Rightarrow> ptr \<Rightarrow> 'w shim \<Rightarrow> AcquireCtx" where
  "acquire_ctx L t path exclude S =
     \<lparr>current_thread = t, now = unix_time L (world S), ctx_pool_size = pool_size (pm S), ctx_path = path, exclude_conn = exclude\<rparr>"

definition retry_count_set :: "tid \<Rightarrow> nat \<Rightarrow> 'w shim \<Rightarrow> 'w shim" where
  "retry_count_set t n S = S\<lparr>retry_count := (retry_count S)(t := n)\<rparr>"

definition sleep_ms :: "'w libpq \<Rightarrow> int \<Rightarrow> 'w shim \<Rightarrow> 'w shim" where
  "sleep_ms L ms S = (if ms \<le> 0 then S else S\<lparr>world := usleep L ms (world S)\<rparr>)"

text \<open>
  \<open>fuel\<close> bounds the depth of the retries; running out of it is \<open>None\<close>, and
  \<open>acquire_on\<close> starts with one more than there can be delays.
\<close>

fun acquire_fuel :: "nat \<Rightarrow> 'w libpq \<Rightarrow> tid \<Rightarrow> string \<Rightarrow> ptr \<Rightarrow> 'w shim \<Rightarrow> (ptr \<times> 'w shim) option" where
  "acquire_fuel 0 L t path exclude S = None"
| "acquire_fuel (Suc fuel) L t path exclude S =
     (case resolve_selected_pool_path path S of
        None \<Rightarrow> Some (0, S)
      | Some selected \<Rightarrow> do {
          let S = remember_library_path selected S;
          (d, S) \<leftarrow> acquire_phases L (acquire_ctx L t selected exclude S) S;
          case d of Return conn \<Rightarrow> Some (conn, S)
          | Continue \<Rightarrow>
              (let rc = retry_count S t; delays = get_retry_delays_vec (env S) in
               if rc < length delays then do {
                 let S = sleep_ms L (delays ! rc) (retry_count_set t (rc + 1) S);
                 (result, S) \<leftarrow> acquire_fuel fuel L t selected 0 S;
                 Some (result, if is_null result then S else retry_count_set t 0 S)
               }
               else Some (0, retry_count_set t 0 S))
        })"

definition acquire_on :: "'w libpq \<Rightarrow> tid \<Rightarrow> string \<Rightarrow> ptr \<Rightarrow> 'w shim \<Rightarrow> (ptr \<times> 'w shim) option" where
  "acquire_on L t path exclude S = acquire_fuel (Suc (length (get_retry_delays_vec (env S)))) L t path exclude S"

end
