(* ===== verification/Pool_Phases.thy ===== *)
theory Pool_Phases
  imports Pool_Invariant Pool_Acquire
begin

text \<open>
  Correctness of the acquire phases of \<open>Pool_Acquire\<close> over the invariant of
  \<open>Pool_Invariant\<close>. Every phase has the same contract, the locale \<open>acquire_phase\<close>: from a
  sound pool it returns (it follows no dangling pointer), leaves the pool sound, leaves
  every slot that is in use by another thread and that slot's connection as they are, and
  what it answers is null or a connection the thread now owns. The contract is closed under
  running one phase after another, so it holds of the chain of phases too.
\<close>

text \<open>Fields of the pool manager that the invariant does not mention.\<close>

lemma pool_ok_pm:
  assumes "pool_ok_but v hold S" "sizes_ok m" "slots m = slots (pm S)" "registry m = registry (pm S)"
  shows "pool_ok_but v hold (S\<lparr>pm := m\<rparr>)"
proof -
  have [simp]: "mem_ok R (S\<lparr>pm := m\<rparr>) = mem_ok R S" for R by (rule mem_ok_heap_eq) simp
  have [simp]: "slot_ok (S\<lparr>pm := m\<rparr>) s = slot_ok S s" for s by (rule slot_ok_cong) simp
  have [simp]: "tables_ok (S\<lparr>pm := m\<rparr>) = tables_ok S" by (rule tables_ok_cong) simp_all
  have [simp]: "slot_conns m = slot_conns (pm S)" "apart m = apart (pm S)" using assms(3,4) by (simp_all add: slot_conns_def apart_def)
  show ?thesis using assms refs_pm_cong [OF assms(3,4), of hold] by (auto simp: pool_ok_but_def)
qed

section \<open>What a phase leaves alone\<close>

text \<open>A slot in use by another thread than \<open>t\<close>.\<close>

definition protected :: "tid \<Rightarrow> PoolSlot \<Rightarrow> bool" where
  "protected t s \<longleftrightarrow> slot_state s = SLOT_READY \<and> owner_thread s \<noteq> t"

definition phase_rel :: "tid \<Rightarrow> 'w shim \<Rightarrow> 'w shim \<Rightarrow> bool" where
  "phase_rel t S S' \<longleftrightarrow> length (slots (pm S')) = length (slots (pm S)) \<and> registry (pm S') = registry (pm S)
     \<and> db_to_pool (pm S') = db_to_pool (pm S) \<and> configured_max_size (pm S') = configured_max_size (pm S)
     \<and> configured_size (pm S) \<le> configured_size (pm S') \<and> library_db_path (pm S') = library_db_path (pm S)
     \<and> init_pid (pm S') = init_pid (pm S) \<and> config S' = config S \<and> env S' = env S \<and> retry_count S' = retry_count S
     \<and> (\<forall>u. u \<noteq> t \<longrightarrow> tls_pool_cache S' u = tls_pool_cache S u)
     \<and> (\<forall>p. p \<noteq> 0 \<longrightarrow> 0 < reg_count (pm S) p \<longrightarrow> heap S' p = heap S p)
     \<and> (\<forall>j<length (slots (pm S)). protected t (slot_at S j) \<longrightarrow>
          slot_at S' j = slot_at S j \<and> heap S' (slot_conn (slot_at S j)) = heap S (slot_conn (slot_at S j)))"

lemma phase_rel_refl [simp]: "phase_rel t S S"
  by (simp add: phase_rel_def)

lemma phase_rel_trans:
  assumes "phase_rel t S S'" "phase_rel t S' S''"
  shows "phase_rel t S S''"
proof -
  have "slot_at S'' j = slot_at S j \<and> heap S'' (slot_conn (slot_at S j)) = heap S (slot_conn (slot_at S j))"
    if "j < length (slots (pm S))" "protected t (slot_at S j)" for j
  proof -
    have 1: "slot_at S' j = slot_at S j" "heap S' (slot_conn (slot_at S j)) = heap S (slot_conn (slot_at S j))"
      "length (slots (pm S')) = length (slots (pm S))"
      using assms(1) that by (auto simp: phase_rel_def)
    with assms(2) that have "slot_at S'' j = slot_at S' j" "heap S'' (slot_conn (slot_at S' j)) = heap S' (slot_conn (slot_at S' j))"
      unfolding phase_rel_def by metis+
    with 1 show ?thesis by simp
  qed
  moreover have "reg_count (pm S') = reg_count (pm S)" using assms(1) by (simp add: phase_rel_def reg_count_def fun_eq_iff)
  ultimately show ?thesis using assms by (simp add: phase_rel_def)
qed

lemma rel_set_slot: "\<not> protected t (slot_at S i) \<Longrightarrow> phase_rel t S (set_slot i s S)"
  by (auto simp: phase_rel_def intro!: nth_list_update_neq)

lemma rel_tls_set [simp]: "phase_rel t S (tls_pool_cache_set t h idx gen S)"
  by (simp add: phase_rel_def tls_pool_cache_set_def)

lemma rel_tls_clear [simp]: "phase_rel t S (tls_pool_cache_clear t S)"
  by (simp add: phase_rel_def tls_pool_cache_clear_def)

lemma rel_same:
  assumes "pool_same S S'"
    and "\<And>j. j < length (slots (pm S)) \<Longrightarrow> protected t (slot_at S j) \<Longrightarrow>
      heap S' (slot_conn (slot_at S j)) = heap S (slot_conn (slot_at S j))"
    and "\<And>p. p \<noteq> 0 \<Longrightarrow> 0 < reg_count (pm S) p \<Longrightarrow> heap S' p = heap S p"
  shows "phase_rel t S S'"
  using assms pool_same_pm [OF assms(1)] by (auto simp: phase_rel_def pool_same_def)

lemma rel_conn_step:
  assumes w: "pool_ok_but v hold S" and i: "i < length (slots (pm S))" "\<not> protected t (slot_at S i)"
    and p: "p = slot_conn (slot_at S i)" "p \<noteq> 0" and step: "conn_step p S S'"
  shows "phase_rel t S S'"
proof (rule rel_same)
  show "pool_same S S'" using step by (simp add: conn_step_def)
  fix j assume j: "j < length (slots (pm S))" "protected t (slot_at S j)"
  have "slot_conn (slot_at S j) \<noteq> p"
  proof
    assume "slot_conn (slot_at S j) = p"
    moreover have "j \<noteq> i" using i(2) j(2) by blast
    ultimately show False using distinct_slot_conns [of "pm S" i j] w i j p by (auto simp: pool_ok_but_def)
  qed
  then show "heap S' (slot_conn (slot_at S j)) = heap S (slot_conn (slot_at S j))" by (rule conn_step_other [OF step])
next
  fix q assume "0 < reg_count (pm S) q"
  moreover have "reg_count (pm S) p = 0" using apart_slot [of "pm S" i] w i p by (auto simp: pool_ok_but_def)
  ultimately have "q \<noteq> p" by auto
  then show "heap S' q = heap S q" by (rule conn_step_other [OF step])
qed

lemma heap_slot_alloc:
  assumes "pool_ok_but v hold S" "j < length (slots (pm S))" "slot_conn (slot_at S j) \<noteq> 0"
  obtains c where "heap S (slot_conn (slot_at S j)) = Some c"
proof -
  have "0 < slot_count (pm S) (slot_conn (slot_at S j))" using slot_count_at [OF assms(2)] by simp
  then have "0 < refs hold (pm S) (slot_conn (slot_at S j))" using assms(3) by (simp add: refs_def)
  moreover have "mem_ok (refs hold (pm S)) S" using assms(1) by (simp add: pool_ok_but_def)
  ultimately show ?thesis using that mem_okD by blast
qed

lemma rel_created:
  assumes w: "pool_ok_but v hold S" and new: "created p S S'"
  shows "phase_rel t S S'"
proof (rule rel_same)
  show "pool_same S S'" using new by (simp add: created_def)
  fix j assume j: "j < length (slots (pm S))" "protected t (slot_at S j)"
  show "heap S' (slot_conn (slot_at S j)) = heap S (slot_conn (slot_at S j))"
  proof (cases "slot_conn (slot_at S j) = 0")
    case True
    then show ?thesis using new by (auto simp: created_def split: if_splits)
  next
    case False
    then obtain c where "heap S (slot_conn (slot_at S j)) = Some c" using heap_slot_alloc [OF w j(1)] by blast
    then show ?thesis using new by (auto simp: created_def split: if_splits)
  qed
next
  fix q assume "q \<noteq> 0" "0 < reg_count (pm S) q"
  then have "heap S q \<noteq> None" using mem_ok_alloc [of "refs hold (pm S)" S q] w by (auto simp: pool_ok_but_def refs_def)
  then show "heap S' q = heap S q" using new by (auto simp: created_def split: if_splits)
qed

lemma rel_destroyed:
  assumes "pool_same S S'" "\<forall>q. q \<noteq> p \<longrightarrow> heap S' q = heap S q" "slot_count (pm S) p = 0" "reg_count (pm S) p = 0"
  shows "phase_rel t S S'"
proof (rule rel_same [OF assms(1)])
  fix j assume "j < length (slots (pm S))"
  then have "slot_conn (slot_at S j) \<noteq> p" using slot_count_at [of j "pm S"] assms(3) by auto
  then show "heap S' (slot_conn (slot_at S j)) = heap S (slot_conn (slot_at S j))" using assms(2) by blast
next
  fix q assume "0 < reg_count (pm S) q"
  then have "q \<noteq> p" using assms(4) by auto
  then show "heap S' q = heap S q" using assms(2) by blast
qed

section \<open>What a phase grants\<close>

text \<open>
  The thread owns the slot, the slot is in use, its connection is allocated, active and not
  streaming, and the thread's cache points at the slot.
\<close>

definition granted :: "tid \<Rightarrow> ptr \<Rightarrow> 'w shim \<Rightarrow> bool" where
  "granted t conn S \<longleftrightarrow> (\<exists>i<pool_size (pm S). slot_conn (slot_at S i) = conn \<and> conn \<noteq> 0
     \<and> slot_state (slot_at S i) = SLOT_READY \<and> owner_thread (slot_at S i) = t
     \<and> tls_pool_cache S t = \<lparr>db_handle = 0, slot_index = of_nat i, cached_generation = generation (slot_at S i)\<rparr>
     \<and> (\<exists>c. heap S conn = Some c \<and> is_pg_active c \<noteq> 0 \<and> streaming_active c = 0))"

definition ctx_ok :: "(ptr \<Rightarrow> nat) \<Rightarrow> AcquireCtx \<Rightarrow> 'w shim \<Rightarrow> bool" where
  "ctx_ok hold ctx S \<longleftrightarrow> current_thread ctx \<noteq> 0 \<and> ctx_pool_size ctx \<le> pool_size (pm S)
     \<and> (exclude_conn ctx \<noteq> 0 \<longrightarrow> 0 < hold (exclude_conn ctx))"

definition phase_spec :: "(ptr \<Rightarrow> nat) \<Rightarrow> AcquireCtx \<Rightarrow> 'w shim \<Rightarrow> AcquireDecision \<times> 'w shim \<Rightarrow> bool" where
  "phase_spec hold ctx S = (\<lambda>(d, S'). pool_ok hold S' \<and> phase_rel (current_thread ctx) S S'
     \<and> (case d of Continue \<Rightarrow> True
        | Return conn \<Rightarrow> conn = 0 \<or> granted (current_thread ctx) conn S' \<and> conn \<noteq> exclude_conn ctx))"

lemma ctx_ok_rel: "ctx_ok hold ctx S \<Longrightarrow> phase_rel t S S' \<Longrightarrow> ctx_ok hold ctx S'"
  by (auto simp: ctx_ok_def phase_rel_def pool_size_def pool_max_def)

lemma phase_spec_continue [simp]:
  "phase_spec hold ctx S (Continue, S') \<longleftrightarrow> pool_ok hold S' \<and> phase_rel (current_thread ctx) S S'"
  by (simp add: phase_spec_def)

lemma phase_spec_from:
  "phase_rel (current_thread ctx) S S1 \<Longrightarrow> phase_spec hold ctx S1 r \<Longrightarrow> phase_spec hold ctx S r"
  using phase_rel_trans by (fastforce simp: phase_spec_def)

locale acquire_phase =
  fixes run :: "'w libpq \<Rightarrow> AcquireCtx \<Rightarrow> 'w shim \<Rightarrow> (AcquireDecision \<times> 'w shim) option"
  assumes phase: "calloc_fresh L \<Longrightarrow> pool_ok hold S \<Longrightarrow> ctx_ok hold ctx S \<Longrightarrow> returns (run L ctx S) (phase_spec hold ctx S)"
begin

lemma returns_sound:
  assumes "calloc_fresh L" "pool_ok hold S" "ctx_ok hold ctx S"
  obtains d S' where "run L ctx S = Some (d, S')" "pool_ok hold S'" "phase_rel (current_thread ctx) S S'" "ctx_ok hold ctx S'"
  using returnsD [OF phase [OF assms]] ctx_ok_rel [OF assms(3)] by (auto simp: phase_spec_def)

text \<open>A connection another thread is using is never handed out.\<close>

lemma never_shared:
  assumes "calloc_fresh L" "pool_ok hold S" "ctx_ok hold ctx S" "run L ctx S = Some (Return conn, S')" "conn \<noteq> 0"
    and "j < length (slots (pm S))" "protected (current_thread ctx) (slot_at S j)"
  shows "slot_conn (slot_at S j) \<noteq> conn"
proof
  assume eq: "slot_conn (slot_at S j) = conn"
  have spec: "phase_spec hold ctx S (Return conn, S')" using returns_SomeD [OF phase [OF assms(1-3)] assms(4)] .
  then have ok: "pool_ok hold S'" and rel: "phase_rel (current_thread ctx) S S'" and g: "granted (current_thread ctx) conn S'"
    using assms(5) by (auto simp: phase_spec_def)
  obtain i where i: "i < pool_size (pm S')" "slot_conn (slot_at S' i) = conn" "owner_thread (slot_at S' i) = current_thread ctx"
    using g by (auto simp: granted_def)
  have j: "slot_at S' j = slot_at S j" "j < length (slots (pm S'))" using rel assms(6,7) by (auto simp: phase_rel_def)
  have "i < length (slots (pm S'))" using i(1) pool_size_le [OF ok] by simp
  moreover have "i \<noteq> j" using i(3) j assms(7) by (auto simp: protected_def)
  ultimately show False
    using distinct_slot_conns [of "pm S'" i j] ok i(2) j eq assms(5) by (auto simp: pool_ok_but_def)
qed

end

text \<open>One phase, and then another if the first passes on.\<close>

definition then_phase ::
  "('w libpq \<Rightarrow> AcquireCtx \<Rightarrow> 'w shim \<Rightarrow> (AcquireDecision \<times> 'w shim) option) \<Rightarrow>
   ('w libpq \<Rightarrow> AcquireCtx \<Rightarrow> 'w shim \<Rightarrow> (AcquireDecision \<times> 'w shim) option) \<Rightarrow>
   'w libpq \<Rightarrow> AcquireCtx \<Rightarrow> 'w shim \<Rightarrow> (AcquireDecision \<times> 'w shim) option" where
  "then_phase f g L ctx S =
     do {
       (d, S) \<leftarrow> f L ctx S;
       case d of Return conn \<Rightarrow> Some (Return conn, S) | Continue \<Rightarrow> g L ctx S
     }"

lemma then_phase:
  assumes "acquire_phase f" "acquire_phase g"
  shows "acquire_phase (then_phase f g)"
proof
  fix L :: "'a libpq" and hold ctx and S :: "'a shim"
  assume pre: "calloc_fresh L" "pool_ok hold S" "ctx_ok hold ctx S"
  obtain d S1 where f: "f L ctx S = Some (d, S1)" and spec: "phase_spec hold ctx S (d, S1)"
    using returnsD [OF acquire_phase.phase [OF assms(1) pre]] by auto
  show "returns (then_phase f g L ctx S) (phase_spec hold ctx S)"
  proof (cases d)
    case Continue
    with spec have S1: "pool_ok hold S1" "phase_rel (current_thread ctx) S S1" by simp_all
    have "returns (g L ctx S1) (phase_spec hold ctx S1)"
      by (rule acquire_phase.phase [OF assms(2) pre(1) S1(1) ctx_ok_rel [OF pre(3) S1(2)]])
    then show ?thesis
      using f Continue phase_spec_from [OF S1(2)] by (auto simp: then_phase_def intro: returns_weaken)
  qed (use f spec in \<open>simp add: then_phase_def\<close>)
qed

lemma for_slots_phase:
  assumes "\<And>i S. i \<in> set is \<Longrightarrow> pool_ok hold S \<Longrightarrow> ctx_ok hold ctx S \<Longrightarrow> returns (body i S) (phase_spec hold ctx S)"
    and "pool_ok hold S" "ctx_ok hold ctx S"
  shows "returns (for_slots body is S) (phase_spec hold ctx S)"
  using assms
proof (induction "is" arbitrary: S)
  case (Cons i "is")
  obtain d S1 where b: "body i S = Some (d, S1)" and spec: "phase_spec hold ctx S (d, S1)"
    using returnsD [OF Cons.prems(1) [OF _ Cons.prems(2,3)]] by force
  show ?case
  proof (cases d)
    case Continue
    with spec have S1: "pool_ok hold S1" "phase_rel (current_thread ctx) S S1" by simp_all
    have "returns (for_slots body is S1) (phase_spec hold ctx S1)"
      by (rule Cons.IH) (use Cons.prems S1 ctx_ok_rel in auto)
    then show ?thesis using b Continue phase_spec_from [OF S1(2)] by (auto intro: returns_weaken)
  qed (use b spec in simp)
qed simp

section \<open>Granting a slot\<close>

lemma granted_cached:
  assumes ok: "pool_ok hold S1" and i: "i < pool_size (pm S1)" "slot_conn (slot_at S1 i) = conn" "conn \<noteq> 0"
    "slot_state (slot_at S1 i) = SLOT_READY" "owner_thread (slot_at S1 i) = t"
    and c: "heap S1 conn = Some c" "is_pg_active c \<noteq> 0" "streaming_active c = 0"
  shows "pool_ok hold (tls_pool_cache_set t 0 (of_nat i) (generation (slot_at S1 i)) S1)
    \<and> granted t conn (tls_pool_cache_set t 0 (of_nat i) (generation (slot_at S1 i)) S1)"
proof
  let ?S = "tls_pool_cache_set t 0 (of_nat i) (generation (slot_at S1 i)) S1"
  have "pm ?S = pm S1" "heap ?S = heap S1" "tables_ok ?S = tables_ok S1"
    by (simp_all add: tls_pool_cache_set_def tables_ok_cong [of "S1\<lparr>tls_pool_cache := f\<rparr>" S1 for f])
  with ok show "pool_ok hold ?S"
    by (auto simp: pool_ok_but_def mem_ok_heap_eq [of ?S S1] slot_ok_cong [of ?S S1])
  show "granted t conn ?S"
    unfolding granted_def by (rule exI [of _ i]) (use i c in \<open>simp add: tls_pool_cache_set_def\<close>)
qed

lemma mark_ready_grants:
  assumes w: "working i hold S1" and i: "i < pool_size (pm S1)"
    and s: "slot_conn (slot_at S1 i) = conn" "conn \<noteq> 0" "owner_thread (slot_at S1 i) = current_thread ctx"
    "slot_state (slot_at S1 i) \<noteq> SLOT_READY"
    and t: "current_thread ctx \<noteq> 0" "conn \<noteq> exclude_conn ctx"
    and c: "heap S1 conn = Some c" "is_pg_active c \<noteq> 0" "streaming_active c = 0"
  shows "phase_spec hold ctx S1 (mark_ready_and_cache_slot ctx i conn S1)"
proof -
  let ?S = "set_slot i (mark_ready (slot_at S1 i)) S1"
  have len: "i < length (slots (pm S1))" using i pool_size_le [OF w] by simp
  have "slot_ok S1 (mark_ready (slot_at S1 i))"
    using s t c by (simp add: slot_ok_def mark_ready_def active_def)
  with len have ok: "pool_ok hold ?S" by (intro pool_ok_set_slot [OF w]) (simp_all add: mark_ready_def)
  have "pool_ok hold (snd (mark_ready_and_cache_slot ctx i conn S1)) \<and> granted (current_thread ctx) conn (snd (mark_ready_and_cache_slot ctx i conn S1))"
    unfolding mark_ready_and_cache_slot_def Let_def snd_conv
    by (rule granted_cached [OF ok _ _ s(2) _ _ _ c(2,3)]) (use i s t c len in \<open>simp_all add: mark_ready_def pool_size_def pool_max_def\<close>)
  moreover have "phase_rel (current_thread ctx) S1 (snd (mark_ready_and_cache_slot ctx i conn S1))"
    unfolding mark_ready_and_cache_slot_def Let_def snd_conv
    by (rule phase_rel_trans [OF rel_set_slot rel_tls_set]) (simp add: protected_def s(4))
  ultimately show ?thesis
    using t(2) by (simp add: phase_spec_def mark_ready_and_cache_slot_def Let_def)
qed

lemma cache_existing_grants:
  assumes ok: "pool_ok hold S1" and i: "i < pool_size (pm S1)"
    and s: "slot_state (slot_at S1 i) = SLOT_READY" "owner_thread (slot_at S1 i) = current_thread ctx"
    "slot_conn (slot_at S1 i) \<noteq> exclude_conn ctx"
    and str: "conn_is_streaming_active_ptr (slot_conn (slot_at S1 i)) S1 = Some False"
  shows "phase_spec hold ctx S1 (cache_existing_ready_slot ctx i (slot_conn (slot_at S1 i)) S1)"
proof -
  let ?conn = "slot_conn (slot_at S1 i)" and ?S = "set_slot i ((slot_at S1 i)\<lparr>slot_last_used := now ctx\<rparr>) S1"
  have len: "i < length (slots (pm S1))" using i pool_size_le [OF ok] by simp
  have sok: "slot_ok S1 (slot_at S1 i)" by (rule pool_okD [OF ok len])
  with s obtain c where c: "heap S1 ?conn = Some c" "is_pg_active c \<noteq> 0" and nz: "?conn \<noteq> 0"
    by (auto simp: slot_ok_def active_def)
  with str have "streaming_active c = 0" by (simp add: conn_is_streaming_active_ptr_def)
  have "slot_ok S1 ((slot_at S1 i)\<lparr>slot_last_used := now ctx\<rparr>)" using sok by (simp add: slot_ok_def)
  with len have ok': "pool_ok hold ?S" by (intro pool_ok_set_slot [OF ok]) simp_all
  have "pool_ok hold (snd (cache_existing_ready_slot ctx i ?conn S1)) \<and> granted (current_thread ctx) ?conn (snd (cache_existing_ready_slot ctx i ?conn S1))"
    unfolding cache_existing_ready_slot_def Let_def snd_conv
    by (rule granted_cached [OF ok' _ _ nz _ _ _ c(2) \<open>streaming_active c = 0\<close>])
      (use i s c len in \<open>simp_all add: pool_size_def pool_max_def\<close>)
  moreover have "phase_rel (current_thread ctx) S1 (snd (cache_existing_ready_slot ctx i ?conn S1))"
    unfolding cache_existing_ready_slot_def Let_def snd_conv
    by (rule phase_rel_trans [OF rel_set_slot rel_tls_set]) (simp add: protected_def s(2))
  ultimately show ?thesis
    using s(3) by (simp add: phase_spec_def cache_existing_ready_slot_def Let_def)
qed

lemma mark_error_continues:
  assumes w: "working i hold S1" and i: "i < length (slots (pm S1))" and "slot_state (slot_at S1 i) \<noteq> SLOT_READY"
  shows "pool_ok hold (set_slot i (mark_error (slot_at S1 i)) S1) \<and> phase_rel t S1 (set_slot i (mark_error (slot_at S1 i)) S1)"
proof
  show "pool_ok hold (set_slot i (mark_error (slot_at S1 i)) S1)"
    using i by (intro pool_ok_set_slot [OF w]) (simp_all add: mark_error_def slot_ok_def)
  show "phase_rel t S1 (set_slot i (mark_error (slot_at S1 i)) S1)"
    by (rule rel_set_slot) (simp add: protected_def assms(3))
qed

section \<open>A new connection for a claimed slot\<close>

lemma exclude_alloc: "pool_ok_but v hold S \<Longrightarrow> 0 < hold p \<Longrightarrow> p \<noteq> 0 \<Longrightarrow> heap S p \<noteq> None"
  using mem_ok_alloc [of "refs hold (pm S)" S p] by (auto simp: pool_ok_but_def refs_def)

lemma release_failed_spec:
  assumes w: "working i (if p = 0 then hold else hold(p := Suc (hold p))) S" and i: "i < length (slots (pm S))"
    and s: "slot_conn (slot_at S i) = 0" "slot_state (slot_at S i) \<noteq> SLOT_READY"
    and out: "p \<noteq> 0 \<Longrightarrow> slot_count (pm S) p = 0" and unreg: "p \<noteq> 0 \<Longrightarrow> reg_count (pm S) p = 0"
  shows "returns (release_failed_new_connection L i p S) (\<lambda>S'. pool_ok hold S' \<and> phase_rel t S S')"
proof -
  have "returns (if p = 0 then Some S else destroy_pool_connection L p S)
      (\<lambda>S1. working i hold S1 \<and> phase_rel t S S1 \<and> slots (pm S1) = slots (pm S))"
  proof (cases "p = 0")
    case False
    with w have "working i (hold(p := Suc (hold p))) S" by simp
    from returnsD [OF destroy_working [OF this False out [OF False], of L]]
    obtain S1 where S1: "destroy_pool_connection L p S = Some S1" "working i hold S1" "pool_same S S1"
      "\<forall>q. q \<noteq> p \<longrightarrow> heap S1 q = heap S q" by blast
    with rel_destroyed [OF S1(3,4) out [OF False] unreg [OF False]] pool_same_pm [OF S1(3)] False show ?thesis by simp
  qed (use w in simp)
  moreover have "pool_ok hold (set_slot i (slot_release ((slot_at S1 i)\<lparr>slot_conn := 0, owner_thread := 0\<rparr>)) S1)
      \<and> phase_rel t S (set_slot i (slot_release ((slot_at S1 i)\<lparr>slot_conn := 0, owner_thread := 0\<rparr>)) S1)"
    if "working i hold S1" "phase_rel t S S1" "slots (pm S1) = slots (pm S)" for S1
  proof
    show "pool_ok hold (set_slot i (slot_release ((slot_at S1 i)\<lparr>slot_conn := 0, owner_thread := 0\<rparr>)) S1)"
      using that i s by (intro pool_ok_set_slot [OF that(1)]) (simp_all add: slot_release_def slot_ok_def)
    show "phase_rel t S (set_slot i (slot_release ((slot_at S1 i)\<lparr>slot_conn := 0, owner_thread := 0\<rparr>)) S1)"
      using that s by (intro phase_rel_trans [OF that(2) rel_set_slot]) (simp add: protected_def)
  qed
  ultimately show ?thesis
    unfolding release_failed_new_connection_def returns_bind returns_Some by (blast intro: returns_weaken)
qed

lemma create_into_slot_spec:
  assumes fresh: "calloc_fresh L" and w: "working i hold S" and ctx: "ctx_ok hold ctx S" and i: "i < pool_size (pm S)"
    and s: "slot_conn (slot_at S i) = 0" "slot_state (slot_at S i) \<noteq> SLOT_READY" "owner_thread (slot_at S i) = current_thread ctx"
  shows "returns (create_into_slot L ctx i S) (phase_spec hold ctx S)"
proof -
  obtain p S1 where mk: "create_pool_connection L (ctx_path ctx) S = Some (p, S1)" and new: "created p S S1"
    using returnsD [OF create_pool_connection_spec [OF fresh pool_ok_null [OF w]]] by force
  have same: "pool_same S S1" using new by (simp add: created_def)
  note pm = pool_same_pm [OF same]
  have w1: "working i (if p = 0 then hold else hold(p := Suc (hold p))) S1" and out: "p \<noteq> 0 \<Longrightarrow> slot_count (pm S1) p = 0"
    and unreg: "p \<noteq> 0 \<Longrightarrow> reg_count (pm S1) p = 0"
    using working_created [OF w new] by auto
  have rel: "phase_rel (current_thread ctx) S S1" by (rule rel_created [OF w new])
  have len: "i < length (slots (pm S1))" using i pool_size_le [OF w] pm by simp
  have psz: "i < pool_size (pm S1)" using i pm by (simp add: pool_size_def pool_max_def)
  have failed: "returns (release_failed_new_connection L i p S1) (\<lambda>S'. pool_ok hold S' \<and> phase_rel (current_thread ctx) S1 S')"
    by (rule release_failed_spec [OF w1 len]) (use s pm out unreg in simp_all)
  have failed: "returns (release_failed_new_connection L i p S1) (\<lambda>S'. pool_ok hold S' \<and> phase_rel (current_thread ctx) S S')"
    by (rule returns_weaken [OF failed]) (use phase_rel_trans [OF rel] in blast)
  show ?thesis
  proof (cases "\<exists>c. p \<noteq> 0 \<and> heap S1 p = Some c \<and> is_pg_active c \<noteq> 0")
    case True
    then obtain c where p: "p \<noteq> 0" and c: "heap S1 p = Some c" "is_pg_active c \<noteq> 0" by blast
    have str: "streaming_active c = 0" using new p c by (auto simp: created_def)
    let ?S2 = "set_slot i ((slot_at S1 i)\<lparr>slot_conn := p\<rparr>) S1"
    have w2: "working i hold ?S2"
      using w1 p s pm len out unreg by (intro working_put_in [of i hold p]) simp_all
    have "p \<noteq> exclude_conn ctx"
      using ctx p new exclude_alloc [OF w, of "exclude_conn ctx"] by (auto simp: ctx_ok_def created_def)
    then have "phase_spec hold ctx ?S2 (mark_ready_and_cache_slot ctx i p ?S2)"
      by (intro mark_ready_grants [OF w2 _ _ p _ _ _ _ _ c(2) str])
        (use psz len s pm c ctx in \<open>simp_all add: pool_size_def pool_max_def ctx_ok_def\<close>)
    moreover have "phase_rel (current_thread ctx) S ?S2"
      by (rule phase_rel_trans [OF rel rel_set_slot]) (simp add: protected_def s pm)
    ultimately have "phase_spec hold ctx S (mark_ready_and_cache_slot ctx i p ?S2)" by (metis phase_spec_from)
    with mk c p show ?thesis by (simp add: create_into_slot_def conn_is_pg_active_ptr_def)
  next
    case False
    then have "conn_is_pg_active_ptr p S1 = Some False"
      using new by (auto simp: conn_is_pg_active_ptr_def created_def split: if_splits)
    then have "create_into_slot L ctx i S = do { S \<leftarrow> release_failed_new_connection L i p S1; Some (Continue, S) }"
      by (auto simp: create_into_slot_def mk)
    with failed show ?thesis by simp
  qed
qed

section \<open>The phases\<close>

lemma claim_with_conn:
  "try_claim_free_with_conn (slot_conn s) s = (if slot_state s = SLOT_FREE then (True, s\<lparr>slot_state := SLOT_RESERVED\<rparr>) else (False, s))"
  by (simp add: try_claim_free_with_conn_def try_claim_free_def compare_exchange_def Let_def)

lemma slot_in_range: "ctx_ok hold ctx S \<Longrightarrow> i < ctx_pool_size ctx \<Longrightarrow> i < pool_size (pm S)"
  by (simp add: ctx_ok_def)

lemma phase3_slot_spec:
  assumes fresh: "calloc_fresh L" and ok: "pool_ok hold S" and ctx: "ctx_ok hold ctx S" and i: "i < pool_size (pm S)"
  shows "returns (phase3_slot L ctx i S) (phase_spec hold ctx S)"
proof (cases "slot_conn (slot_at S i) = 0 \<and> slot_state (slot_at S i) = SLOT_FREE")
  case True
  let ?s = "claim_slot_for_thread ctx ((slot_at S i)\<lparr>slot_state := SLOT_RESERVED\<rparr>)"
  let ?S = "set_slot i ?s S"
  have len: "i < length (slots (pm S))" using i pool_size_le [OF ok] by simp
  have rel: "phase_rel (current_thread ctx) S ?S" by (rule rel_set_slot) (simp add: protected_def True)
  have "working i hold ?S" using len by (intro working_set_slot [OF ok]) (simp_all add: claim_slot_for_thread_def)
  then have "returns (create_into_slot L ctx i ?S) (phase_spec hold ctx ?S)"
    by (rule create_into_slot_spec [OF fresh _ ctx_ok_rel [OF ctx rel]])
      (use True len i in \<open>simp_all add: claim_slot_for_thread_def pool_size_def pool_max_def\<close>)
  moreover have "phase3_slot L ctx i S = create_into_slot L ctx i ?S"
    using True claim_with_conn [of "slot_at S i"] by (simp add: phase3_slot_def)
  ultimately show ?thesis using phase_spec_from [OF rel] by (auto intro: returns_weaken)
next
  case False
  then have "phase3_slot L ctx i S = Some (Continue, S)"
    using claim_with_conn [of "slot_at S i"] by (auto simp: phase3_slot_def Let_def)
  then show ?thesis using ok by simp
qed

lemma phase4_slot_spec:
  assumes fresh: "calloc_fresh L" and ok: "pool_ok hold S" and ctx: "ctx_ok hold ctx S" and i: "i < pool_size (pm S)"
  shows "returns (phase4_slot L ctx i S) (phase_spec hold ctx S)"
proof (cases "slot_state (slot_at S i) = SLOT_ERROR")
  case True
  define s where "s = claim_slot_for_thread ctx ((slot_at S i)\<lparr>slot_state := SLOT_RESERVED\<rparr>)"
  define old where "old = slot_conn (slot_at S i)"
  let ?S = "set_slot i (s\<lparr>slot_conn := 0\<rparr>) S"
  have len: "i < length (slots (pm S))" using i pool_size_le [OF ok] by simp
  have rel: "phase_rel (current_thread ctx) S ?S" by (rule rel_set_slot) (simp add: protected_def True)
  have "returns (if old = 0 then Some ?S else destroy_pool_connection L old ?S)
      (\<lambda>S1. working i hold S1 \<and> phase_rel (current_thread ctx) S S1 \<and> slots (pm S1) = slots (pm ?S))"
  proof (cases "old = 0")
    case True
    then have "working i hold ?S" using len by (intro working_set_slot [OF ok]) (simp_all add: s_def old_def)
    with True rel show ?thesis by simp
  next
    case False
    have w: "working i (hold(old := Suc (hold old))) ?S" and out: "slot_count (pm ?S) old = 0"
      using working_take_out [OF ok _ len, of "s\<lparr>slot_conn := 0\<rparr>" old] False by (simp_all add: old_def)
    from returnsD [OF destroy_working [OF w False out, of L]]
    obtain S1 where S1: "destroy_pool_connection L old ?S = Some S1" "working i hold S1" "pool_same ?S S1"
      "\<forall>q. q \<noteq> old \<longrightarrow> heap S1 q = heap ?S q" by blast
    have "phase_rel (current_thread ctx) S S1" by (rule phase_rel_trans [OF rel rel_destroyed [OF S1(3,4) out]])
        (rule taken_unregistered [OF ok len], use False in \<open>simp_all add: old_def\<close>)
    moreover have "slots (pm S1) = slots (pm ?S)" using pool_same_pm [OF S1(3)] by blast
    ultimately show ?thesis using S1 False by simp
  qed
  moreover have "returns (create_into_slot L ctx i S1) (phase_spec hold ctx S)"
    if S1: "working i hold S1 \<and> phase_rel (current_thread ctx) S S1 \<and> slots (pm S1) = slots (pm ?S)" for S1
  proof -
    have rel1: "phase_rel (current_thread ctx) S S1" using S1 by blast
    have "i < pool_size (pm S1)" using i rel1 by (simp add: phase_rel_def pool_size_def pool_max_def)
    then have "returns (create_into_slot L ctx i S1) (phase_spec hold ctx S1)"
      using S1 len by (intro create_into_slot_spec [OF fresh _ ctx_ok_rel [OF ctx rel1]])
        (simp_all add: s_def claim_slot_for_thread_def)
    then show ?thesis using phase_spec_from [OF rel1] by (auto intro: returns_weaken)
  qed
  moreover have "phase4_slot L ctx i S =
      do { S1 \<leftarrow> (if old = 0 then Some ?S else destroy_pool_connection L old ?S); create_into_slot L ctx i S1 }"
    using True by (simp add: phase4_slot_def try_reclaim_error_def compare_exchange_def s_def old_def claim_slot_for_thread_def Let_def)
  ultimately show ?thesis unfolding returns_bind by (auto intro: returns_weaken)
next
  case False
  then show ?thesis using ok by (simp add: phase4_slot_def try_reclaim_error_def compare_exchange_def)
qed

lemma phase5_spec:
  assumes fresh: "calloc_fresh L" and ok: "pool_ok hold S" and ctx: "ctx_ok hold ctx S"
  shows "returns (phase5_autogrow L ctx S) (phase_spec hold ctx S)"
proof (cases "configured_max_size (pm S) \<le> configured_size (pm S)")
  case True
  then show ?thesis using ok by (simp add: phase5_autogrow_def pool_max_def)
next
  case False
  let ?n = "configured_size (pm S)"
  let ?G = "S\<lparr>pm := (pm S)\<lparr>configured_size := ?n + 1\<rparr>\<rparr>"
  have len: "?n < length (slots (pm S))" using False ok by (auto simp: pool_ok_but_def sizes_ok_def)
  have rel: "phase_rel (current_thread ctx) S ?G" by (simp add: phase_rel_def)
  have sz: "?n < pool_size (pm ?G)" using False by (simp add: pool_size_def pool_max_def)
  have okG: "pool_ok hold ?G"
    using ok False by (intro pool_ok_pm) (auto simp: pool_ok_but_def sizes_ok_def)
  show ?thesis
  proof (cases "slot_conn (slot_at S ?n) = 0 \<and> slot_state (slot_at S ?n) = SLOT_FREE")
    case True
    let ?s = "claim_slot_for_thread ctx ((slot_at S ?n)\<lparr>slot_state := SLOT_RESERVED\<rparr>)"
    let ?S = "set_slot ?n ?s ?G"
    have rel': "phase_rel (current_thread ctx) S ?S"
      by (rule phase_rel_trans [OF rel rel_set_slot]) (simp add: protected_def True)
    have "working ?n hold ?S" using len by (intro working_set_slot [OF okG]) (simp_all add: claim_slot_for_thread_def)
    then have "returns (create_into_slot L ctx ?n ?S) (phase_spec hold ctx ?S)"
      by (rule create_into_slot_spec [OF fresh _ ctx_ok_rel [OF ctx rel']])
        (use True len sz in \<open>simp_all add: claim_slot_for_thread_def pool_size_def pool_max_def\<close>)
    moreover have "phase5_autogrow L ctx S = create_into_slot L ctx ?n ?S"
      using True False len claim_with_conn [of "slot_at S ?n"] by (simp add: phase5_autogrow_def pool_max_def Let_def)
    ultimately show ?thesis using phase_spec_from [OF rel'] by (auto intro: returns_weaken)
  next
    case full: False
    have "\<not> fst (try_claim_free_with_conn 0 (slot_at S ?n))"
      using full by (auto simp: try_claim_free_with_conn_def try_claim_free_def compare_exchange_def Let_def)
    then obtain s' where "try_claim_free_with_conn 0 (slot_at S ?n) = (False, s')"
      by (cases "try_claim_free_with_conn 0 (slot_at S ?n)") auto
    then have "phase5_autogrow L ctx S = Some (Continue, ?G)"
      using False len by (simp add: phase5_autogrow_def pool_max_def Let_def)
    then show ?thesis using okG rel by simp
  qed
qed

text \<open>
  Phases 1 and 2 take a slot with a connection out of the pool's reach and work on that
  connection in place: \<open>holding\<close> is what stays true while they do.
\<close>

definition holding :: "(ptr \<Rightarrow> nat) \<Rightarrow> AcquireCtx \<Rightarrow> usize \<Rightarrow> PoolSlot \<Rightarrow> 'w shim \<Rightarrow> 'w shim \<Rightarrow> bool" where
  "holding hold ctx i s S S' \<longleftrightarrow> working i hold S' \<and> phase_rel (current_thread ctx) S S' \<and> slot_at S' i = s \<and> i < pool_size (pm S')
     \<and> slot_conn s \<noteq> 0 \<and> slot_conn s \<noteq> exclude_conn ctx \<and> slot_state s \<noteq> SLOT_READY
     \<and> owner_thread s = current_thread ctx \<and> current_thread ctx \<noteq> 0"

lemma holding_range: "holding hold ctx i s S S' \<Longrightarrow> i < length (slots (pm S'))"
  using pool_size_le by (fastforce simp: holding_def)

lemma holding_take:
  assumes ok: "pool_ok hold S" and ctx: "ctx_ok hold ctx S" and i: "i < pool_size (pm S)" and np: "\<not> protected (current_thread ctx) (slot_at S i)"
    and s: "slot_conn s = slot_conn (slot_at S i)" "slot_conn s \<noteq> 0" "slot_conn s \<noteq> exclude_conn ctx" "slot_state s \<noteq> SLOT_READY"
    "owner_thread s = current_thread ctx"
  shows "holding hold ctx i s S (set_slot i s S)"
proof -
  have len: "i < length (slots (pm S))" using i pool_size_le [OF ok] by simp
  then have "working i hold (set_slot i s S)" using s(1) by (intro working_set_slot [OF ok]) simp_all
  with rel_set_slot [OF np] ctx i s len show ?thesis by (simp add: holding_def ctx_ok_def pool_size_def pool_max_def)
qed

lemma holding_alloc:
  assumes "holding hold ctx i s S S'"
  obtains c where "heap S' (slot_conn s) = Some c"
  using heap_slot_alloc [of "Some i" hold S' i] assms holding_range [OF assms] by (auto simp: holding_def)

lemma holding_same:
  assumes h: "holding hold ctx i s S S1" and same: "pool_same S1 S'" and heap: "heap S' = heap S1"
  shows "holding hold ctx i s S S'"
proof -
  have "working i hold S'" using h by (intro pool_ok_same_heap [OF _ same heap]) (simp add: holding_def)
  moreover have "phase_rel (current_thread ctx) S S'"
    using h heap by (intro phase_rel_trans [OF _ rel_same [OF same]]) (simp_all add: holding_def)
  ultimately show ?thesis using h pool_same_pm [OF same] by (simp add: holding_def pool_size_def pool_max_def)
qed

lemma holding_step:
  assumes h: "holding hold ctx i s S S1" and step: "conn_step (slot_conn s) S1 S'"
  shows "holding hold ctx i s S S'"
proof -
  have w: "working i hold S1" and s: "slot_at S1 i = s" "slot_conn s \<noteq> 0" using h by (simp_all add: holding_def)
  note len = holding_range [OF h]
  have np: "\<not> protected (current_thread ctx) (slot_at S1 i)" using h by (simp add: holding_def protected_def)
  have "working i hold S'" using s by (intro working_conn_step [OF w len _ _ step]) simp_all
  moreover have "phase_rel (current_thread ctx) S1 S'" using s by (intro rel_conn_step [OF w len np _ _ step]) simp_all
  then have "phase_rel (current_thread ctx) S S'" using h phase_rel_trans by (auto simp: holding_def)
  moreover have same: "pool_same S1 S'" using step by (simp add: conn_step_def)
  have "slots (pm S') = slots (pm S1)" "pool_size (pm S') = pool_size (pm S1)"
    using pool_same_pm [OF same] by (simp_all add: pool_size_def pool_max_def)
  ultimately show ?thesis using h by (simp add: holding_def)
qed

lemma holding_ready:
  assumes h: "holding hold ctx i s S S'" and c: "heap S' (slot_conn s) = Some c" "is_pg_active c \<noteq> 0" "streaming_active c = 0"
  shows "phase_spec hold ctx S (mark_ready_and_cache_slot ctx i (slot_conn s) S')"
proof -
  have "phase_spec hold ctx S' (mark_ready_and_cache_slot ctx i (slot_conn s) S')"
    by (rule mark_ready_grants [OF _ _ _ _ _ _ _ _ c]) (use h in \<open>simp_all add: holding_def\<close>)
  moreover have "phase_rel (current_thread ctx) S S'" using h by (simp add: holding_def)
  ultimately show ?thesis by (metis phase_spec_from)
qed

lemma holding_error:
  assumes "holding hold ctx i s S S'"
  shows "pool_ok hold (set_slot i (mark_error (slot_at S' i)) S') \<and> phase_rel (current_thread ctx) S (set_slot i (mark_error (slot_at S' i)) S')"
  using mark_error_continues [of i hold S' "current_thread ctx"] assms holding_range [OF assms] phase_rel_trans
  by (auto simp: holding_def)

lemma holding_cache_clear:
  assumes "holding hold ctx i s S S1"
  shows "returns (rust_stmt_cache_clear L (slot_conn s) S1) (\<lambda>S'. holding hold ctx i s S S' \<and> heap S' = heap S1)"
proof -
  obtain c where "heap S1 (slot_conn s) = Some c" using holding_alloc [OF assms] .
  from stmt_cache_clear_spec [OF this] show ?thesis using holding_same [OF assms] by (auto intro: returns_weaken)
qed

lemma holding_reconnect:
  assumes "holding hold ctx i s S S1"
  shows "returns (reconnect_conn L (slot_conn s) S1) (\<lambda>(ok, S'). holding hold ctx i s S S'
    \<and> (ok \<longrightarrow> phase_spec hold ctx S (mark_ready_and_cache_slot ctx i (slot_conn s) S')))"
proof -
  obtain c where c: "heap S1 (slot_conn s) = Some c" using holding_alloc [OF assms] .
  have "slot_conn s \<noteq> 0" using assms by (simp add: holding_def)
  from reconnect_conn_spec [OF c this] show ?thesis
    by (rule returns_weaken) (auto dest: holding_step [OF assms] intro: holding_ready)
qed

text \<open>Phase 2: a free slot's connection is reset, or else reconnected, or else the slot is in error.\<close>

lemma phase2_reconnect_spec:
  assumes "holding hold ctx i s S S1"
  shows "returns (phase2_reconnect L ctx i (slot_conn s) S1) (phase_spec hold ctx S)"
proof -
  have last: "returns (conn_is_pg_active_ptr (slot_conn s) S3) (\<lambda>active. phase_spec hold ctx S
        (if ok \<and> active then mark_ready_and_cache_slot ctx i (slot_conn s) S3
         else (Continue, set_slot i (mark_error (slot_at S3 i)) S3)))"
    if h: "holding hold ctx i s S S3" and r: "ok \<longrightarrow> phase_spec hold ctx S (mark_ready_and_cache_slot ctx i (slot_conn s) S3)" for ok S3
  proof -
    obtain c where "heap S3 (slot_conn s) = Some c" using holding_alloc [OF h] .
    with h r holding_error [OF h] show ?thesis by (auto simp: conn_is_pg_active_ptr_def holding_def)
  qed
  have mid: "returns (reconnect_conn L (slot_conn s) S2) (\<lambda>(ok, S'). returns (conn_is_pg_active_ptr (slot_conn s) S')
        (\<lambda>active. phase_spec hold ctx S (if ok \<and> active then mark_ready_and_cache_slot ctx i (slot_conn s) S'
         else (Continue, set_slot i (mark_error (slot_at S' i)) S'))))" if "holding hold ctx i s S S2" for S2
    by (rule returns_weaken [OF holding_reconnect [OF that]]) (simp only: split_paired_all prod.case, blast intro: last)
  show ?thesis
    unfolding phase2_reconnect_def returns_bind returns_case_prod returns_Some
    by (rule returns_weaken [OF holding_cache_clear [OF assms]]) (blast intro: mid)
qed

lemma holding_rollback:
  assumes h: "holding hold ctx i s S S1"
  shows "returns (if b then exec_simple L (slot_conn s) sql S1 else Some (True, S1)) (\<lambda>(_, S'). holding hold ctx i s S S' \<and> heap S' = heap S1)"
proof (cases b)
  case True
  obtain c where "heap S1 (slot_conn s) = Some c" using holding_alloc [OF h] .
  from exec_simple_ok [OF this, of L sql] True show ?thesis using holding_same [OF h] by (auto intro: returns_weaken)
qed (use h in simp)

lemma holding_reset:
  assumes h: "holding hold ctx i s S S1" and act: "active S1 (slot_conn s)"
  shows "returns (reset_conn L (slot_conn s) S1) (\<lambda>(ok, S'). holding hold ctx i s S S'
    \<and> (ok \<longrightarrow> phase_spec hold ctx S (mark_ready_and_cache_slot ctx i (slot_conn s) S')))"
proof -
  obtain c where c: "heap S1 (slot_conn s) = Some c" "is_pg_active c \<noteq> 0" using act by (auto simp: active_def)
  have "slot_conn s \<noteq> 0" using h by (simp add: holding_def)
  from reset_conn_spec [OF c(1) this] show ?thesis
    by (rule returns_weaken) (use c(2) in \<open>auto dest: holding_step [OF h] intro: holding_ready\<close>)
qed

lemma phase2_reset_spec:
  assumes h: "holding hold ctx i s S S1" and act: "active S1 (slot_conn s)"
  shows "returns (phase2_reset L ctx i (slot_conn s) S1) (phase_spec hold ctx S)"
proof -
  obtain c where c: "heap S1 (slot_conn s) = Some c" using holding_alloc [OF h] .
  have last: "returns (reset_conn L (slot_conn s) S3) (\<lambda>(ok, S'). returns (if ok then Some (mark_ready_and_cache_slot ctx i (slot_conn s) S')
      else phase2_reconnect L ctx i (slot_conn s) S') (phase_spec hold ctx S))"
    if "holding hold ctx i s S S3" "heap S3 = heap S1" for S3
    by (rule returns_weaken [OF holding_reset [OF that(1)]])
      (use act that(2) in \<open>auto simp: active_def intro: phase2_reconnect_spec\<close>)
  have mid: "returns (rust_stmt_cache_clear L (slot_conn s) S2) (\<lambda>S'. returns (reset_conn L (slot_conn s) S')
      (\<lambda>(ok, S'). returns (if ok then Some (mark_ready_and_cache_slot ctx i (slot_conn s) S')
        else phase2_reconnect L ctx i (slot_conn s) S') (phase_spec hold ctx S)))"
    if "holding hold ctx i s S S2" "heap S2 = heap S1" for S2
    by (rule returns_weaken [OF holding_cache_clear [OF that(1)]]) (rule last, use that(2) in simp_all)
  have txn: "\<exists>txn. get_txn_status L (slot_conn s) S1 = Some txn" using c by (simp add: get_txn_status_def)
  then obtain txn where t: "get_txn_status L (slot_conn s) S1 = Some txn" by blast
  show ?thesis
    unfolding phase2_reset_def returns_bind returns_case_prod t returns_Some
    by (rule returns_weaken [OF holding_rollback [OF h]]) (simp only: split_paired_all prod.case, blast intro: mid)
qed

lemma phase2_slot_spec:
  assumes ok: "pool_ok hold S" and ctx: "ctx_ok hold ctx S" and i: "i < pool_size (pm S)"
  shows "returns (phase2_slot L ctx i S) (phase_spec hold ctx S)"
proof (cases "slot_conn (slot_at S i) = 0 \<or> slot_conn (slot_at S i) = exclude_conn ctx")
  case False
  have len: "i < length (slots (pm S))" using i pool_size_le [OF ok] by simp
  obtain c where c: "heap S (slot_conn (slot_at S i)) = Some c" using heap_slot_alloc [OF ok len] False by auto
  show ?thesis
  proof (cases "streaming_active c = 0 \<and> slot_state (slot_at S i) = SLOT_FREE")
    case True
    let ?s = "claim_slot_for_thread ctx ((slot_at S i)\<lparr>slot_state := SLOT_RESERVED\<rparr>)"
    have h: "holding hold ctx i ?s S (set_slot i ?s S)"
      by (rule holding_take [OF ok ctx i]) (use True False in \<open>simp_all add: protected_def claim_slot_for_thread_def\<close>)
    have "active (set_slot i ?s S) (slot_conn ?s)"
      using pool_okD [OF ok len] True False by (auto simp: slot_ok_def active_def claim_slot_for_thread_def)
    from phase2_reset_spec [OF h this, of L] show ?thesis
      using True False c claim_with_conn [of "slot_at S i"]
      by (simp add: phase2_slot_def conn_is_streaming_active_ptr_def claim_slot_for_thread_def Let_def)
  next
    case skip: False
    then have "phase2_slot L ctx i S = Some (Continue, S)"
      using False c claim_with_conn [of "slot_at S i"] by (auto simp: phase2_slot_def conn_is_streaming_active_ptr_def Let_def)
    then show ?thesis using ok by simp
  qed
qed (use ok in \<open>simp add: phase2_slot_def\<close>)

text \<open>Phase 1: the thread's own slots, reconnected when their connection is dead.\<close>

lemma phase1_slot_spec:
  assumes ok: "pool_ok hold S" and ctx: "ctx_ok hold ctx S" and i: "i < pool_size (pm S)"
  shows "returns (phase1_slot L ctx i S) (phase_spec hold ctx S)"
proof (cases "slot_state (slot_at S i) = SLOT_READY \<and> threads_equal (owner_thread (slot_at S i)) (current_thread ctx)
    \<and> slot_conn (slot_at S i) \<noteq> exclude_conn ctx")
  case True
  then have own: "slot_state (slot_at S i) = SLOT_READY" "owner_thread (slot_at S i) = current_thread ctx"
    "slot_conn (slot_at S i) \<noteq> exclude_conn ctx" by (auto simp: threads_equal_def)
  have len: "i < length (slots (pm S))" using i pool_size_le [OF ok] by simp
  have nz: "slot_conn (slot_at S i) \<noteq> 0" using pool_okD [OF ok len] own by (simp add: slot_ok_def)
  obtain c where c: "heap S (slot_conn (slot_at S i)) = Some c" using heap_slot_alloc [OF ok len nz] .
  obtain alive where alive: "check_conn_ok L (slot_conn (slot_at S i)) S = Some alive" using c nz by (simp add: check_conn_ok_def)
  have str: "conn_is_streaming_active_ptr (slot_conn (slot_at S i)) S = Some (streaming_active c \<noteq> 0)"
    using c nz by (simp add: conn_is_streaming_active_ptr_def)
  show ?thesis
  proof (cases alive)
    case True
    then show ?thesis
      using own nz alive str ok cache_existing_grants [OF ok i own] \<open>_ \<and> threads_equal _ _ \<and> _\<close>
      by (simp add: phase1_slot_def Let_def)
  next
    case False
    let ?s = "(slot_at S i)\<lparr>slot_state := SLOT_RECONNECTING\<rparr>"
    have h: "holding hold ctx i ?s S (set_slot i ?s S)"
      by (rule holding_take [OF ok ctx i]) (use own nz in \<open>simp_all add: protected_def\<close>)
    have err: "phase_spec hold ctx S (Return 0, set_slot i (mark_error (slot_at S' i)) S')" if "holding hold ctx i ?s S S'" for S'
      using holding_error [OF that] by (simp add: phase_spec_def)
    have conn: "slot_conn ?s = slot_conn (slot_at S i)" by simp
    have "returns (reconnect_conn L (slot_conn (slot_at S i)) S2) (\<lambda>(ok, S'). phase_spec hold ctx S
        (if ok then mark_ready_and_cache_slot ctx i (slot_conn (slot_at S i)) S' else (Return 0, set_slot i (mark_error (slot_at S' i)) S')))"
      if "holding hold ctx i ?s S S2" for S2
      by (rule returns_weaken [OF holding_reconnect [OF that, unfolded conn]]) (use err in auto)
    then have "returns (do { S' \<leftarrow> rust_stmt_cache_clear L (slot_conn (slot_at S i)) (set_slot i ?s S);
        (ok, S') \<leftarrow> reconnect_conn L (slot_conn (slot_at S i)) S';
        Some (if ok then mark_ready_and_cache_slot ctx i (slot_conn (slot_at S i)) S' else (Return 0, set_slot i (mark_error (slot_at S' i)) S')) })
      (phase_spec hold ctx S)"
      unfolding returns_bind returns_case_prod returns_Some
      by (intro returns_weaken [OF holding_cache_clear [OF h, unfolded conn]]) blast
    then show ?thesis
      using own nz alive False \<open>_ \<and> threads_equal _ _ \<and> _\<close>
      by (simp add: phase1_slot_def Let_def try_begin_reconnect_def compare_exchange_def)
  qed
next
  case False
  then have "phase1_slot L ctx i S = Some (Continue, S)" by (auto simp: phase1_slot_def Let_def)
  then show ?thesis using ok by simp
qed

lemma fast_path_hit_spec:
  assumes ok: "pool_ok hold S" and i: "i < ctx_pool_size ctx \<Longrightarrow> i < pool_size (pm S)"
  shows "returns (fast_path_hit L ctx i gen S) (\<lambda>hit. hit \<longrightarrow> i < pool_size (pm S) \<and> slot_state (slot_at S i) = SLOT_READY
    \<and> owner_thread (slot_at S i) = current_thread ctx \<and> slot_conn (slot_at S i) \<noteq> exclude_conn ctx
    \<and> conn_is_streaming_active_ptr (slot_conn (slot_at S i)) S = Some False)"
proof (cases "i < ctx_pool_size ctx \<and> slot_conn (slot_at S i) \<noteq> 0")
  case True
  then have len: "i < length (slots (pm S))" using i pool_size_le [OF ok] by simp
  obtain c where "heap S (slot_conn (slot_at S i)) = Some c" using heap_slot_alloc [OF ok len] True by auto
  then show ?thesis
    using True i by (auto simp: fast_path_hit_def Let_def check_conn_ok_def conn_is_streaming_active_ptr_def threads_equal_def)
qed (auto simp: fast_path_hit_def Let_def)

lemma phase1_fast_spec:
  assumes ok: "pool_ok hold S" and ctx: "ctx_ok hold ctx S"
  shows "returns (phase1_fast L ctx S) (phase_spec hold ctx S)"
proof (cases "tls_pool_cache_get (current_thread ctx) 0 S")
  case (Some ig)
  obtain idx gen where ig: "ig = (idx, gen)" by (cases ig)
  have clear: "pool_ok hold (tls_pool_cache_clear (current_thread ctx) S)"
  proof -
    let ?S = "tls_pool_cache_clear (current_thread ctx) S"
    have "pm ?S = pm S" "heap ?S = heap S" "tables_ok ?S = tables_ok S"
      by (simp_all add: tls_pool_cache_clear_def tables_ok_cong [of "S\<lparr>tls_pool_cache := f\<rparr>" S for f])
    with ok show ?thesis by (auto simp: pool_ok_but_def mem_ok_heap_eq [of ?S S] slot_ok_cong [of ?S S])
  qed
  have "returns (fast_path_hit L ctx (unat idx) gen S) (\<lambda>hit. phase_spec hold ctx S
      (if hit then cache_existing_ready_slot ctx (unat idx) (slot_conn (slot_at S (unat idx))) S
       else (Continue, tls_pool_cache_clear (current_thread ctx) S)))"
    by (rule returns_weaken [OF fast_path_hit_spec [OF ok slot_in_range [OF ctx]]])
      (use cache_existing_grants [OF ok] clear in auto)
  then show ?thesis by (simp add: phase1_fast_def Some ig)
qed (use ok in \<open>simp add: phase1_fast_def\<close>)

interpretation fast: acquire_phase phase1_fast
  by unfold_locales (rule phase1_fast_spec)

interpretation own_slots: acquire_phase "\<lambda>L ctx. for_slots (phase1_slot L ctx) [0..<ctx_pool_size ctx]"
  by unfold_locales (auto intro!: for_slots_phase phase1_slot_spec dest: slot_in_range)

lemma phase1_then: "phase1_existing_ready = then_phase phase1_fast (\<lambda>L ctx. for_slots (phase1_slot L ctx) [0..<ctx_pool_size ctx])"
  by (intro ext) (simp add: phase1_existing_ready_def then_phase_def)

interpretation p1: acquire_phase phase1_existing_ready
  unfolding phase1_then by (rule then_phase) unfold_locales

interpretation p2: acquire_phase phase2_reuse_existing
  by unfold_locales (auto simp: phase2_reuse_existing_def intro!: for_slots_phase phase2_slot_spec dest: slot_in_range)

interpretation p3: acquire_phase phase3_create_empty
  by unfold_locales (auto simp: phase3_create_empty_def intro!: for_slots_phase phase3_slot_spec dest: slot_in_range)

interpretation p4: acquire_phase phase4_reclaim_error
  by unfold_locales (auto simp: phase4_reclaim_error_def intro!: for_slots_phase phase4_slot_spec dest: slot_in_range)

interpretation p5: acquire_phase phase5_autogrow
  by unfold_locales (rule phase5_spec)

end
