(* ===== verification/Pool_Maintenance.thy ===== *)
theory Pool_Maintenance
  imports Pool_Phases
begin

text \<open>
  Correctness of the maintenance pass, and of the acquire as a whole. The pass takes back
  slots whose thread has moved on and closes connections that have been idle: what it must
  not do is touch a connection somebody still uses. The acquire returns after finitely many
  retries, and what it returns is null or a connection that is the thread's own.
\<close>

section \<open>What the maintenance pass leaves alone\<close>

definition streaming :: "'w shim \<Rightarrow> ptr \<Rightarrow> bool" where
  "streaming S p \<longleftrightarrow> (\<exists>c. heap S p = Some c \<and> streaming_active c \<noteq> 0)"

text \<open>
  A slot the pass keeps at time \<open>t\<close>: some handle is recorded on it, or it is in use and has
  a stream or has been used within the idle timeout, or it is in error.
\<close>

definition kept :: "int \<Rightarrow> 'w shim \<Rightarrow> usize \<Rightarrow> bool" where
  "kept t S j \<longleftrightarrow> slot_is_referenced (pm S) j
     \<or> slot_state (slot_at S j) = SLOT_READY
         \<and> (streaming S (slot_conn (slot_at S j)) \<or> t - slot_last_used (slot_at S j) \<le> int (idle_timeout_secs (pm S)))
     \<or> slot_state (slot_at S j) = SLOT_ERROR"

definition maint_rel :: "int \<Rightarrow> 'w shim \<Rightarrow> 'w shim \<Rightarrow> bool" where
  "maint_rel t S S' \<longleftrightarrow> length (slots (pm S')) = length (slots (pm S)) \<and> registry (pm S') = registry (pm S)
     \<and> db_to_pool (pm S') = db_to_pool (pm S) \<and> configured_max_size (pm S') = configured_max_size (pm S)
     \<and> configured_size (pm S') = configured_size (pm S) \<and> idle_timeout_secs (pm S') = idle_timeout_secs (pm S)
     \<and> config S' = config S \<and> env S' = env S \<and> retry_count S' = retry_count S \<and> tls_pool_cache S' = tls_pool_cache S
     \<and> init_pid (pm S') = init_pid (pm S) \<and> (\<forall>p. p \<noteq> 0 \<longrightarrow> 0 < reg_count (pm S) p \<longrightarrow> heap S' p = heap S p)
     \<and> (\<forall>j<length (slots (pm S)). kept t S j \<longrightarrow>
          slot_at S' j = slot_at S j \<and> heap S' (slot_conn (slot_at S j)) = heap S (slot_conn (slot_at S j)))"

lemma kept_cong:
  "db_to_pool (pm S') = db_to_pool (pm S) \<Longrightarrow> idle_timeout_secs (pm S') = idle_timeout_secs (pm S) \<Longrightarrow>
   slot_at S' j = slot_at S j \<Longrightarrow> heap S' (slot_conn (slot_at S j)) = heap S (slot_conn (slot_at S j)) \<Longrightarrow> kept t S' j = kept t S j"
  by (simp add: kept_def slot_is_referenced_def streaming_def)

lemma maint_rel_refl [simp]: "maint_rel t S S"
  by (simp add: maint_rel_def)

lemma maint_rel_trans:
  assumes 1: "maint_rel t S S'" and 2: "maint_rel t S' S''"
  shows "maint_rel t S S''"
proof -
  have "slot_at S'' j = slot_at S j \<and> heap S'' (slot_conn (slot_at S j)) = heap S (slot_conn (slot_at S j))"
    if j: "j < length (slots (pm S))" "kept t S j" for j
  proof -
    have s: "slot_at S' j = slot_at S j" "heap S' (slot_conn (slot_at S j)) = heap S (slot_conn (slot_at S j))"
      using 1 j by (auto simp: maint_rel_def)
    with 1 j have "kept t S' j" by (subst kept_cong [of S' S]) (auto simp: maint_rel_def)
    moreover have "j < length (slots (pm S'))" using 1 j by (simp add: maint_rel_def)
    ultimately have "slot_at S'' j = slot_at S' j \<and> heap S'' (slot_conn (slot_at S' j)) = heap S' (slot_conn (slot_at S' j))"
      using 2 unfolding maint_rel_def by blast
    with s show ?thesis by simp
  qed
  moreover have "reg_count (pm S') = reg_count (pm S)" using 1 by (simp add: maint_rel_def reg_count_def fun_eq_iff)
  ultimately show ?thesis using 1 2 by (simp add: maint_rel_def)
qed

lemma maint_set_slot: "\<not> kept t S i \<Longrightarrow> maint_rel t S (set_slot i s S)"
  by (auto simp: maint_rel_def intro!: nth_list_update_neq)

section \<open>Zombie slots\<close>

lemma reclaim_slot_spec:
  assumes ok: "pool_ok hold S" and i: "i < length (slots (pm S))"
  shows "returns (reclaim_slot t i S) (\<lambda>S'. pool_ok hold S' \<and> maint_rel t S S')"
proof (cases "slot_state (slot_at S i) = SLOT_READY \<and>
    zombie_reclaimable (slot_is_referenced (pm S) i) (t - slot_last_used (slot_at S i)) (int (idle_timeout_secs (pm S)))")
  case True
  let ?s = "snd (try_reclaim_zombie (slot_at S i))"
  have sok: "slot_ok S (slot_at S i)" by (rule pool_okD [OF ok i])
  then have nz: "slot_conn (slot_at S i) \<noteq> 0" using True by (simp add: slot_ok_def)
  obtain c where c: "heap S (slot_conn (slot_at S i)) = Some c" using heap_slot_alloc [OF ok i nz] .
  have s: "?s = (slot_at S i)\<lparr>slot_state := SLOT_FREE\<rparr>" using True by (simp add: try_reclaim_zombie_def compare_exchange_def)
  have "pool_ok hold (set_slot i ?s S)"
    using sok True by (intro pool_ok_set_slot [OF ok _ i]) (simp_all add: s slot_ok_def)
  moreover have "streaming_active c = 0 \<Longrightarrow> \<not> kept t S i"
    using True c by (auto simp: kept_def zombie_reclaimable_def streaming_def)
  ultimately show ?thesis
    using True nz c ok maint_set_slot by (auto simp: reclaim_slot_def Let_def conn_is_streaming_active_ptr_def)
qed (use ok in \<open>auto simp: reclaim_slot_def Let_def\<close>)

lemma reclaim_slots_spec:
  assumes "pool_ok hold S" "\<forall>i\<in>set is. i < length (slots (pm S))"
  shows "returns (reclaim_slots t is S) (\<lambda>S'. pool_ok hold S' \<and> maint_rel t S S')"
  using assms
proof (induction "is" arbitrary: S)
  case (Cons i "is")
  from returnsD [OF reclaim_slot_spec [OF Cons.prems(1), of i t]] Cons.prems(2)
  obtain S1 where S1: "reclaim_slot t i S = Some S1" "pool_ok hold S1" "maint_rel t S S1" by auto
  have "returns (reclaim_slots t is S1) (\<lambda>S'. pool_ok hold S' \<and> maint_rel t S1 S')"
    by (rule Cons.IH) (use S1 Cons.prems in \<open>auto simp: maint_rel_def\<close>)
  then have "returns (reclaim_slots t is S1) (\<lambda>S'. pool_ok hold S' \<and> maint_rel t S S')"
    by (rule returns_weaken) (blast intro: maint_rel_trans [OF S1(3)])
  then show ?case using S1(1) by simp
qed simp

section \<open>Idle connections\<close>

text \<open>
  What the reaper takes out of the slots is in its hands until it is destroyed: the account
  of references stays exact throughout, and no slot has a connection that is in its hands.
\<close>

definition taken :: "(ptr \<Rightarrow> nat) \<Rightarrow> (usize \<times> ptr) list \<Rightarrow> ptr \<Rightarrow> nat" where
  "taken hold ds p = hold p + count_list (map snd ds) p"

lemma taken_Nil [simp]: "taken hold [] = hold"
  by (simp add: taken_def fun_eq_iff)

lemma taken_Cons: "taken hold ((i, p) # ds) = (taken hold ds)(p := Suc (taken hold ds p))"
  by (simp add: taken_def fun_eq_iff)

lemma taken_hold: "taken (hold(p := Suc (hold p))) ds = taken hold ((i, p) # ds)"
  by (simp add: taken_def fun_eq_iff)

lemma reap_slot_cases:
  assumes "reap_slot t i m = (d, m')"
  shows "d = None \<and> m' = m \<or> (\<exists>s. d = Some (i, slot_conn (slots m ! i)) \<and> m' = m\<lparr>slots := (slots m)[i := s]\<rparr>
    \<and> slot_conn (slots m ! i) \<noteq> 0 \<and> slot_state (slots m ! i) = SLOT_FREE \<and> \<not> slot_is_referenced m i
    \<and> slot_conn s = 0 \<and> slot_state s = SLOT_FREE)"
  using assms
  by (auto simp: reap_slot_def Let_def try_claim_free_def compare_exchange_def split: if_splits)

lemma slot_count_drop:
  assumes "i < length (slots m)" "slot_conn s = 0" "q \<noteq> 0"
  shows "slot_count (m\<lparr>slots := (slots m)[i := s]\<rparr>) q \<le> slot_count m q"
  using slot_count_update [OF assms(1), of s q] assms(2,3) by (simp split: if_splits)

lemma reap_slots_spec:
  assumes "pool_ok hold S" "\<forall>i\<in>set is. i < length (slots (pm S))" "reap_slots t is (pm S) = (ds, m')"
  shows "pool_ok (taken hold ds) (S\<lparr>pm := m'\<rparr>) \<and> maint_rel t S (S\<lparr>pm := m'\<rparr>)
    \<and> (\<forall>q. q \<noteq> 0 \<longrightarrow> slot_count m' q \<le> slot_count (pm S) q)
    \<and> (\<forall>p \<in> snd ` set ds. p \<noteq> 0 \<and> slot_count m' p = 0 \<and> reg_count m' p = 0)"
  using assms
proof (induction "is" arbitrary: S hold ds m')
  case (Cons i "is")
  obtain d m1 where d: "reap_slot t i (pm S) = (d, m1)" by (cases "reap_slot t i (pm S)")
  obtain rest m2 where r: "reap_slots t is m1 = (rest, m2)" by (cases "reap_slots t is m1")
  have ds: "ds = (case d of None \<Rightarrow> rest | Some x \<Rightarrow> x # rest)" "m' = m2" using Cons.prems(3) d r by simp_all
  have i: "i < length (slots (pm S))" using Cons.prems(2) by simp
  from reap_slot_cases [OF d] show ?case
  proof (elim disjE exE conjE)
    assume "d = None" "m1 = pm S"
    with Cons.IH [OF Cons.prems(1), of rest m2] r ds Cons.prems(2) show ?thesis by simp
  next
    fix s
    let ?p = "slot_conn (slot_at S i)"
    assume s: "d = Some (i, ?p)" "m1 = (pm S)\<lparr>slots := (slots (pm S))[i := s]\<rparr>" "?p \<noteq> 0" "slot_state (slot_at S i) = SLOT_FREE"
      "\<not> slot_is_referenced (pm S) i" "slot_conn s = 0" "slot_state s = SLOT_FREE"
    let ?S1 = "set_slot i s S"
    have pm1: "pm ?S1 = m1" by (simp add: s)
    have w: "working i (hold(?p := Suc (hold ?p))) ?S1" and out: "slot_count m1 ?p = 0"
      using working_take_out [OF Cons.prems(1) _ i s(6) refl s(3)] by (simp_all add: s(2))
    have "slot_ok ?S1 (slot_at ?S1 i)" using i s by (simp add: slot_ok_def)
    with w have ok1: "pool_ok (hold(?p := Suc (hold ?p))) ?S1" by (rule pool_okI)
    have rng: "\<forall>j\<in>set is. j < length (slots (pm ?S1))" using Cons.prems(2) by simp
    have r1: "reap_slots t is (pm ?S1) = (rest, m2)" by (simp only: pm1 r)
    note IH0 = Cons.IH [OF ok1 rng r1, unfolded pm1]
    have IH: "pool_ok (taken (hold(?p := Suc (hold ?p))) rest) (?S1\<lparr>pm := m2\<rparr>)" "maint_rel t ?S1 (?S1\<lparr>pm := m2\<rparr>)"
      "\<forall>q. q \<noteq> 0 \<longrightarrow> slot_count m2 q \<le> slot_count m1 q" "\<forall>p \<in> snd ` set rest. p \<noteq> 0 \<and> slot_count m2 p = 0 \<and> reg_count m2 p = 0"
      by (rule conjunct1 [OF IH0], rule conjunct1 [OF conjunct2 [OF IH0]], rule conjunct1 [OF conjunct2 [OF conjunct2 [OF IH0]]],
          rule conjunct2 [OF conjunct2 [OF conjunct2 [OF IH0]]])
    have eq: "?S1\<lparr>pm := m2\<rparr> = S\<lparr>pm := m2\<rparr>" by (simp add: set_slot_def)
    have "maint_rel t S ?S1" by (rule maint_set_slot) (use s in \<open>simp add: kept_def\<close>)
    then have "maint_rel t S (S\<lparr>pm := m2\<rparr>)" using IH(2) unfolding eq by (rule maint_rel_trans)
    moreover have "slot_count m2 q \<le> slot_count (pm S) q" if "q \<noteq> 0" for q
      using IH(3) that slot_count_drop [OF i s(6) that] s(2) by (meson le_trans)
    moreover have "slot_count m2 ?p = 0" using IH(3) [rule_format, OF s(3)] out by simp
    moreover have "reg_count (pm S) ?p = 0" using taken_unregistered [OF Cons.prems(1) i refl s(3), of i s] by (simp add: reg_count_def)
    then have "reg_count m2 ?p = 0" using IH(2) by (simp add: maint_rel_def reg_count_def)
    ultimately show ?thesis
      using IH(1,4) s(1,3) ds unfolding eq taken_hold [of hold ?p rest i] by auto
  qed
qed simp

lemma destroy_all_spec:
  assumes "pool_ok (taken hold ds) S" "\<forall>p \<in> snd ` set ds. p \<noteq> 0 \<and> slot_count (pm S) p = 0 \<and> reg_count (pm S) p = 0"
  shows "returns (destroy_all L ds S) (\<lambda>S'. pool_ok hold S' \<and> maint_rel t S S')"
  using assms
proof (induction ds arbitrary: S)
  case (Cons d ds)
  obtain i p where d: "d = (i, p)" by (cases d)
  have p: "p \<noteq> 0" "slot_count (pm S) p = 0" and unreg: "reg_count (pm S) p = 0" using Cons.prems(2) d by auto
  from Cons.prems(1) have "pool_ok ((taken hold ds)(p := Suc (taken hold ds p))) S" unfolding d taken_Cons .
  from returnsD [OF destroy_working [OF this p, of L]]
  obtain S1 where S1: "destroy_pool_connection L p S = Some S1" "pool_ok (taken hold ds) S1" "pool_same S S1"
    "\<forall>q. q \<noteq> p \<longrightarrow> heap S1 q = heap S q" by blast
  note pm = pool_same_pm [OF S1(3)]
  have "slot_conn (slot_at S j) \<noteq> p" if "j < length (slots (pm S))" for j
    using slot_count_at [OF that] p(2) by auto
  moreover have "q \<noteq> p" if "0 < reg_count (pm S) q" for q using that unreg by auto
  ultimately have rel: "maint_rel t S S1" using pm S1(3,4) by (simp add: maint_rel_def pool_same_def)
  have "slot_count (pm S1) q = slot_count (pm S) q" "reg_count (pm S1) q = reg_count (pm S) q" for q
    using pm by (simp_all add: slot_count_def reg_count_def)
  then have "returns (destroy_all L ds S1) (\<lambda>S'. pool_ok hold S' \<and> maint_rel t S1 S')"
    using Cons.prems(2) d by (intro Cons.IH [OF S1(2)]) auto
  then have "returns (destroy_all L ds S1) (\<lambda>S'. pool_ok hold S' \<and> maint_rel t S S')"
    by (rule returns_weaken) (blast intro: maint_rel_trans [OF rel])
  then show ?case using S1(1) d by simp
qed simp

lemma reclaim_zombies_and_reap_spec:
  assumes ok: "pool_ok hold S" and ctx: "ctx_pool_size ctx \<le> pool_size (pm S)"
  shows "returns (reclaim_zombies_and_reap L ctx S) (\<lambda>S'. pool_ok hold S' \<and> maint_rel (now ctx) S S')"
proof -
  have "returns (reclaim_slots (now ctx) [0..<ctx_pool_size ctx] S) (\<lambda>S'. pool_ok hold S' \<and> maint_rel (now ctx) S S')"
    by (rule reclaim_slots_spec [OF ok]) (use ctx pool_size_le [OF ok] in auto)
  from returnsD [OF this] obtain S1 where S1: "reclaim_slots (now ctx) [0..<ctx_pool_size ctx] S = Some S1" "pool_ok hold S1"
    "maint_rel (now ctx) S S1" by blast
  let ?m = "(pm S1)\<lparr>last_reap_time := now ctx\<rparr>"
  let ?S1 = "S1\<lparr>pm := ?m\<rparr>"
  have ok1: "pool_ok hold ?S1" using S1(2) by (intro pool_ok_pm) (auto simp: pool_ok_but_def sizes_ok_def)
  have rel1: "maint_rel (now ctx) S ?S1" by (rule maint_rel_trans [OF S1(3)]) (simp add: maint_rel_def)
  obtain ds m' where r: "reap_idle (now ctx) ?m = (ds, m')" by (cases "reap_idle (now ctx) ?m")
  have reap: "pool_ok (taken hold ds) (?S1\<lparr>pm := m'\<rparr>)" "maint_rel (now ctx) ?S1 (?S1\<lparr>pm := m'\<rparr>)"
    "\<forall>p \<in> snd ` set ds. p \<noteq> 0 \<and> slot_count m' p = 0 \<and> reg_count m' p = 0"
    using reap_slots_spec [OF ok1, of "[0..<pool_size ?m]" "now ctx" ds m'] r pool_size_le [OF ok1]
    by (auto simp: reap_idle_def)
  have "returns (destroy_all L ds (?S1\<lparr>pm := m'\<rparr>)) (\<lambda>S'. pool_ok hold S' \<and> maint_rel (now ctx) (?S1\<lparr>pm := m'\<rparr>) S')"
    by (rule destroy_all_spec [OF reap(1)]) (use reap(3) in simp)
  then have "returns (destroy_all L ds (?S1\<lparr>pm := m'\<rparr>)) (\<lambda>S'. pool_ok hold S' \<and> maint_rel (now ctx) S S')"
    by (rule returns_weaken) (blast intro: maint_rel_trans [OF maint_rel_trans [OF rel1 reap(2)]])
  then show ?thesis using S1 r by (simp add: reclaim_zombies_and_reap_def)
qed

section \<open>The acquire\<close>

text \<open>
  A slot in use by another thread, with a handle recorded on it or a stream on its
  connection: neither the phases nor the maintenance pass touches it, whatever the time.
\<close>

definition in_use :: "tid \<Rightarrow> 'w shim \<Rightarrow> usize \<Rightarrow> bool" where
  "in_use t S j \<longleftrightarrow> protected t (slot_at S j) \<and> (slot_is_referenced (pm S) j \<or> streaming S (slot_conn (slot_at S j)))"

definition acquire_rel :: "tid \<Rightarrow> 'w shim \<Rightarrow> 'w shim \<Rightarrow> bool" where
  "acquire_rel t S S' \<longleftrightarrow> length (slots (pm S')) = length (slots (pm S)) \<and> registry (pm S') = registry (pm S)
     \<and> db_to_pool (pm S') = db_to_pool (pm S) \<and> configured_max_size (pm S') = configured_max_size (pm S)
     \<and> configured_size (pm S) \<le> configured_size (pm S') \<and> config S' = config S \<and> env S' = env S
     \<and> (\<forall>u. u \<noteq> t \<longrightarrow> tls_pool_cache S' u = tls_pool_cache S u \<and> retry_count S' u = retry_count S u)
     \<and> init_pid (pm S') = init_pid (pm S) \<and> (\<forall>p. p \<noteq> 0 \<longrightarrow> 0 < reg_count (pm S) p \<longrightarrow> heap S' p = heap S p)
     \<and> (\<forall>j<length (slots (pm S)). in_use t S j \<longrightarrow>
          slot_at S' j = slot_at S j \<and> heap S' (slot_conn (slot_at S j)) = heap S (slot_conn (slot_at S j)))"

lemma in_use_cong:
  "db_to_pool (pm S') = db_to_pool (pm S) \<Longrightarrow> slot_at S' j = slot_at S j \<Longrightarrow>
   heap S' (slot_conn (slot_at S j)) = heap S (slot_conn (slot_at S j)) \<Longrightarrow> in_use t S' j = in_use t S j"
  by (simp add: in_use_def slot_is_referenced_def streaming_def)

lemma acquire_rel_refl [simp]: "acquire_rel t S S"
  by (simp add: acquire_rel_def)

lemma acquire_rel_trans:
  assumes 1: "acquire_rel t S S'" and 2: "acquire_rel t S' S''"
  shows "acquire_rel t S S''"
proof -
  have "slot_at S'' j = slot_at S j \<and> heap S'' (slot_conn (slot_at S j)) = heap S (slot_conn (slot_at S j))"
    if j: "j < length (slots (pm S))" "in_use t S j" for j
  proof -
    have s: "slot_at S' j = slot_at S j" "heap S' (slot_conn (slot_at S j)) = heap S (slot_conn (slot_at S j))"
      using 1 j by (auto simp: acquire_rel_def)
    with 1 j have "in_use t S' j" by (subst in_use_cong [of S' S]) (auto simp: acquire_rel_def)
    moreover have "j < length (slots (pm S'))" using 1 j by (simp add: acquire_rel_def)
    ultimately have "slot_at S'' j = slot_at S' j \<and> heap S'' (slot_conn (slot_at S' j)) = heap S' (slot_conn (slot_at S' j))"
      using 2 unfolding acquire_rel_def by blast
    with s show ?thesis by simp
  qed
  moreover have "reg_count (pm S') = reg_count (pm S)" using 1 by (simp add: acquire_rel_def reg_count_def fun_eq_iff)
  ultimately show ?thesis using 1 2 by (simp add: acquire_rel_def)
qed

lemma phase_acquire_rel: "phase_rel t S S' \<Longrightarrow> acquire_rel t S S'"
  by (simp add: phase_rel_def acquire_rel_def in_use_def)

lemma maint_acquire_rel: "maint_rel n S S' \<Longrightarrow> acquire_rel t S S'"
  by (auto simp: maint_rel_def acquire_rel_def in_use_def kept_def protected_def)

lemma in_use_not_granted:
  assumes ok: "pool_ok hold S'" and rel: "acquire_rel t S S'" and g: "granted t conn S'"
    and j: "j < length (slots (pm S))" "in_use t S j"
  shows "slot_conn (slot_at S j) \<noteq> conn"
proof
  assume eq: "slot_conn (slot_at S j) = conn"
  obtain i where i: "i < pool_size (pm S')" "slot_conn (slot_at S' i) = conn" "conn \<noteq> 0" "owner_thread (slot_at S' i) = t"
    using g by (auto simp: granted_def)
  have s: "slot_at S' j = slot_at S j" "j < length (slots (pm S'))" using rel j by (auto simp: acquire_rel_def)
  have "i < length (slots (pm S'))" using i(1) pool_size_le [OF ok] by simp
  moreover have "i \<noteq> j" using i(4) s j(2) by (auto simp: in_use_def protected_def)
  ultimately show False using distinct_slot_conns [of "pm S'" i j] ok i s eq by (auto simp: pool_ok_but_def)
qed

definition acquire_spec :: "(ptr \<Rightarrow> nat) \<Rightarrow> tid \<Rightarrow> 'w shim \<Rightarrow> AcquireDecision \<times> 'w shim \<Rightarrow> bool" where
  "acquire_spec hold t S = (\<lambda>(d, S'). pool_ok hold S' \<and> acquire_rel t S S' \<and> retry_count S' t = retry_count S t
     \<and> (case d of Continue \<Rightarrow> True | Return conn \<Rightarrow> conn = 0 \<or> granted t conn S'))"

text \<open>The phases after the first, as one phase.\<close>

definition later_phases :: "'w libpq \<Rightarrow> AcquireCtx \<Rightarrow> 'w shim \<Rightarrow> (AcquireDecision \<times> 'w shim) option" where
  "later_phases = then_phase phase2_reuse_existing (then_phase phase3_create_empty (then_phase phase4_reclaim_error phase5_autogrow))"

interpretation later: acquire_phase later_phases
  unfolding later_phases_def by (intro then_phase) unfold_locales

lemma acquire_phases_eq:
  "acquire_phases L ctx S =
     do {
       S \<leftarrow> (if maintenance_due (pm S) (now ctx) then reclaim_zombies_and_reap L ctx S else Some S);
       (d, S) \<leftarrow> phase1_existing_ready L ctx S;
       case d of Return conn \<Rightarrow> Some (Return conn, S)
       | Continue \<Rightarrow> do { S \<leftarrow> reclaim_zombies_and_reap L ctx S; later_phases L ctx S }
     }"
  unfolding acquire_phases_def later_phases_def then_phase_def by (rule refl)

lemma maintenance_step:
  assumes ok: "pool_ok hold S" and ctx: "ctx_ok hold ctx S"
  obtains S' where "reclaim_zombies_and_reap L ctx S = Some S'" "pool_ok hold S'" "acquire_rel u S S'" "ctx_ok hold ctx S'"
    "retry_count S' = retry_count S"
proof -
  have "ctx_pool_size ctx \<le> pool_size (pm S)" using ctx by (simp add: ctx_ok_def)
  from returnsD [OF reclaim_zombies_and_reap_spec [OF ok this, of L]]
  obtain S' where S': "reclaim_zombies_and_reap L ctx S = Some S'" "pool_ok hold S'" "maint_rel (now ctx) S S'" by blast
  then have "ctx_ok hold ctx S'" using ctx by (simp add: ctx_ok_def maint_rel_def pool_size_def pool_max_def)
  moreover have "retry_count S' = retry_count S" using S'(3) by (simp add: maint_rel_def)
  ultimately show ?thesis using that S' maint_acquire_rel by blast
qed

lemma phase_spec_acquire:
  assumes "phase_spec hold ctx S1 r" "acquire_rel (current_thread ctx) S S1" "retry_count S1 = retry_count S"
  shows "acquire_spec hold (current_thread ctx) S r"
proof -
  obtain d S' where r: "r = (d, S')" by (cases r)
  have "acquire_rel (current_thread ctx) S S'"
    using assms by (intro acquire_rel_trans [OF assms(2) phase_acquire_rel]) (simp add: phase_spec_def r)
  moreover have "retry_count S' = retry_count S" using assms by (simp add: phase_spec_def phase_rel_def r)
  ultimately show ?thesis using assms(1) by (auto simp: acquire_spec_def phase_spec_def r split: AcquireDecision.splits)
qed

lemma acquire_phases_spec:
  assumes fresh: "calloc_fresh L" and ok: "pool_ok hold S" and ctx: "ctx_ok hold ctx S"
  shows "returns (acquire_phases L ctx S) (acquire_spec hold (current_thread ctx) S)"
proof -
  let ?t = "current_thread ctx"
  obtain S1 where S1: "(if maintenance_due (pm S) (now ctx) then reclaim_zombies_and_reap L ctx S else Some S) = Some S1"
    "pool_ok hold S1" "acquire_rel ?t S S1" "ctx_ok hold ctx S1" "retry_count S1 = retry_count S"
  proof (cases "maintenance_due (pm S) (now ctx)")
    case True
    with maintenance_step [OF ok ctx, of L ?t] that show ?thesis by auto
  qed (use ok ctx that in auto)
  obtain d S2 where p1: "phase1_existing_ready L ctx S1 = Some (d, S2)" and spec: "phase_spec hold ctx S1 (d, S2)"
    using returnsD [OF p1.phase [OF fresh S1(2,4)]] by auto
  note r1 = phase_spec_acquire [OF spec S1(3,5)]
  show ?thesis
  proof (cases d)
    case Continue
    have S2: "pool_ok hold S2" "ctx_ok hold ctx S2" using spec ctx_ok_rel [OF S1(4)] Continue by auto
    obtain S3 where S3: "reclaim_zombies_and_reap L ctx S2 = Some S3" "pool_ok hold S3" "acquire_rel ?t S2 S3" "ctx_ok hold ctx S3"
      "retry_count S3 = retry_count S2" using maintenance_step [OF S2] by blast
    have "acquire_rel ?t S S2" using r1 by (simp add: acquire_spec_def)
    then have rel3: "acquire_rel ?t S S3" using S3(3) by (rule acquire_rel_trans)
    have rc3: "retry_count S3 = retry_count S" using S3(5) S1(5) spec by (simp add: phase_spec_def phase_rel_def)
    have "returns (later_phases L ctx S3) (acquire_spec hold ?t S)"
      by (rule returns_weaken [OF later.phase [OF fresh S3(2,4)]]) (rule phase_spec_acquire [OF _ rel3 rc3])
    then show ?thesis using S1(1) p1 S3(1) Continue by (simp add: acquire_phases_eq)
  qed (use S1(1) p1 r1 in \<open>simp add: acquire_phases_eq\<close>)
qed

subsection \<open>The retries\<close>

lemma pool_ok_cong:
  assumes "pm S' = pm S" "heap S' = heap S" "txn_by_conn S' = txn_by_conn S" "txn_pins S' = txn_pins S" "stmt_caches S' = stmt_caches S"
  shows "pool_ok_but v hold S' = pool_ok_but v hold S"
  by (simp add: pool_ok_but_def assms mem_ok_heap_eq [of S' S] slot_ok_cong [of S' S] tables_ok_cong [of S' S])

lemma granted_retry [simp]: "granted t conn (retry_count_set u n S) = granted t conn S"
  by (simp add: granted_def retry_count_set_def)

lemma retry_set_ok [simp]: "pool_ok_but v hold (retry_count_set t n S) = pool_ok_but v hold S"
  by (rule pool_ok_cong) (simp_all add: retry_count_set_def)

lemma retry_set_rel [simp]: "acquire_rel t S (retry_count_set t n S)"
  by (simp add: acquire_rel_def retry_count_set_def)

lemma sleep_ok [simp]: "pool_ok_but v hold (sleep_ms L ms S) = pool_ok_but v hold S"
  by (rule pool_ok_cong) (simp_all add: sleep_ms_def)

lemma sleep_rel [simp]: "acquire_rel t S (sleep_ms L ms S)"
  by (simp add: acquire_rel_def sleep_ms_def)

lemma remember_ok: "pool_ok hold S \<Longrightarrow> pool_ok hold (remember_library_path path S)"
proof -
  assume ok: "pool_ok hold S"
  then have "sizes_ok ((pm S)\<lparr>library_db_path := Some path\<rparr>)" by (simp add: pool_ok_but_def sizes_ok_def)
  then have "pool_ok hold (S\<lparr>pm := (pm S)\<lparr>library_db_path := Some path\<rparr>\<rparr>)" by (rule pool_ok_pm [OF ok]) simp_all
  with ok show ?thesis by (simp add: remember_library_path_def)
qed

lemma remember_rel [simp]: "acquire_rel t S (remember_library_path path S)"
  by (simp add: acquire_rel_def remember_library_path_def)

lemma remember_simps [simp]:
  "retry_count (remember_library_path path S) = retry_count S" "env (remember_library_path path S) = env S"
  by (simp_all add: remember_library_path_def)

lemma acquire_fuel_spec:
  assumes fresh: "calloc_fresh L" and ok: "pool_ok hold S" and t: "t \<noteq> 0" and ex: "exclude \<noteq> 0 \<longrightarrow> 0 < hold exclude"
    and fuel: "length (get_retry_delays_vec (env S)) < fuel + retry_count S t"
  shows "returns (acquire_fuel fuel L t path exclude S) (\<lambda>(conn, S'). pool_ok hold S' \<and> acquire_rel t S S' \<and> (conn = 0 \<or> granted t conn S'))
    \<or> fuel = 0"
  using ok ex fuel
proof (induction fuel arbitrary: path exclude S)
  case (Suc fuel)
  show ?case
  proof (cases "resolve_selected_pool_path path S")
    case None
    with Suc.prems(1) show ?thesis by simp
  next
    case (Some selected)
    define S1 where "S1 = remember_library_path selected S"
    let ?ctx = "acquire_ctx L t selected exclude S1"
    have S1: "pool_ok hold S1" "acquire_rel t S S1" "env S1 = env S" "retry_count S1 = retry_count S"
      using remember_ok [OF Suc.prems(1)] by (simp_all add: S1_def)
    have ctx: "ctx_ok hold ?ctx S1" "current_thread ?ctx = t" using t Suc.prems(2) by (simp_all add: ctx_ok_def acquire_ctx_def)
    obtain d S2 where p: "acquire_phases L ?ctx S1 = Some (d, S2)" and spec: "acquire_spec hold t S1 (d, S2)"
      using returnsD [OF acquire_phases_spec [OF fresh S1(1) ctx(1)]] ctx(2) by auto
    have r2: "pool_ok hold S2" "acquire_rel t S1 S2" "retry_count S2 t = retry_count S1 t" using spec by (simp_all add: acquire_spec_def)
    have "env S2 = env S1" using r2(2) by (simp add: acquire_rel_def)
    with r2 S1 acquire_rel_trans [OF S1(2) r2(2)]
    have S2: "pool_ok hold S2" "acquire_rel t S S2" "env S2 = env S" "retry_count S2 t = retry_count S t" by simp_all
    show ?thesis
    proof (cases "d = Continue \<and> retry_count S2 t < length (get_retry_delays_vec (env S2))")
      case True
      define S3 where "S3 = sleep_ms L (get_retry_delays_vec (env S2) ! retry_count S2 t) (retry_count_set t (Suc (retry_count S2 t)) S2)"
      have S3: "pool_ok hold S3" "acquire_rel t S S3"
        unfolding S3_def using S2(1) acquire_rel_trans [OF acquire_rel_trans [OF S2(2) retry_set_rel] sleep_rel] by simp_all
      have rc: "retry_count S3 t = Suc (retry_count S t)" "env S3 = env S"
        using S2(3,4) by (simp_all add: S3_def sleep_ms_def retry_count_set_def)
      have pos: "fuel \<noteq> 0" using Suc.prems(3) True S2(3,4) by auto
      have f: "length (get_retry_delays_vec (env S3)) < fuel + retry_count S3 t" using Suc.prems(3) rc by simp
      have "returns (acquire_fuel fuel L t selected 0 S3) (\<lambda>(conn, S'). pool_ok hold S' \<and> acquire_rel t S3 S' \<and> (conn = 0 \<or> granted t conn S'))"
        by (rule disjE [OF Suc.IH [OF S3(1) _ f, of 0 selected]]) (use pos in simp_all)
      from returnsD [OF this] obtain conn S4 where S4: "acquire_fuel fuel L t selected 0 S3 = Some (conn, S4)" "pool_ok hold S4"
        "acquire_rel t S3 S4" "conn = 0 \<or> granted t conn S4" by (elim exE conjE) (simp only: split_paired_all prod.case)
      have "acquire_rel t S S4" by (rule acquire_rel_trans [OF S3(2) S4(3)])
      moreover have "acquire_rel t S (retry_count_set t 0 S4)" by (rule acquire_rel_trans [OF calculation retry_set_rel])
      ultimately show ?thesis
        using Some p True S4 by (auto simp: S1_def [symmetric] S3_def [symmetric] Let_def)
    next
      case False
      have "acquire_rel t S (retry_count_set t 0 S2)" by (rule acquire_rel_trans [OF S2(2) retry_set_rel])
      then show ?thesis
        using Some p False S2(1,2) spec
        by (cases d) (simp_all add: S1_def [symmetric] Let_def acquire_spec_def)
    qed
  qed
qed simp

lemma acquire_on_spec:
  assumes "calloc_fresh L" "pool_ok hold S" "t \<noteq> 0" "exclude \<noteq> 0 \<longrightarrow> 0 < hold exclude"
  obtains conn S' where "acquire_on L t path exclude S = Some (conn, S')" "pool_ok hold S'" "acquire_rel t S S'" "conn = 0 \<or> granted t conn S'"
proof -
  have "returns (acquire_on L t path exclude S) (\<lambda>(conn, S'). pool_ok hold S' \<and> acquire_rel t S S' \<and> (conn = 0 \<or> granted t conn S'))"
    using acquire_fuel_spec [OF assms, of "Suc (length (get_retry_delays_vec (env S)))" path]
    unfolding acquire_on_def by (auto simp del: acquire_fuel.simps)
  from returnsD [OF this] that show ?thesis by (elim exE conjE) (simp only: split_paired_all prod.case)
qed

text \<open>
  C9. Acquiring a connection always returns, after finitely many retries and without
  following a dangling pointer, whatever the server answers. It leaves the pool sound, with
  the reference account of every connection exact; it leaves every slot that another thread
  is using with a handle or a stream, and that slot's connection, as they were; and what it
  hands out is null or a connection the thread now owns alone, active and not streaming.
\<close>

theorem acquire_exclusive:
  assumes "calloc_fresh L" and "pool_ok hold S" and "t \<noteq> 0" and "exclude \<noteq> 0 \<longrightarrow> 0 < hold exclude"
  shows "\<exists>conn S'. acquire_on L t path exclude S = Some (conn, S') \<and> pool_ok hold S' \<and> acquire_rel t S S'
    \<and> (if conn = 0 then True else granted t conn S' \<and> (\<forall>j<length (slots (pm S)). in_use t S j \<longrightarrow> slot_conn (slot_at S j) \<noteq> conn))"
proof -
  obtain conn S' where r: "acquire_on L t path exclude S = Some (conn, S')" "pool_ok hold S'"
    "acquire_rel t S S'" "conn = 0 \<or> granted t conn S'" using acquire_on_spec [OF assms] .
  with in_use_not_granted [OF r(2,3)] show ?thesis by auto
qed

lemma pool_ok_demo: "pool_ok (\<lambda>_. 0) (demo_shim w)"
proof -
  have s: "slots (pm (demo_shim w)) = [PoolSlot_new, PoolSlot_new]" "registry (pm (demo_shim w)) = []" "heap (demo_shim w) = Map.empty"
    by (simp_all add: demo_shim_def PoolManager_new_def numeral_2_eq_2)
  have "refs (\<lambda>_. 0) (pm (demo_shim w)) = (\<lambda>_. 0)"
    by (auto simp: refs_def slot_count_def reg_count_def s PoolSlot_new_def hm_values_def fun_eq_iff)
  moreover have "tables_ok (demo_shim w)" by (simp add: tables_ok_def txn_maps_ok_def caches_ok_def demo_shim_def hm_ok_def hm_get_def)
  moreover have "sizes_ok (pm (demo_shim w))" by (simp add: sizes_ok_def demo_shim_def PoolManager_new_def hm_ok_def)
  ultimately show ?thesis
    by (simp add: pool_ok_but_def apart_def slot_conns_def mem_ok_def s PoolSlot_new_def slot_ok_def less_Suc_eq)
qed

theorem acquire_exclusive_witness:
  "\<exists>conn S'. acquire_on (quiet_pq id Suc) 3 ''/x/com.plexapp.plugins.library.db'' 0 (demo_shim (7 :: nat)) = Some (conn, S')
    \<and> pool_ok (\<lambda>_. 0) S' \<and> (if conn = 0 then True else granted 3 conn S')"
  using acquire_exclusive [OF quiet_pq_fresh pool_ok_demo, of 3 0 id Suc "''/x/com.plexapp.plugins.library.db''" 7] by fastforce

text \<open>
  C10. The maintenance pass, run at any time, never touches a slot that a handle is recorded
  on, or that is in use and has a stream or was used within the idle timeout: that slot and
  its connection are as they were, and no reference in the process is left dangling.
\<close>

theorem maintenance_spares_users:
  assumes "pool_ok hold S" and "ctx_pool_size ctx \<le> pool_size (pm S)"
  shows "\<exists>S'. reclaim_zombies_and_reap L ctx S = Some S' \<and> pool_ok hold S'
    \<and> (\<forall>j<length (slots (pm S)). kept (now ctx) S j \<longrightarrow>
         slot_at S' j = slot_at S j \<and> heap S' (slot_conn (slot_at S j)) = heap S (slot_conn (slot_at S j)))"
  using returnsD [OF reclaim_zombies_and_reap_spec [OF assms, of L]] by (auto simp: maint_rel_def)

theorem maintenance_spares_users_witness:
  "\<exists>S'. reclaim_zombies_and_reap (quiet_pq id Suc) (acquire_ctx (quiet_pq id Suc) 3 ''x'' 0 (demo_shim 7)) (demo_shim (7 :: nat)) = Some S'
    \<and> pool_ok (\<lambda>_. 0) S'"
  using maintenance_spares_users [OF pool_ok_demo, of "acquire_ctx (quiet_pq id Suc) 3 ''x'' 0 (demo_shim 7)" 7 "quiet_pq id Suc"]
  by (auto simp: acquire_ctx_def)

end
