(* ===== verification/Pool_Runtime.thy ===== *)
theory Pool_Runtime
  imports Pool_Maintenance
begin

text \<open>
  Giving a slot back and checking a connection's health (\<^verbatim>\<open>pg_client/pool_runtime.rs\<close>), with
  the cancelling and draining of a connection that the release asks for
  (\<open>rust_step_conn_cancel_and_drain\<close> of \<^verbatim>\<open>db_interpose_conn_utils.rs\<close>).

  The quick drain loops until libpq has no more results and has no bound of its own: it is a
  partial function, whose \<^const>\<open>None\<close> is not returning, and it returns because libpq's
  results are finitely many. The slow drain stops by itself after 1001 results.
\<close>

section \<open>Draining a connection\<close>

partial_function (option) drain_results :: "'w libpq \<Rightarrow> ptr \<Rightarrow> 'w \<Rightarrow> 'w option" where
  "drain_results L pgc w =
     (let (more, w1) = rust_pq_get_result L pgc w in
      if is_null more then Some w1 else drain_results L pgc (rust_pq_clear L more w1))"

text \<open>The loop after a cancel: \<open>n\<close> is how many more results it takes.\<close>

fun drain_counted :: "nat \<Rightarrow> 'w libpq \<Rightarrow> ptr \<Rightarrow> 'w \<Rightarrow> 'w" where
  "drain_counted 0 L pgc w = w"
| "drain_counted (Suc n) L pgc w =
     (let (pending, w1) = rust_pq_get_result L pgc w in
      if is_null pending then w1 else drain_counted n L pgc (rust_pq_clear L pending w1))"

definition DRAIN_LIMIT :: nat where "DRAIN_LIMIT = 1001"

definition cancel_query :: "'w libpq \<Rightarrow> ptr \<Rightarrow> 'w \<Rightarrow> 'w" where
  "cancel_query L pgc w =
     (let (_, w1) = rust_pq_set_nonblocking L pgc 0 w;
          (cancel, w2) = rust_pq_get_cancel L pgc w1
      in if is_null cancel then w2
         else let (_, w3) = rust_pq_cancel L cancel w2 in rust_pq_free_cancel L cancel w3)"

definition rust_step_conn_cancel_and_drain :: "'w libpq \<Rightarrow> ptr \<Rightarrow> 'w shim \<Rightarrow> 'w shim option" where
  "rust_step_conn_cancel_and_drain L conn S =
     (if is_null conn then Some S
      else do {
        c \<leftarrow> heap S conn;
        if is_null (pg_conn c) then Some S
        else if streaming_active c \<noteq> 0 then Some S
        else do {
          let (_, w1) = rust_pq_consume_input L (pg_conn c) (world S);
          if rust_pq_is_busy L (pg_conn c) w1 = 0 then do {
            let (pending, w2) = rust_pq_get_result L (pg_conn c) w1;
            if is_null pending then Some (S\<lparr>world := w2\<rparr>)
            else do {
              w3 \<leftarrow> drain_results L (pg_conn c) (rust_pq_clear L pending w2);
              Some (S\<lparr>world := w3\<rparr>)
            }
          }
          else Some (S\<lparr>world := drain_counted DRAIN_LIMIT L (pg_conn c) (cancel_query L (pg_conn c) w1)\<rparr>)
        }
      })"

section \<open>Release\<close>

definition settle_connection_before_release :: "'w libpq \<Rightarrow> ptr \<Rightarrow> 'w shim \<Rightarrow> 'w shim option" where
  "settle_connection_before_release L conn S =
     (if is_null conn then Some S
      else do {
        streaming \<leftarrow> conn_is_streaming_active_ptr conn S;
        S \<leftarrow> (if streaming then do {
                S \<leftarrow> rust_step_conn_cancel_and_drain L conn S;
                modify_conn conn (\<lambda>c. c\<lparr>streaming_active := 0\<rparr>) S
              }
              else Some S);
        txn \<leftarrow> get_txn_status L conn S;
        (_, S) \<leftarrow> (if txn = PQTRANS_INTRANS \<or> txn = PQTRANS_INERROR then exec_simple L conn ''ROLLBACK'' S else Some (True, S));
        Some (forget_connection conn S)
      })"

definition release_slot :: "'w libpq \<Rightarrow> tid \<Rightarrow> usize \<Rightarrow> 'w shim \<Rightarrow> 'w shim option" where
  "release_slot L t i S =
     (let s = slot_at S i in
      if i < pool_size (pm S) \<and> threads_equal (owner_thread s) t \<and> slot_state s = SLOT_READY
      then do {
        S \<leftarrow> settle_connection_before_release L (slot_conn s) S;
        Some (set_slot i ((slot_at S i)\<lparr>owner_thread := 0, slot_state := SLOT_FREE\<rparr>) S)
      }
      else Some S)"

definition pool_release_for_db_inner :: "'w libpq \<Rightarrow> tid \<Rightarrow> ptr \<Rightarrow> 'w shim \<Rightarrow> 'w shim option" where
  "pool_release_for_db_inner L t db S =
     (let S = forget_db db S;
          slot_opt = hm_get (db_to_pool (pm S)) db;
          S = S\<lparr>pm := (pm S)\<lparr>db_to_pool := hm_remove db (db_to_pool (pm S))\<rparr>\<rparr>
      in do {
        S \<leftarrow> (case slot_opt of None \<Rightarrow> Some S | Some slot_idx \<Rightarrow> release_slot L t slot_idx S);
        Some (tls_pool_cache_clear t S)
      })"

section \<open>Health check\<close>

definition health_slot :: "'w libpq \<Rightarrow> ptr \<Rightarrow> usize \<Rightarrow> 'w shim \<Rightarrow> (int \<times> 'w shim) option" where
  "health_slot L conn i S =
     do {
       S \<leftarrow> rust_stmt_cache_clear L conn S;
       (reset_ok, S) \<leftarrow> reset_conn L conn S;
       if reset_ok
       then Some (1, set_slot i (mark_ready ((slot_at S i)\<lparr>slot_last_used := unix_time L (world S)\<rparr>)) S)
       else do {
         (reconn_ok, S) \<leftarrow> reconnect_conn L conn S;
         Some (1, if reconn_ok
                  then set_slot i (mark_ready ((slot_at S i)\<lparr>slot_last_used := unix_time L (world S)\<rparr>)) S
                  else set_slot i (mark_error (slot_at S i)) S)
       }
     }"

definition pool_check_health_inner :: "'w libpq \<Rightarrow> tid \<Rightarrow> ptr \<Rightarrow> 'w shim \<Rightarrow> (int \<times> 'w shim) option" where
  "pool_check_health_inner L t conn S =
     (if is_null conn then Some (0, S)
      else do {
        ok \<leftarrow> check_conn_ok L conn S;
        if ok then Some (0, S)
        else case find (\<lambda>i. slot_conn (slot_at S i) = conn \<and> threads_equal (owner_thread (slot_at S i)) t) [0..<pool_size (pm S)] of
          None \<Rightarrow> Some (0, S)
        | Some i \<Rightarrow>
            (let (began, s) = try_begin_reconnect (slot_at S i) in
             if \<not> began then Some (0, S) else health_slot L conn i (set_slot i s S))
      })"

section \<open>The drain returns\<close>

text \<open>
  What libpq documents of \<open>PQgetResult\<close>: it hands out the finitely many results that are
  pending, one at a time, and then null.
\<close>

definition results_finite :: "'w libpq \<Rightarrow> ('w \<Rightarrow> nat) \<Rightarrow> ptr \<Rightarrow> bool" where
  "results_finite L pending pgc \<longleftrightarrow> (\<forall>w. let (r, w1) = PQgetResult L pgc w in
     r = 0 \<and> pending w1 = 0 \<or> r \<noteq> 0 \<and> pending (PQclear L r w1) < pending w)"

lemma drain_results_returns:
  assumes "results_finite L pending pgc"
  shows "\<exists>w'. drain_results L pgc w = Some w' \<and> (pgc \<noteq> 0 \<longrightarrow> pending w' = 0)"
proof (induction "pending w" arbitrary: w rule: less_induct)
  case less
  obtain r w1 where r: "PQgetResult L pgc w = (r, w1)" by (cases "PQgetResult L pgc w")
  show ?case
  proof (cases "pgc = 0 \<or> r = 0")
    case True
    then show ?thesis
      using assms r by (subst drain_results.simps) (auto simp: rust_pq_get_result_def results_finite_def Let_def dest: spec [of _ w])
  next
    case False
    with assms r have "pending (PQclear L r w1) < pending w"
      by (auto simp: results_finite_def Let_def dest: spec [of _ w])
    from less [OF this] obtain w' where "drain_results L pgc (PQclear L r w1) = Some w'" "pgc \<noteq> 0 \<longrightarrow> pending w' = 0" by blast
    with False r show ?thesis
      by (subst drain_results.simps) (simp add: rust_pq_get_result_def rust_pq_clear_def)
  qed
qed

text \<open>The forced drain of a release: with a stream open it does nothing, whatever libpq would answer.\<close>

lemma drain_skips_streams:
  "heap S conn = Some c \<Longrightarrow> streaming_active c \<noteq> 0 \<Longrightarrow> rust_step_conn_cancel_and_drain L conn S = Some S"
  by (simp add: rust_step_conn_cancel_and_drain_def)

section \<open>The release keeps the pool sound\<close>

lemma settle_spec:
  assumes c: "heap S p = Some c" and p: "p \<noteq> 0"
  shows "returns (settle_connection_before_release L p S) (\<lambda>S'. conn_step p S S'
    \<and> heap S' = (heap S)(p \<mapsto> c\<lparr>streaming_active := 0\<rparr>) \<and> hm_get (txn_by_conn S') p = None)"
proof -
  let ?S = "S\<lparr>heap := (heap S)(p \<mapsto> c\<lparr>streaming_active := 0\<rparr>)\<rparr>"
  have flag: "(if streaming_active c \<noteq> 0 then do {
        S \<leftarrow> rust_step_conn_cancel_and_drain L p S; modify_conn p (\<lambda>c. c\<lparr>streaming_active := 0\<rparr>) S } else Some S) = Some ?S"
    using c drain_skips_streams [OF c, of L] by (auto simp: fun_upd_idem)
  have c': "heap ?S p = Some (c\<lparr>streaming_active := 0\<rparr>)" by simp
  have "get_txn_status L p ?S \<noteq> None" using p by (simp add: get_txn_status_def)
  then obtain txn where txn: "get_txn_status L p ?S = Some txn" by blast
  have rb: "returns (if b then exec_simple L p sql ?S else Some (True, ?S)) (\<lambda>(_, S'). pool_same ?S S' \<and> heap S' = heap ?S)" for b sql
    using exec_simple_ok [OF c', of L sql] by (auto intro: returns_weaken)
  have last: "conn_step p S (forget_connection p S1) \<and> heap (forget_connection p S1) = heap ?S \<and> hm_get (txn_by_conn (forget_connection p S1)) p = None"
    if "pool_same ?S S1" "heap S1 = heap ?S" for S1
  proof -
    have "pool_same S (forget_connection p S1)"
      by (rule pool_same_trans [OF heap_same pool_same_trans [OF that(1) forget_same]])
    then have "conn_step p S (forget_connection p S1)"
      using c that(2) by (intro conn_stepI [of _ _ _ c "c\<lparr>streaming_active := 0\<rparr>"]) (simp_all add: frame_simps)
    then show ?thesis using that(2) p by (simp add: frame_simps forget_connection_def drop_txn_def)
  qed
  have "settle_connection_before_release L p S = do {
      (_, S) \<leftarrow> (if txn = PQTRANS_INTRANS \<or> txn = PQTRANS_INERROR then exec_simple L p ''ROLLBACK'' ?S else Some (True, ?S));
      Some (forget_connection p S) }"
    unfolding settle_connection_before_release_def using p c flag txn
    by (simp add: conn_is_streaming_active_ptr_def cong: if_cong)
  then show ?thesis
    unfolding returns_bind returns_case_prod returns_Some
    by (simp only: returns_bind returns_case_prod returns_Some)
      (rule returns_weaken [OF rb], simp only: split_paired_all prod.case, use last in simp)
qed

lemma release_slot_spec:
  assumes ok: "pool_ok hold S"
  shows "returns (release_slot L t i S) (\<lambda>S'. pool_ok hold S' \<and> phase_rel t S S'
    \<and> (if i < pool_size (pm S) \<and> threads_equal (owner_thread (slot_at S i)) t \<and> slot_state (slot_at S i) = SLOT_READY
       then slot_at S' i = slot_release (slot_at S i) \<and> hm_get (txn_by_conn S') (slot_conn (slot_at S i)) = None
         \<and> conn_is_streaming_active_ptr (slot_conn (slot_at S i)) S' = Some False
       else S' = S))"
proof (cases "i < pool_size (pm S) \<and> threads_equal (owner_thread (slot_at S i)) t \<and> slot_state (slot_at S i) = SLOT_READY")
  case True
  let ?s = "slot_at S i" and ?p = "slot_conn (slot_at S i)"
  have len: "i < length (slots (pm S))" using True pool_size_le [OF ok] by simp
  have own: "owner_thread ?s = t" using True by (simp add: threads_equal_def)
  have nz: "?p \<noteq> 0" and act: "active S ?p" using pool_okD [OF ok len] True by (simp_all add: slot_ok_def)
  then obtain c where c: "heap S ?p = Some c" "is_pg_active c \<noteq> 0" by (auto simp: active_def)
  have np: "\<not> protected t ?s" using own by (simp add: protected_def)
  have "pool_ok hold S' \<and> phase_rel t S S' \<and> slot_at S' i = slot_release ?s \<and> hm_get (txn_by_conn S') ?p = None
      \<and> conn_is_streaming_active_ptr ?p S' = Some False"
    if st: "conn_step ?p S S1" "heap S1 = (heap S)(?p \<mapsto> c\<lparr>streaming_active := 0\<rparr>)" "hm_get (txn_by_conn S1) ?p = None"
      and S': "S' = set_slot i ((slot_at S1 i)\<lparr>owner_thread := 0, slot_state := SLOT_FREE\<rparr>) S1" for S1 S'
  proof -
    have w: "working i hold S1" by (rule working_conn_step [OF pool_ok_working [OF ok] len refl nz st(1)])
    have slots: "slots (pm S1) = slots (pm S)" using pool_same_pm st(1) by (auto simp: conn_step_def)
    have "slot_ok S1 ((slot_at S1 i)\<lparr>owner_thread := 0, slot_state := SLOT_FREE\<rparr>)"
      using c(2) by (simp add: slot_ok_def active_def slots st(2))
    then have "pool_ok hold S'" unfolding S' using len slots by (intro pool_ok_set_slot [OF w]) simp_all
    moreover have "phase_rel t S S'"
      unfolding S' by (rule phase_rel_trans [OF rel_conn_step [OF ok len np refl nz st(1)] rel_set_slot]) (use np slots in simp)
    ultimately show ?thesis
      using len slots st nz by (simp add: S' slot_release_def conn_is_streaming_active_ptr_def)
  qed
  then show ?thesis
    using True settle_spec [OF c(1) nz, of L] by (auto simp: release_slot_def Let_def intro: returns_weaken)
qed (use ok in \<open>auto simp: release_slot_def Let_def\<close>)

lemma pool_ok_forget_db: "pool_ok hold S \<Longrightarrow> pool_ok hold (forget_db db S)"
proof (rule pool_ok_same_heap)
  show "pool_same S (forget_db db S)" by (rule pool_sameI) (simp_all add: frame_simps tables_ok_forget_db)
qed (simp_all add: frame_simps)

lemma pool_ok_tls_clear: "pool_ok hold (tls_pool_cache_clear t S) = pool_ok hold S"
  by (rule pool_ok_cong) (simp_all add: tls_pool_cache_clear_def)

lemma tls_clear_simps [simp]:
  "pm (tls_pool_cache_clear t S) = pm S" "heap (tls_pool_cache_clear t S) = heap S"
  "txn_by_conn (tls_pool_cache_clear t S) = txn_by_conn S" "txn_pins (tls_pool_cache_clear t S) = txn_pins S"
  "TlsPoolCache_is_empty (tls_pool_cache (tls_pool_cache_clear t S) t)"
  by (simp_all add: tls_pool_cache_clear_def TlsPoolCache_is_empty_def TlsPoolCache_EMPTY_def)

text \<open>The record a release takes back, before it turns to the slot.\<close>

definition unassigned :: "ptr \<Rightarrow> 'w shim \<Rightarrow> 'w shim" where
  "unassigned db S = (forget_db db S)\<lparr>pm := (pm S)\<lparr>db_to_pool := hm_remove db (db_to_pool (pm S))\<rparr>\<rparr>"

lemma unassigned_simps [simp]:
  "slots (pm (unassigned db S)) = slots (pm S)" "heap (unassigned db S) = heap S"
  "pool_size (pm (unassigned db S)) = pool_size (pm S)"
  "db_to_pool (pm (unassigned db S)) = hm_remove db (db_to_pool (pm S))"
  "txn_pins (unassigned db S) = hm_remove db (txn_pins S)" "txn_by_conn (unassigned db S) = txn_by_conn S"
  by (simp_all add: unassigned_def frame_simps pool_size_def pool_max_def forget_db_def)

lemma pool_ok_unassigned: "pool_ok hold S \<Longrightarrow> pool_ok hold (unassigned db S)"
  unfolding unassigned_def
  by (rule pool_ok_pm [OF pool_ok_forget_db]) (auto simp: pool_ok_but_def sizes_ok_def frame_simps)

lemma release_eq:
  "pool_release_for_db_inner L t db S =
     do { S \<leftarrow> (case hm_get (db_to_pool (pm S)) db of None \<Rightarrow> Some (unassigned db S) | Some i \<Rightarrow> release_slot L t i (unassigned db S));
          Some (tls_pool_cache_clear t S) }"
  by (simp add: pool_release_for_db_inner_def unassigned_def Let_def frame_simps cong: option.case_cong)

definition released :: "tid \<Rightarrow> usize \<Rightarrow> 'w shim \<Rightarrow> 'w shim \<Rightarrow> bool" where
  "released t i S S' \<longleftrightarrow>
     (if i < pool_size (pm S) \<and> threads_equal (owner_thread (slot_at S i)) t \<and> slot_state (slot_at S i) = SLOT_READY
      then slot_at S' i = slot_release (slot_at S i) \<and> hm_get (txn_by_conn S') (slot_conn (slot_at S i)) = None
        \<and> conn_is_streaming_active_ptr (slot_conn (slot_at S i)) S' = Some False
      else slots (pm S') = slots (pm S) \<and> heap S' = heap S)"

lemma release_spec:
  assumes "pool_ok hold S"
  shows "returns (pool_release_for_db_inner L t db S) (\<lambda>S'. pool_ok hold S' \<and> phase_rel t (unassigned db S) S'
    \<and> TlsPoolCache_is_empty (tls_pool_cache S' t)
    \<and> (case hm_get (db_to_pool (pm S)) db of None \<Rightarrow> slots (pm S') = slots (pm S) \<and> heap S' = heap S | Some i \<Rightarrow> released t i S S'))"
proof (cases "hm_get (db_to_pool (pm S)) db")
  case None
  have "phase_rel t (unassigned db S) (tls_pool_cache_clear t (unassigned db S))" by simp
  with None pool_ok_unassigned [OF assms, of db] show ?thesis
    by (simp add: release_eq pool_ok_tls_clear)
next
  case (Some i)
  have "pool_ok hold (tls_pool_cache_clear t S1) \<and> phase_rel t (unassigned db S) (tls_pool_cache_clear t S1)
      \<and> TlsPoolCache_is_empty (tls_pool_cache (tls_pool_cache_clear t S1) t) \<and> released t i S (tls_pool_cache_clear t S1)"
    if "pool_ok hold S1" "phase_rel t (unassigned db S) S1"
      "if i < pool_size (pm (unassigned db S)) \<and> threads_equal (owner_thread (slot_at (unassigned db S) i)) t \<and> slot_state (slot_at (unassigned db S) i) = SLOT_READY
       then slot_at S1 i = slot_release (slot_at (unassigned db S) i) \<and> hm_get (txn_by_conn S1) (slot_conn (slot_at (unassigned db S) i)) = None
         \<and> conn_is_streaming_active_ptr (slot_conn (slot_at (unassigned db S) i)) S1 = Some False
       else S1 = unassigned db S" for S1
    using that(1,3) phase_rel_trans [OF that(2) rel_tls_clear]
    by (auto simp: pool_ok_tls_clear released_def conn_is_streaming_active_ptr_def split: if_splits)
  with Some release_slot_spec [OF pool_ok_unassigned [OF assms, of db], of L t i] show ?thesis
    by (auto simp only: release_eq option.case returns_bind returns_Some intro: returns_weaken)
qed

text \<open>A process in which thread 3 uses slot 0, with handles 21 and 22 recorded on it.\<close>

definition used_conn :: PgConnection where
  "used_conn = PgConnection_zeroed\<lparr>pg_conn := 1, is_pg_active := 1, ref_count := 1\<rparr>"

definition used_shim :: "'w \<Rightarrow> 'w shim" where
  "used_shim w = (demo_shim w)\<lparr>
     pm := (PoolManager_new 2 2 1)\<lparr>
       slots := [\<lparr>slot_conn = 9, owner_thread = 3, slot_last_used = 1000, slot_state = SLOT_READY, generation = 0\<rparr>, PoolSlot_new],
       db_to_pool := [(21, 0), (22, 0)]\<rparr>,
     heap := [9 \<mapsto> used_conn]\<rparr>"

lemma used_shim_simps [simp]:
  "slots (pm (used_shim w)) = [\<lparr>slot_conn = 9, owner_thread = 3, slot_last_used = 1000, slot_state = SLOT_READY, generation = 0\<rparr>, PoolSlot_new]"
  "registry (pm (used_shim w)) = []" "heap (used_shim w) = [9 \<mapsto> used_conn]"
  "db_to_pool (pm (used_shim w)) = [(21, 0), (22, 0)]" "pool_size (pm (used_shim w)) = 2"
  "configured_size (pm (used_shim w)) = 2" "configured_max_size (pm (used_shim w)) = 2" "world (used_shim w) = w"
  by (simp_all add: used_shim_def demo_shim_def PoolManager_new_def pool_size_def pool_max_def)

lemma pool_ok_used: "pool_ok (\<lambda>_. 0) (used_shim w)"
proof -
  have "mem_ok (refs (\<lambda>_. 0) (pm (used_shim w))) (used_shim w)"
    by (simp add: mem_ok_def refs_def slot_count_def reg_count_def hm_values_def PoolSlot_new_def used_conn_def)
  moreover have "tables_ok (used_shim w)"
    by (simp add: tables_ok_def txn_maps_ok_def caches_ok_def used_shim_def demo_shim_def hm_ok_def hm_get_def)
  moreover have "sizes_ok (pm (used_shim w))" by (simp add: sizes_ok_def hm_ok_def)
  ultimately show ?thesis
    by (simp add: pool_ok_but_def apart_def hm_values_def slot_conns_def PoolSlot_new_def slot_ok_def less_Suc_eq active_def used_conn_def)
qed



text \<open>
  Handles of one thread share its slot, and closing one of them frees the slot under the
  others: handle 22 stays recorded on a slot any thread may now take.
\<close>

lemma release_frees_shared_slot:
  "\<exists>S'. pool_release_for_db_inner (quiet_pq id Suc) 3 21 (used_shim (7 :: nat)) = Some S'
    \<and> hm_get (db_to_pool (pm S')) 22 = Some 0 \<and> slot_state (slot_at S' 0) = SLOT_FREE \<and> slot_conn (slot_at S' 0) = 9"
  using returnsD [OF release_spec [OF pool_ok_used, of "quiet_pq id Suc" 3 21 7]]
  by (auto simp: phase_rel_def hm_get_def hm_remove_def released_def threads_equal_def slot_release_def)

section \<open>The health check keeps the pool sound\<close>

text \<open>What a repaired slot is: in use again by the same thread with the same connection, or in error.\<close>

definition repaired :: "tid \<Rightarrow> ptr \<Rightarrow> 'w shim \<Rightarrow> bool" where
  "repaired t conn S \<longleftrightarrow> (\<exists>i<pool_size (pm S). slot_conn (slot_at S i) = conn \<and> owner_thread (slot_at S i) = t
     \<and> (slot_state (slot_at S i) = SLOT_ERROR
        \<or> slot_state (slot_at S i) = SLOT_READY \<and> active S conn \<and> conn_is_streaming_active_ptr conn S = Some False))"

lemma holding_repaired:
  assumes h: "holding hold ctx i s S S'" and t: "current_thread ctx = t"
    and s': "s' = (if ok then mark_ready (s\<lparr>slot_last_used := n\<rparr>) else mark_error s)"
    and c: "ok \<longrightarrow> (\<exists>c. heap S' (slot_conn s) = Some c \<and> is_pg_active c \<noteq> 0 \<and> streaming_active c = 0)"
  shows "pool_ok hold (set_slot i s' S') \<and> phase_rel t S (set_slot i s' S') \<and> repaired t (slot_conn s) (set_slot i s' S')"
proof -
  have w: "working i hold S'" and s: "slot_at S' i = s" "slot_conn s \<noteq> 0" "owner_thread s = t" "t \<noteq> 0" "slot_state s \<noteq> SLOT_READY"
    and i: "i < pool_size (pm S')" and rel: "phase_rel t S S'" using h t by (simp_all add: holding_def)
  note len = holding_range [OF h]
  have "slot_ok S' s'" using s c by (auto simp: s' slot_ok_def mark_ready_def mark_error_def active_def)
  then have "pool_ok hold (set_slot i s' S')"
    using len s by (intro pool_ok_set_slot [OF w]) (simp_all add: s' mark_ready_def mark_error_def)
  moreover have "phase_rel t S (set_slot i s' S')"
    by (rule phase_rel_trans [OF rel rel_set_slot]) (use s in \<open>simp add: protected_def\<close>)
  moreover have "repaired t (slot_conn s) (set_slot i s' S')"
    unfolding repaired_def by (rule exI [of _ i])
      (use i len s c in \<open>auto simp: s' mark_ready_def mark_error_def active_def conn_is_streaming_active_ptr_def pool_size_def pool_max_def\<close>)
  ultimately show ?thesis by blast
qed

lemma health_slot_spec:
  assumes h: "holding hold ctx i s S S1" and t: "current_thread ctx = t" and act: "active S1 (slot_conn s)"
  shows "returns (health_slot L (slot_conn s) i S1) (\<lambda>(r, S'). r = 1 \<and> pool_ok hold S' \<and> phase_rel t S S' \<and> repaired t (slot_conn s) S')"
    (is "returns _ ?Q")
proof -
  have nz: "slot_conn s \<noteq> 0" using h by (simp add: holding_def)
  have ready: "?Q (1, set_slot i (mark_ready ((slot_at S' i)\<lparr>slot_last_used := n\<rparr>)) S')"
    if "holding hold ctx i s S S'" "heap S' (slot_conn s) = Some c" "is_pg_active c \<noteq> 0" "streaming_active c = 0" for S' c n
    using holding_repaired [OF that(1) t, of _ True n] that by (simp add: holding_def)
  have err: "?Q (1, set_slot i (mark_error (slot_at S' i)) S')" if "holding hold ctx i s S S'" for S'
    using holding_repaired [OF that t, of _ False] that by (simp add: holding_def)
  have reconnect: "returns (do { (reconn_ok, S) \<leftarrow> reconnect_conn L (slot_conn s) S3;
        Some (1, if reconn_ok then set_slot i (mark_ready ((slot_at S i)\<lparr>slot_last_used := unix_time L (world S)\<rparr>)) S
                 else set_slot i (mark_error (slot_at S i)) S) }) ?Q" if h3: "holding hold ctx i s S S3" for S3
  proof -
    obtain c where c: "heap S3 (slot_conn s) = Some c" using holding_alloc [OF h3] .
    show ?thesis
      unfolding returns_bind returns_case_prod returns_Some
      by (rule returns_weaken [OF reconnect_conn_spec [OF c nz]])
        (use ready err holding_step [OF h3] in \<open>auto simp del: set_slot_simps\<close>)
  qed
  have reset: "returns (do { (reset_ok, S) \<leftarrow> reset_conn L (slot_conn s) S2;
        if reset_ok then Some (1, set_slot i (mark_ready ((slot_at S i)\<lparr>slot_last_used := unix_time L (world S)\<rparr>)) S)
        else do { (reconn_ok, S) \<leftarrow> reconnect_conn L (slot_conn s) S;
          Some (1, if reconn_ok then set_slot i (mark_ready ((slot_at S i)\<lparr>slot_last_used := unix_time L (world S)\<rparr>)) S
                 else set_slot i (mark_error (slot_at S i)) S) } }) ?Q"
    if h2: "holding hold ctx i s S S2" and same: "heap S2 = heap S1" for S2
  proof -
    obtain c where c: "heap S2 (slot_conn s) = Some c" "is_pg_active c \<noteq> 0" using act same by (auto simp: active_def)
    show ?thesis
      by (subst returns_bind, rule returns_weaken [OF reset_conn_spec [OF c(1) nz]])
        (use ready reconnect holding_step [OF h2] c(2) in \<open>auto simp del: returns_bind set_slot_simps\<close>)
  qed
  show ?thesis
    unfolding health_slot_def
    by (subst returns_bind, rule returns_weaken [OF holding_cache_clear [OF h]]) (use reset in blast)
qed

definition needs_repair :: "'w libpq \<Rightarrow> tid \<Rightarrow> ptr \<Rightarrow> 'w shim \<Rightarrow> bool" where
  "needs_repair L t conn S \<longleftrightarrow> check_conn_ok L conn S = Some False
     \<and> (\<exists>i<pool_size (pm S). slot_conn (slot_at S i) = conn \<and> threads_equal (owner_thread (slot_at S i)) t \<and> slot_state (slot_at S i) = SLOT_READY)"

lemma needs_repair_find:
  assumes ok: "pool_ok hold S" and "needs_repair L t conn S"
  obtains i where "find (\<lambda>i. slot_conn (slot_at S i) = conn \<and> threads_equal (owner_thread (slot_at S i)) t) [0..<pool_size (pm S)] = Some i"
    "i < pool_size (pm S)" "slot_conn (slot_at S i) = conn" "conn \<noteq> 0" "owner_thread (slot_at S i) = t" "t \<noteq> 0" "slot_state (slot_at S i) = SLOT_READY"
proof -
  obtain i where i: "i < pool_size (pm S)" "slot_conn (slot_at S i) = conn" "threads_equal (owner_thread (slot_at S i)) t" "slot_state (slot_at S i) = SLOT_READY"
    using assms(2) by (auto simp: needs_repair_def)
  note sz = pool_size_le [OF ok]
  have len: "i < length (slots (pm S))" using i(1) sz by simp
  have nz: "conn \<noteq> 0" using pool_okD [OF ok len] i by (auto simp: slot_ok_def)
  have "slot_conn (slot_at S j) \<noteq> conn" if "j < i" for j
    using distinct_slot_conns [of "pm S" i j] ok len that i(2) nz by (auto simp: pool_ok_but_def)
  then have "find (\<lambda>i. slot_conn (slot_at S i) = conn \<and> threads_equal (owner_thread (slot_at S i)) t) [0..<pool_size (pm S)] = Some i"
    using i unfolding find_Some_iff by (intro exI [of _ i]) simp
  with that i nz show ?thesis by (auto simp: threads_equal_def)
qed

lemma health_idle:
  assumes "conn = 0 \<or> heap S conn \<noteq> None" and "\<not> needs_repair L t conn S"
  shows "pool_check_health_inner L t conn S = Some (0, S)"
proof (cases "check_conn_ok L conn S = Some True \<or> conn = 0")
  case False
  with assms(1) have dead: "conn \<noteq> 0" "check_conn_ok L conn S = Some False" by (auto simp: check_conn_ok_def)
  have "slot_state (slot_at S i) \<noteq> SLOT_READY"
    if "find (\<lambda>i. slot_conn (slot_at S i) = conn \<and> threads_equal (owner_thread (slot_at S i)) t) [0..<pool_size (pm S)] = Some i" for i
    using that assms(2) dead by (auto simp: needs_repair_def find_Some_iff)
  with dead show ?thesis
    by (auto simp: pool_check_health_inner_def try_begin_reconnect_def compare_exchange_def split: option.splits)
qed (auto simp: pool_check_health_inner_def)

lemma health_repair:
  assumes ok: "pool_ok hold S" and need: "needs_repair L t conn S"
  shows "returns (pool_check_health_inner L t conn S) (\<lambda>(r, S'). r = 1 \<and> pool_ok hold S' \<and> phase_rel t S S' \<and> repaired t conn S')"
proof -
  obtain i where f: "find (\<lambda>i. slot_conn (slot_at S i) = conn \<and> threads_equal (owner_thread (slot_at S i)) t) [0..<pool_size (pm S)] = Some i"
    and i: "i < pool_size (pm S)" "slot_conn (slot_at S i) = conn" "conn \<noteq> 0" "owner_thread (slot_at S i) = t" "t \<noteq> 0" "slot_state (slot_at S i) = SLOT_READY"
    using needs_repair_find [OF assms] by blast
  let ?s = "(slot_at S i)\<lparr>slot_state := SLOT_RECONNECTING\<rparr>" and ?ctx = "acquire_ctx L t [] 0 S"
  have len: "i < length (slots (pm S))" using i(1) pool_size_le [OF ok] by simp
  have ctx: "ctx_ok hold ?ctx S" "current_thread ?ctx = t" using i by (simp_all add: ctx_ok_def acquire_ctx_def)
  have h: "holding hold ?ctx i ?s S (set_slot i ?s S)"
    by (rule holding_take [OF ok ctx(1) i(1)]) (use i ctx in \<open>simp_all add: protected_def acquire_ctx_def\<close>)
  have "active (set_slot i ?s S) (slot_conn ?s)"
    using pool_okD [OF ok len] i by (simp add: slot_ok_def active_def)
  from health_slot_spec [OF h ctx(2) this, of L] f i need show ?thesis
    by (simp add: pool_check_health_inner_def try_begin_reconnect_def compare_exchange_def needs_repair_def)
qed

text \<open>
  C16. The health check of a connection the process holds always returns and keeps the pool
  sound. It answers 1 exactly when the connection is dead and the calling thread is using
  its slot; then that slot is in use again with the same connection, active and without a
  stream, or is in error. Otherwise it answers 0 and changes nothing. A slot in use by
  another thread and its connection are as they were.
\<close>

theorem health_check_repairs:
  assumes "pool_ok hold S" and "conn = 0 \<or> heap S conn \<noteq> None"
  shows "\<exists>r S'. pool_check_health_inner L t conn S = Some (r, S') \<and> pool_ok hold S' \<and> phase_rel t S S'
    \<and> r = (if needs_repair L t conn S then 1 else 0) \<and> (if needs_repair L t conn S then repaired t conn S' else S' = S)"
proof (cases "needs_repair L t conn S")
  case True
  with returnsD [OF health_repair [OF assms(1) True]] show ?thesis by auto
next
  case False
  with health_idle [OF assms(2) False] assms(1) show ?thesis by simp
qed

definition dead_pq :: "nat libpq" where
  "dead_pq = (quiet_pq id Suc)\<lparr>PQstatus := \<lambda>_ _. 1\<rparr>"

theorem health_check_repairs_witness:
  "\<exists>S'. pool_check_health_inner dead_pq 3 9 (used_shim 7) = Some (1, S') \<and> pool_ok (\<lambda>_. 0) S' \<and> repaired 3 9 S'"
proof -
  have "needs_repair dead_pq 3 9 (used_shim 7)"
    unfolding needs_repair_def
    by (rule conjI, simp add: check_conn_ok_def used_conn_def PgConnection_zeroed_def rust_pq_status_def dead_pq_def CONNECTION_OK_def,
        rule exI [of _ 0], simp add: threads_equal_def)
  with health_check_repairs [OF pool_ok_used, of 9 7 dead_pq 3] show ?thesis by auto
qed

text \<open>
  C17. Draining a connection before it is used again returns, the unbounded loop of its quick
  path included, provided libpq has finitely many results to hand out, and it changes
  nothing in the process; on a connection that is idle and has no stream, nothing is pending
  afterwards.
\<close>

theorem cancel_and_drain_returns:
  assumes "heap S conn = Some c" and "results_finite L pending (pg_conn c)"
  shows "\<exists>w. rust_step_conn_cancel_and_drain L conn S = Some (S\<lparr>world := w\<rparr>)
    \<and> (let w1 = snd (rust_pq_consume_input L (pg_conn c) (world S)) in
       if conn \<noteq> 0 \<and> pg_conn c \<noteq> 0 \<and> streaming_active c = 0 \<and> rust_pq_is_busy L (pg_conn c) w1 = 0 then pending w = 0 else True)"
proof (cases "conn \<noteq> 0 \<and> pg_conn c \<noteq> 0 \<and> streaming_active c = 0")
  case False
  then have "rust_step_conn_cancel_and_drain L conn S = Some (S\<lparr>world := world S\<rparr>)"
    using assms(1) by (auto simp: rust_step_conn_cancel_and_drain_def)
  with False show ?thesis by (intro exI [of _ "world S"]) auto
next
  case True
  obtain a w1 where w1: "rust_pq_consume_input L (pg_conn c) (world S) = (a, w1)" by fastforce
  show ?thesis
  proof (cases "rust_pq_is_busy L (pg_conn c) w1 = 0")
    case idle: True
    have "\<exists>w'. drain_results L (pg_conn c) w1 = Some w' \<and> pending w' = 0"
      using drain_results_returns [OF assms(2)] True by blast
    then obtain w' where w': "drain_results L (pg_conn c) w1 = Some w'" "pending w' = 0" by blast
    then have "rust_step_conn_cancel_and_drain L conn S = Some (S\<lparr>world := w'\<rparr>)"
      using True idle w1 assms(1)
      by (subst (asm) drain_results.simps) (auto simp: rust_step_conn_cancel_and_drain_def split: prod.splits if_splits)
    with w1 w' show ?thesis by auto
  qed (use True w1 assms(1) in \<open>auto simp: rust_step_conn_cancel_and_drain_def\<close>)
qed

text \<open>A server with \<open>n\<close> results pending.\<close>

definition backlog_pq :: "nat libpq" where
  "backlog_pq = (quiet_pq id id)\<lparr>PQgetResult := \<lambda>_ n. if n = 0 then (0, 0) else (1, n), PQclear := \<lambda>_ n. n - 1\<rparr>"

theorem cancel_and_drain_returns_witness:
  "\<exists>w. rust_step_conn_cancel_and_drain backlog_pq 9 (used_shim 7) = Some ((used_shim 7)\<lparr>world := w\<rparr>) \<and> w = 0"
  using cancel_and_drain_returns [of "used_shim 7" 9 used_conn backlog_pq id]
  by (auto simp: results_finite_def backlog_pq_def quiet_pq_def used_conn_def PgConnection_zeroed_def rust_pq_consume_input_def rust_pq_is_busy_def)

end
