(* ===== verification/Handle_Api.thy ===== *)
theory Handle_Api
  imports Pool_Runtime
begin

text \<open>
  From a SQLite handle to its connection (\<^verbatim>\<open>pg_client/registry_api.rs\<close>,
  \<^verbatim>\<open>pg_client/pool_lookup.rs\<close>), with the check for a fork of \<^verbatim>\<open>pg_client/pool_api.rs\<close> that
  every lookup makes. The registry's iteration order is the order of its association list,
  which no theorem depends on.
\<close>

section \<open>The registry\<close>

definition register :: "ptr \<Rightarrow> ptr \<Rightarrow> PoolManager \<Rightarrow> PoolManager" where
  "register db conn m = m\<lparr>registry := hm_insert db conn (registry m)\<rparr>"

definition unregister :: "ptr \<Rightarrow> PoolManager \<Rightarrow> PoolManager" where
  "unregister db m = m\<lparr>registry := hm_remove db (registry m)\<rparr>"

definition rust_pg_register_connection :: "ptr \<Rightarrow> 'w shim \<Rightarrow> 'w shim option" where
  "rust_pg_register_connection conn S =
     (if is_null conn then Some S
      else do {
        c \<leftarrow> heap S conn;
        Some (if is_null (shadow_db c) then S else S\<lparr>pm := register (shadow_db c) conn (pm S)\<rparr>)
      })"

definition rust_pg_unregister_connection :: "ptr \<Rightarrow> 'w shim \<Rightarrow> 'w shim option" where
  "rust_pg_unregister_connection conn S =
     (if is_null conn then Some S
      else do {
        c \<leftarrow> heap S conn;
        Some (if is_null (shadow_db c) then S else S\<lparr>pm := unregister (shadow_db c) (pm S)\<rparr>)
      })"

definition rust_find_registered_connection :: "ptr \<Rightarrow> 'w shim \<Rightarrow> ptr" where
  "rust_find_registered_connection db S = unwrap_or (hm_get (registry (pm S)) db) 0"

definition rust_pg_find_handle_connection :: "ptr \<Rightarrow> 'w shim \<Rightarrow> ptr" where
  "rust_pg_find_handle_connection db S = (if is_null db then 0 else rust_find_registered_connection db S)"

section \<open>Lookup through the pool\<close>

definition assign :: "ptr \<Rightarrow> usize \<Rightarrow> 'w shim \<Rightarrow> 'w shim" where
  "assign db i S = S\<lparr>pm := (pm S)\<lparr>db_to_pool := hm_insert db i (db_to_pool (pm S))\<rparr>\<rparr>"

text \<open>The handle is recorded on the slot the connection is in, and the thread's cache is rekeyed to it.\<close>

definition track_handle :: "tid \<Rightarrow> ptr \<Rightarrow> ptr \<Rightarrow> 'w shim \<Rightarrow> 'w shim" where
  "track_handle t db pool_conn S =
     (let S = (case find (\<lambda>i. slot_conn (slot_at S i) = pool_conn) [0..<pool_size (pm S)] of None \<Rightarrow> S | Some i \<Rightarrow> assign db i S)
      in case tls_pool_cache_get t 0 S of None \<Rightarrow> S | Some (idx, gen) \<Rightarrow> tls_pool_cache_set t db idx gen S)"

definition pool_find_connection_for_db :: "'w libpq \<Rightarrow> tid \<Rightarrow> ptr \<Rightarrow> string \<Rightarrow> 'w shim \<Rightarrow> (ptr \<times> 'w shim) option" where
  "pool_find_connection_for_db L t db path S =
     (if \<not> is_library_db path then Some (0, S)
      else do {
        (pool_conn, S) \<leftarrow> acquire_on L t path 0 S;
        if is_null pool_conn then Some (0, S)
        else do {
          active \<leftarrow> conn_is_pg_active_ptr pool_conn S;
          Some (if \<not> active then (0, S) else (pool_conn, track_handle t db pool_conn S))
        }
      })"

fun find_conn :: "(ptr \<Rightarrow> bool option) \<Rightarrow> ptr list \<Rightarrow> ptr option" where
  "find_conn p [] = Some 0"
| "find_conn p (conn # conns) = do { b \<leftarrow> p conn; if b then Some conn else find_conn p conns }"

definition is_library_conn :: "'w shim \<Rightarrow> ptr \<Rightarrow> bool option" where
  "is_library_conn S conn =
     do {
       active \<leftarrow> conn_is_pg_active_ptr conn S;
       if \<not> active then Some False else map_option (\<lambda>c. is_library_db (conn_path c)) (heap S conn)
     }"

definition find_any_library_connection :: "'w libpq \<Rightarrow> tid \<Rightarrow> 'w shim \<Rightarrow> (ptr \<times> 'w shim) option" where
  "find_any_library_connection L t S =
     do {
       (conn, S) \<leftarrow> (case library_db_path (pm S) of
          None \<Rightarrow> Some (0, S)
        | Some path \<Rightarrow> (case cstring_new path of
            None \<Rightarrow> Some (0, S)
          | Some cs \<Rightarrow> do {
              (conn, S) \<leftarrow> acquire_on L t cs 0 S;
              active \<leftarrow> conn_is_pg_active_ptr conn S;
              Some (if \<not> is_null conn \<and> active then conn else 0, S)
            }));
       if \<not> is_null conn then Some (conn, S)
       else do {
         found \<leftarrow> find_conn (is_library_conn S) (hm_values (registry (pm S)));
         Some (found, S)
       }
     }"

section \<open>Forks\<close>

definition rust_pool_check_fork :: "'w libpq \<Rightarrow> tid \<Rightarrow> 'w shim \<Rightarrow> int \<times> 'w shim" where
  "rust_pool_check_fork L t S =
     (let current_pid = getpid L (world S) in
      if init_pid (pm S) \<noteq> 0 \<and> init_pid (pm S) \<noteq> current_pid then (1, reset_for_child L t S) else (0, S))"

section \<open>The connection of a handle\<close>

definition handle_or_null :: "ptr \<Rightarrow> PgConnection \<Rightarrow> ptr" where
  "handle_or_null handle_conn c = (if is_pg_active c \<noteq> 0 then handle_conn else 0)"

definition library_connection :: "'w libpq \<Rightarrow> tid \<Rightarrow> ptr \<Rightarrow> string \<Rightarrow> 'w shim \<Rightarrow> (ptr \<times> 'w shim) option" where
  "library_connection L t db path S =
     (case cstring_new path of
        None \<Rightarrow> Some (0, S)
      | Some cs \<Rightarrow> do {
          (pool_conn, S) \<leftarrow> pool_find_connection_for_db L t db cs S;
          active \<leftarrow> conn_is_pg_active_ptr pool_conn S;
          Some (if \<not> is_null pool_conn \<and> active then pool_conn else 0, S)
        })"

definition rust_pg_find_connection :: "'w libpq \<Rightarrow> tid \<Rightarrow> ptr \<Rightarrow> 'w shim \<Rightarrow> (ptr \<times> 'w shim) option" where
  "rust_pg_find_connection L t db S =
     (if is_null db then Some (0, S)
      else
        let (_, S) = rust_pool_check_fork L t S;
            handle_conn = rust_find_registered_connection db S
        in if is_null handle_conn then Some (0, S)
           else do {
             c \<leftarrow> heap S handle_conn;
             if is_library_db (conn_path c) then
               (if env_nonzero (env S) ''PLEX_PG_FORCE_SQLITE_LIBRARY'' then Some (0, S)
                else if env_nonzero (env S) ''PLEX_PG_DISABLE_POOL'' then Some (handle_or_null handle_conn c, S)
                else library_connection L t db (conn_path c) S)
             else Some (handle_or_null handle_conn c, S)
           })"

definition handle_is_pg_library :: "ptr \<Rightarrow> 'w shim \<Rightarrow> bool option" where
  "handle_is_pg_library db S =
     (let handle_conn = rust_find_registered_connection db S in
      if is_null db \<or> is_null handle_conn then Some False
      else do {
        c \<leftarrow> heap S handle_conn;
        Some (is_pg_active c \<noteq> 0 \<and> is_library_db (conn_path c) \<and> \<not> env_nonzero (env S) ''PLEX_PG_FORCE_SQLITE_LIBRARY'')
      })"

definition handle_is_pg_backed :: "ptr \<Rightarrow> 'w shim \<Rightarrow> bool option" where
  "handle_is_pg_backed db S =
     (let handle_conn = rust_find_registered_connection db S in
      if is_null db \<or> is_null handle_conn then Some False
      else do {
        c \<leftarrow> heap S handle_conn;
        Some (if is_pg_active c = 0 then False
              else \<not> (is_library_db (conn_path c) \<and> env_nonzero (env S) ''PLEX_PG_FORCE_SQLITE_LIBRARY''))
      })"

text \<open>\<open>peek_connection\<close>: what is already there, acquiring nothing.\<close>

definition ready_conn :: "usize \<Rightarrow> 'w shim \<Rightarrow> ptr option" where
  "ready_conn idx S =
     (if pool_size (pm S) \<le> idx then Some 0
      else if slot_state (slot_at S idx) \<noteq> SLOT_READY then Some 0
      else do {
        active \<leftarrow> conn_is_pg_active_ptr (slot_conn (slot_at S idx)) S;
        Some (if active then slot_conn (slot_at S idx) else 0)
      })"

definition peek_own_slot :: "tid \<Rightarrow> 'w shim \<Rightarrow> ptr option" where
  "peek_own_slot t S =
     (case tls_pool_cache_get t 0 S of
        None \<Rightarrow> Some 0
      | Some (idx, gen) \<Rightarrow>
          (let idx = unat idx in
           if idx < pool_size (pm S) \<and> generation (slot_at S idx) = gen \<and> threads_equal (owner_thread (slot_at S idx)) t
           then ready_conn idx S else Some 0))"

definition peek_recorded_slot :: "ptr \<Rightarrow> 'w shim \<Rightarrow> ptr option" where
  "peek_recorded_slot db S = (case hm_get (db_to_pool (pm S)) db of None \<Rightarrow> Some 0 | Some idx \<Rightarrow> ready_conn idx S)"

definition peek_connection :: "tid \<Rightarrow> ptr \<Rightarrow> 'w shim \<Rightarrow> ptr option" where
  "peek_connection t db S =
     (let handle_conn = rust_find_registered_connection db S in
      if is_null db \<or> is_null handle_conn then Some 0
      else do {
        c \<leftarrow> heap S handle_conn;
        if \<not> is_library_db (conn_path c) \<or> env_nonzero (env S) ''PLEX_PG_DISABLE_POOL'' then Some (handle_or_null handle_conn c)
        else if env_nonzero (env S) ''PLEX_PG_FORCE_SQLITE_LIBRARY'' then Some 0
        else do {
          own \<leftarrow> peek_own_slot t S;
          if \<not> is_null own then Some own
          else do {
            recorded \<leftarrow> peek_recorded_slot db S;
            Some (if \<not> is_null recorded then recorded else handle_or_null handle_conn c)
          }
        }
      })"

section \<open>References of the registry\<close>

lemma count_values_insert:
  "hm_get m k = None \<Longrightarrow> count_list (hm_values (hm_insert k v m)) p = count_list (hm_values m) p + (if v = p then 1 else 0)"
  by (induction m) (auto simp: hm_get_def hm_insert_def hm_values_def split: if_splits)

lemma count_values_remove:
  "hm_ok m \<Longrightarrow> hm_get m k = Some v \<Longrightarrow> count_list (hm_values (hm_remove k m)) p + (if v = p then 1 else 0) = count_list (hm_values m) p"
proof (induction m)
  case (Cons a m)
  obtain k' v' where a: "a = (k', v')" by (cases a)
  have ok: "hm_ok m" and fresh: "k' \<notin> fst ` set m" using Cons.prems(1) by (auto simp: hm_ok_def a)
  show ?case
  proof (cases "k' = k")
    case True
    have "filter (\<lambda>(k', v). k' \<noteq> k) m = m" using fresh True by (force simp: filter_id_conv)
    with True Cons.prems(2) show ?thesis by (simp add: a hm_get_def hm_remove_def hm_values_def)
  next
    case False
    with Cons.IH [OF ok] Cons.prems(2) show ?thesis by (simp add: a hm_get_def hm_remove_def hm_values_def)
  qed
qed (simp add: hm_get_def)

text \<open>A reference moves from the opener's hands into the registry, and back out of it.\<close>

lemma pool_ok_registry:
  assumes "pool_ok_but v hold S" "slots m = slots (pm S)" "sizes_ok m" "refs hold' m = refs hold (pm S)" "apart m"
  shows "pool_ok_but v hold' (S\<lparr>pm := m\<rparr>)"
  using assms
  by (simp add: pool_ok_but_def slot_conns_def mem_ok_heap_eq [of "S\<lparr>pm := m\<rparr>" S] slot_ok_cong [of "S\<lparr>pm := m\<rparr>" S]
      tables_ok_cong [of "S\<lparr>pm := m\<rparr>" S])

lemma apart_register:
  assumes "apart m" "slot_count m p = 0" "hm_ok (registry m)"
  shows "apart (register db p m)"
proof -
  have "set (hm_values (hm_insert db p (registry m))) \<subseteq> insert p (set (hm_values (registry m)))"
    using hm.vals_ins [OF assms(3), of _ db p] hm_values_get [OF assms(3)] by blast
  moreover have "p \<notin> set (slot_conns m)" using assms(2) by (auto simp: slot_count_def slot_conns_def count_list_pos)
  moreover have "slot_conns (register db p m) = slot_conns m" "registry (register db p m) = hm_insert db p (registry m)"
    by (simp_all add: register_def slot_conns_def)
  ultimately show ?thesis using assms(1) unfolding apart_def by auto
qed

lemma pool_ok_register:
  assumes "pool_ok_but v (hold(p := Suc (hold p))) S" "p \<noteq> 0" "hm_get (registry (pm S)) db = None" "slot_count (pm S) p = 0"
  shows "pool_ok_but v hold (S\<lparr>pm := register db p (pm S)\<rparr>)"
proof (rule pool_ok_registry [OF assms(1)])
  show "refs hold (register db p (pm S)) = refs (hold(p := Suc (hold p))) (pm S)"
    using assms(2) count_values_insert [OF assms(3)]
    by (auto simp: fun_eq_iff refs_def register_def reg_count_def slot_count_def)
  show "apart (register db p (pm S))"
    using assms apart_register [of "pm S" p db] by (simp add: pool_ok_but_def sizes_ok_def)
qed (use assms(1) in \<open>auto simp: register_def pool_ok_but_def sizes_ok_def\<close>)

lemma pool_ok_unregister:
  assumes "pool_ok_but v hold S" "hm_get (registry (pm S)) db = Some p" "p \<noteq> 0"
  shows "pool_ok_but v (hold(p := Suc (hold p))) (S\<lparr>pm := unregister db (pm S)\<rparr>)"
proof (rule pool_ok_registry [OF assms(1)])
  have "hm_ok (registry (pm S))" using assms(1) by (simp add: pool_ok_but_def sizes_ok_def)
  from count_values_remove [OF this assms(2)]
  have "count_list (hm_values (registry (pm S))) q = count_list (hm_values (hm_remove db (registry (pm S)))) q + (if p = q then 1 else 0)" for q
    by simp
  then show "refs (hold(p := Suc (hold p))) (unregister db (pm S)) = refs hold (pm S)"
    using assms(3) by (auto simp: fun_eq_iff refs_def unregister_def reg_count_def slot_count_def)
  have "set (hm_values (hm_remove db (registry (pm S)))) \<subseteq> set (hm_values (registry (pm S)))"
    by (auto simp: hm_values_def hm_remove_def)
  then show "apart (unregister db (pm S))"
    using assms(1) by (auto simp: pool_ok_but_def apart_def unregister_def slot_conns_def)
qed (use assms(1) in \<open>auto simp: unregister_def pool_ok_but_def sizes_ok_def\<close>)

lemma registered_alloc:
  assumes "pool_ok_but v hold S" "hm_get (registry (pm S)) db = Some p" "p \<noteq> 0"
  obtains c where "heap S p = Some c"
proof -
  have "p \<in> set (hm_values (registry (pm S)))"
    using assms by (auto simp: pool_ok_but_def sizes_ok_def hm_values_get)
  then have "0 < reg_count (pm S) p" unfolding reg_count_def using count_list_pos by (metis gr0I)
  then have "0 < refs hold (pm S) p" using assms(3) by (simp add: refs_def)
  moreover have "mem_ok (refs hold (pm S)) S" using assms(1) by (simp add: pool_ok_but_def)
  ultimately show ?thesis using that mem_okD by blast
qed

lemma handle_conn_alloc:
  assumes "pool_ok_but v hold S" "rust_find_registered_connection db S \<noteq> 0"
  obtains c where "heap S (rust_find_registered_connection db S) = Some c"
  using registered_alloc [OF assms(1), of db "rust_find_registered_connection db S"] assms(2) that
  by (auto simp: rust_find_registered_connection_def unwrap_or_def split: option.splits)

section \<open>What a lookup finds\<close>

text \<open>
  The connection is in a slot that the thread is using, and the handle is recorded on that
  slot.
\<close>

definition recorded :: "tid \<Rightarrow> ptr \<Rightarrow> ptr \<Rightarrow> 'w shim \<Rightarrow> bool" where
  "recorded t db p S \<longleftrightarrow> (\<exists>i<pool_size (pm S). slot_conn (slot_at S i) = p \<and> p \<noteq> 0 \<and> slot_state (slot_at S i) = SLOT_READY
     \<and> owner_thread (slot_at S i) = t \<and> active S p \<and> hm_get (db_to_pool (pm S)) db = Some i)"

text \<open>What a lookup of \<open>db\<close> by \<open>t\<close> leaves alone.\<close>

definition lookup_rel :: "tid \<Rightarrow> ptr \<Rightarrow> 'w shim \<Rightarrow> 'w shim \<Rightarrow> bool" where
  "lookup_rel t db S S' \<longleftrightarrow> length (slots (pm S')) = length (slots (pm S)) \<and> registry (pm S') = registry (pm S)
     \<and> configured_size (pm S) \<le> configured_size (pm S') \<and> configured_max_size (pm S') = configured_max_size (pm S)
     \<and> config S' = config S \<and> env S' = env S
     \<and> (\<forall>d. d \<noteq> db \<longrightarrow> hm_get (db_to_pool (pm S')) d = hm_get (db_to_pool (pm S)) d)
     \<and> (\<forall>u. u \<noteq> t \<longrightarrow> tls_pool_cache S' u = tls_pool_cache S u)
     \<and> init_pid (pm S') = init_pid (pm S) \<and> (\<forall>p. p \<noteq> 0 \<longrightarrow> 0 < reg_count (pm S) p \<longrightarrow> heap S' p = heap S p)
     \<and> (\<forall>j<length (slots (pm S)). in_use t S j \<longrightarrow>
          slot_at S' j = slot_at S j \<and> heap S' (slot_conn (slot_at S j)) = heap S (slot_conn (slot_at S j)))"

lemma acquire_lookup_rel: "acquire_rel t S S' \<Longrightarrow> lookup_rel t db S S'"
  by (simp add: acquire_rel_def lookup_rel_def)

lemma acquire_then_lookup:
  assumes "acquire_rel t S S1" "lookup_rel t db S1 S2" "slots (pm S2) = slots (pm S1)" "heap S2 = heap S1"
  shows "lookup_rel t db S S2"
  using assms by (simp add: acquire_rel_def lookup_rel_def)

lemma lookup_rel_refl [simp]: "lookup_rel t db S S"
  by (simp add: lookup_rel_def)

lemma assign_simps [simp]:
  "slots (pm (assign db i S)) = slots (pm S)" "heap (assign db i S) = heap S" "pool_size (pm (assign db i S)) = pool_size (pm S)"
  "db_to_pool (pm (assign db i S)) = hm_insert db i (db_to_pool (pm S))" "registry (pm (assign db i S)) = registry (pm S)"
  "configured_size (pm (assign db i S)) = configured_size (pm S)" "configured_max_size (pm (assign db i S)) = configured_max_size (pm S)"
  "init_pid (pm (assign db i S)) = init_pid (pm S)" "config (assign db i S) = config S" "env (assign db i S) = env S" "tls_pool_cache (assign db i S) = tls_pool_cache S"
  by (simp_all add: assign_def pool_size_def pool_max_def)

lemma pool_ok_assign: "pool_ok_but v hold S \<Longrightarrow> pool_ok_but v hold (assign db i S)"
  unfolding assign_def by (rule pool_ok_pm) (auto simp: pool_ok_but_def sizes_ok_def)

lemma pool_ok_tls_set [simp]: "pool_ok_but v hold (tls_pool_cache_set t h idx gen S) = pool_ok_but v hold S"
  by (rule pool_ok_cong) (simp_all add: tls_pool_cache_set_def)

lemma granted_slot:
  assumes ok: "pool_ok hold S" and g: "granted t p S"
  obtains i where "find (\<lambda>i. slot_conn (slot_at S i) = p) [0..<pool_size (pm S)] = Some i" "i < pool_size (pm S)"
    "slot_conn (slot_at S i) = p" "p \<noteq> 0" "slot_state (slot_at S i) = SLOT_READY" "owner_thread (slot_at S i) = t"
    "tls_pool_cache S t = \<lparr>db_handle = 0, slot_index = of_nat i, cached_generation = generation (slot_at S i)\<rparr>" "active S p"
proof -
  obtain i c where i: "i < pool_size (pm S)" "slot_conn (slot_at S i) = p" "p \<noteq> 0" "slot_state (slot_at S i) = SLOT_READY"
    "owner_thread (slot_at S i) = t" "tls_pool_cache S t = \<lparr>db_handle = 0, slot_index = of_nat i, cached_generation = generation (slot_at S i)\<rparr>"
    and c: "heap S p = Some c" "is_pg_active c \<noteq> 0" using g by (auto simp: granted_def)
  have "slot_conn (slot_at S j) \<noteq> p" if "j < i" for j
    using distinct_slot_conns [of "pm S" i j] ok that i pool_size_le [OF ok] by (auto simp: pool_ok_but_def)
  then have "find (\<lambda>i. slot_conn (slot_at S i) = p) [0..<pool_size (pm S)] = Some i"
    using i unfolding find_Some_iff by (intro exI [of _ i]) simp
  with that i c show ?thesis by (auto simp: active_def)
qed

lemma track_handle_granted:
  assumes ok: "pool_ok hold S" and g: "granted t p S" and db: "db \<noteq> 0"
  shows "pool_ok hold (track_handle t db p S) \<and> recorded t db p (track_handle t db p S) \<and> lookup_rel t db S (track_handle t db p S)
    \<and> heap (track_handle t db p S) = heap S \<and> slots (pm (track_handle t db p S)) = slots (pm S) \<and> tls_pool_cache_get t 0 (track_handle t db p S) = None"
proof -
  obtain i where f: "find (\<lambda>i. slot_conn (slot_at S i) = p) [0..<pool_size (pm S)] = Some i"
    and i: "i < pool_size (pm S)" "slot_conn (slot_at S i) = p" "p \<noteq> 0" "slot_state (slot_at S i) = SLOT_READY" "owner_thread (slot_at S i) = t"
    and tls: "tls_pool_cache S t = \<lparr>db_handle = 0, slot_index = of_nat i, cached_generation = generation (slot_at S i)\<rparr>"
    and act: "active S p" using granted_slot [OF ok g] by blast
  let ?S = "assign db i S"
  have eq: "track_handle t db p S = (case tls_pool_cache_get t 0 ?S of None \<Rightarrow> ?S | Some (idx, gen) \<Rightarrow> tls_pool_cache_set t db idx gen ?S)"
    by (simp add: track_handle_def f Let_def)
  have rec: "recorded t db p S'" if "pm S' = pm ?S" "heap S' = heap ?S" for S'
    unfolding recorded_def by (rule exI [of _ i]) (use that i act in \<open>simp add: active_def\<close>)
  have rel: "lookup_rel t db S S'" if "pm S' = pm ?S" "heap S' = heap ?S" "config S' = config ?S" "env S' = env ?S"
      "\<forall>u. u \<noteq> t \<longrightarrow> tls_pool_cache S' u = tls_pool_cache ?S u" for S'
    using that by (simp add: lookup_rel_def)
  show ?thesis
  proof (cases "tls_pool_cache_get t 0 ?S")
    case None
    then show ?thesis unfolding eq using pool_ok_assign [OF ok] rec [of ?S] rel [of ?S] by simp
  next
    case (Some a)
    then obtain idx gen where a: "tls_pool_cache_get t 0 ?S = Some (idx, gen)" by (cases a) auto
    let ?T = "tls_pool_cache_set t db idx gen ?S"
    have T: "pm ?T = pm ?S" "heap ?T = heap ?S" "config ?T = config ?S" "env ?T = env ?S" by (simp_all add: tls_pool_cache_set_def)
    have "\<forall>u. u \<noteq> t \<longrightarrow> tls_pool_cache ?T u = tls_pool_cache ?S u" by (simp add: tls_pool_cache_set_def)
    with rel [OF T] rec [OF T(1,2)] pool_ok_assign [OF ok, of db i] T(1,2) db show ?thesis
      unfolding eq a by (simp add: tls_pool_cache_get_def) (simp add: tls_pool_cache_set_def)
  qed
qed

lemma conn_is_pg_active_eq: "active S p \<Longrightarrow> p \<noteq> 0 \<Longrightarrow> conn_is_pg_active_ptr p S = Some True"
  by (auto simp: active_def conn_is_pg_active_ptr_def)

lemma granted_active: "granted t p S \<Longrightarrow> active S p \<and> p \<noteq> 0"
  by (auto simp: granted_def active_def)

lemma recorded_active: "recorded t db p S \<Longrightarrow> active S p \<and> p \<noteq> 0"
  by (auto simp: recorded_def)

definition found :: "tid \<Rightarrow> ptr \<Rightarrow> ptr \<Rightarrow> 'w shim \<Rightarrow> bool" where
  "found t db p S \<longleftrightarrow> p = 0 \<or> recorded t db p S \<and> tls_pool_cache_get t 0 S = None \<and> conn_is_streaming_active_ptr p S = Some False"

lemma pool_find_spec:
  assumes "calloc_fresh L" "pool_ok hold S" "t \<noteq> 0" "db \<noteq> 0"
  shows "returns (pool_find_connection_for_db L t db path S) (\<lambda>(p, S'). pool_ok hold S' \<and> lookup_rel t db S S' \<and> found t db p S')"
proof (cases "is_library_db path")
  case True
  obtain conn S1 where S1: "acquire_on L t path 0 S = Some (conn, S1)" "pool_ok hold S1" "acquire_rel t S S1" "conn = 0 \<or> granted t conn S1"
    using acquire_on_spec [OF assms(1-3), of 0 path] by auto
  show ?thesis
  proof (cases "conn = 0")
    case z: True
    then show ?thesis using True S1 acquire_lookup_rel [OF S1(3)] by (simp add: pool_find_connection_for_db_def found_def)
  next
    case False
    with S1(4) have g: "granted t conn S1" by simp
    note tr = track_handle_granted [OF S1(2) g assms(4)]
    have "lookup_rel t db S (track_handle t db conn S1)"
      using acquire_then_lookup [OF S1(3)] tr by blast
    moreover have "conn_is_streaming_active_ptr conn (track_handle t db conn S1) = Some False"
      using tr g by (auto simp: conn_is_streaming_active_ptr_def granted_def)
    ultimately show ?thesis
      using True False S1 tr conn_is_pg_active_eq [of S1 conn] granted_active [OF g] by (simp add: pool_find_connection_for_db_def found_def)
  qed
qed (use assms in \<open>simp add: pool_find_connection_for_db_def found_def\<close>)

lemma find_connection_spec:
  assumes "calloc_fresh L" and "pool_ok hold S" and "t \<noteq> 0" and "init_pid (pm S) \<in> {0, getpid L (world S)}"
  shows "\<exists>p S'. rust_pg_find_connection L t db S = Some (p, S') \<and> pool_ok hold S' \<and> lookup_rel t db S S'
    \<and> (p = 0 \<or> p = rust_find_registered_connection db S \<and> S' = S \<and> active S p
       \<or> recorded t db p S' \<and> conn_is_streaming_active_ptr p S' = Some False)"
proof (cases "db = 0 \<or> rust_find_registered_connection db S = 0")
  case True
  then show ?thesis using assms by (auto simp: rust_pg_find_connection_def rust_pool_check_fork_def)
next
  case False
  let ?h = "rust_find_registered_connection db S"
  obtain c where c: "heap S ?h = Some c" using handle_conn_alloc [OF assms(2)] False by blast
  have fork: "rust_pool_check_fork L t S = (0, S)" using assms(4) by (auto simp: rust_pool_check_fork_def)
  have own: "handle_or_null ?h c = 0 \<or> handle_or_null ?h c = ?h \<and> active S ?h"
    using c by (auto simp: handle_or_null_def active_def)
  show ?thesis
  proof (cases "is_library_db (conn_path c) \<and> \<not> env_nonzero (env S) ''PLEX_PG_FORCE_SQLITE_LIBRARY''
      \<and> \<not> env_nonzero (env S) ''PLEX_PG_DISABLE_POOL''")
    case True
    then have eq: "rust_pg_find_connection L t db S = library_connection L t db (conn_path c) S"
      using False fork c by (simp add: rust_pg_find_connection_def)
    show ?thesis
    proof (cases "cstring_new (conn_path c)")
      case None
      then show ?thesis using eq assms(2) by (simp add: library_connection_def)
    next
      case (Some cs)
      obtain p S' where p: "pool_find_connection_for_db L t db cs S = Some (p, S')" "pool_ok hold S'" "lookup_rel t db S S'" "found t db p S'"
        using returnsD [OF pool_find_spec [OF assms(1-3), of db cs]] False by auto
      then have "p = 0 \<or> recorded t db p S' \<and> conn_is_streaming_active_ptr p S' = Some False \<and> conn_is_pg_active_ptr p S' = Some True"
        using conn_is_pg_active_eq [of S' p] recorded_active [of t db p S'] by (auto simp: found_def)
      with eq p Some show ?thesis by (auto simp: library_connection_def conn_is_pg_active_ptr_def)
    qed
  next
    case lib: False
    then have "rust_pg_find_connection L t db S = Some (0, S) \<or> rust_pg_find_connection L t db S = Some (handle_or_null ?h c, S)"
      using False fork c by (auto simp: rust_pg_find_connection_def Let_def)
    with own assms(2) show ?thesis by auto
  qed
qed

text \<open>
  C11. Asking for the connection of a handle, in a process that has not forked, always
  returns and keeps the pool sound. It answers null, or the connection of the handle's own,
  active, or for a library handle a pooled connection that is active and has no stream, in a
  slot this thread is using and the handle is recorded on. No other handle's record changes,
  and a slot in use by another thread, with a handle or a stream, is left as it was.
\<close>

theorem find_connection_recorded:
  assumes "calloc_fresh L" and "pool_ok hold S" and "t \<noteq> 0" and "init_pid (pm S) \<in> {0, getpid L (world S)}"
  shows "\<exists>p S'. rust_pg_find_connection L t db S = Some (p, S') \<and> pool_ok hold S' \<and> lookup_rel t db S S'
    \<and> (p = 0 \<or> p = rust_find_registered_connection db S \<and> S' = S \<and> active S p
       \<or> recorded t db p S' \<and> conn_is_streaming_active_ptr p S' = Some False)"
  using assms by (rule find_connection_spec)

text \<open>A process with library handle 21, registered by connection 5, that thread 3 has looked up.\<close>

definition library_conn :: PgConnection where
  "library_conn = PgConnection_zeroed\<lparr>shadow_db := 21, conn_path := ''/x/com.plexapp.plugins.library.db'', is_pg_active := 1, ref_count := 1\<rparr>"

definition looked_up :: "'w \<Rightarrow> 'w shim" where
  "looked_up w = (used_shim w)\<lparr>pm := (pm (used_shim w))\<lparr>registry := [(21, 5)]\<rparr>, heap := [9 \<mapsto> used_conn, 5 \<mapsto> library_conn]\<rparr>"

lemma looked_up_simps [simp]:
  "slots (pm (looked_up w)) = slots (pm (used_shim w))" "registry (pm (looked_up w)) = [(21, 5)]"
  "heap (looked_up w) = [9 \<mapsto> used_conn, 5 \<mapsto> library_conn]" "world (looked_up w) = w" "init_pid (pm (looked_up w)) = 1"
  "pool_size (pm (looked_up w)) = 2" "db_to_pool (pm (looked_up w)) = [(21, 0), (22, 0)]" "env (looked_up w) = Map.empty"
  "configured_size (pm (looked_up w)) = 2" "configured_max_size (pm (looked_up w)) = 2"
  by (simp_all add: looked_up_def used_shim_def demo_shim_def PoolManager_new_def pool_size_def pool_max_def)

lemma pool_ok_looked_up: "pool_ok (\<lambda>_. 0) (looked_up w)"
proof -
  have "mem_ok (refs (\<lambda>_. 0) (pm (looked_up w))) (looked_up w)"
    by (simp add: mem_ok_def refs_def slot_count_def reg_count_def hm_values_def PoolSlot_new_def used_conn_def library_conn_def)
  moreover have "tables_ok (looked_up w)"
    by (simp add: looked_up_def tables_ok_def txn_maps_ok_def caches_ok_def used_shim_def demo_shim_def hm_ok_def hm_get_def)
  moreover have "sizes_ok (pm (looked_up w))" by (simp add: sizes_ok_def hm_ok_def)
  ultimately show ?thesis
    by (simp add: pool_ok_but_def apart_def hm_values_def slot_conns_def PoolSlot_new_def slot_ok_def less_Suc_eq active_def used_conn_def)
qed

theorem find_connection_recorded_witness:
  "\<exists>p S'. rust_pg_find_connection (quiet_pq id Suc) 4 21 (looked_up (7 :: nat)) = Some (p, S') \<and> pool_ok (\<lambda>_. 0) S'
    \<and> slot_at S' 0 = slot_at (looked_up 7) 0"
proof -
  have "in_use 4 (looked_up (7 :: nat)) 0"
    by (simp add: in_use_def protected_def slot_is_referenced_def references_def hm_values_def)
  moreover have "length (slots (pm (looked_up (7 :: nat)))) = 2" by simp
  ultimately show ?thesis
    using find_connection_recorded [OF quiet_pq_fresh pool_ok_looked_up, of 4 7 id Suc 21]
    by (auto simp: quiet_pq_def lookup_rel_def)
qed

text \<open>
  A handle has one record. When a second thread looks it up, the record moves to that
  thread's slot, and the first thread's slot has lost it although that thread is still using
  the connection: as far as the pool can tell the slot is idle.
\<close>

lemma second_lookup_unrecords:
  assumes "calloc_fresh L" "pool_ok hold S" "u \<noteq> 0" "db \<noteq> 0" "u \<noteq> t"
    and "pool_find_connection_for_db L u db path S = Some (q, S')" "q \<noteq> 0"
  shows "recorded u db q S' \<and> \<not> recorded t db p S'"
proof -
  have "recorded u db q S'" using returns_SomeD [OF pool_find_spec [OF assms(1-4)] assms(6)] assms(7) by (simp add: found_def)
  with assms(5) show ?thesis by (auto simp: recorded_def)
qed

text \<open>
  The fast path of the next acquire looks under handle 0, and the lookup has just moved the
  thread's cache entry to its handle: the entry is never read again.
\<close>

lemma lookup_hides_fast_path:
  assumes "calloc_fresh L" "pool_ok hold S" "t \<noteq> 0" "db \<noteq> 0"
    and "pool_find_connection_for_db L t db path S = Some (p, S')" "p \<noteq> 0"
  shows "tls_pool_cache_get t 0 S' = None"
  using returns_SomeD [OF pool_find_spec [OF assms(1-4)] assms(5)] assms(6) by (simp add: found_def)

definition pooled_handle :: "ptr \<Rightarrow> 'w shim \<Rightarrow> bool" where
  "pooled_handle db S \<longleftrightarrow> db \<noteq> 0 \<and> (\<exists>c. rust_find_registered_connection db S \<noteq> 0 \<and> heap S (rust_find_registered_connection db S) = Some c
     \<and> is_library_db (conn_path c)) \<and> \<not> env_nonzero (env S) ''PLEX_PG_DISABLE_POOL'' \<and> \<not> env_nonzero (env S) ''PLEX_PG_FORCE_SQLITE_LIBRARY''"

lemma ready_conn_spec:
  assumes "pool_ok hold S"
  shows "returns (ready_conn i S) (\<lambda>p. p = 0 \<or> active S p)"
proof (cases "pool_size (pm S) \<le> i \<or> slot_state (slot_at S i) \<noteq> SLOT_READY")
  case False
  have len: "i < length (slots (pm S))" using False pool_size_le [OF assms] by simp
  have "active S (slot_conn (slot_at S i))" "slot_conn (slot_at S i) \<noteq> 0"
    using pool_okD [OF assms len] False by (simp_all add: slot_ok_def)
  with False show ?thesis by (simp add: ready_conn_def conn_is_pg_active_eq)
qed (auto simp: ready_conn_def)


lemma demo_library_path: "is_library_db ''/x/com.plexapp.plugins.library.db''"
  unfolding is_library_db_def ends_with_def suffix_def by (rule exI [of _ "''/x/''"]) simp


end
