(* ===== verification/Error_Class.thy ===== *)
theory Error_Class
  imports Libpq
begin

text \<open>
  \<^verbatim>\<open>pg_client/error_class.rs\<close>: what the shim does with a PostgreSQL error, decided once for
  every path that executes a statement; and \<^verbatim>\<open>pg_client/hash_sqlstate.rs\<close>: the FNV-1a hash
  that keys the prepared-statement cache and the two SQLSTATE tests. The lemmas characterise
  each class by the SQLSTATEs and messages that fall into it.
\<close>

unbundle bit_operations_syntax

datatype PgErrorClass = Retry | StalePlan | Fail

definition cached_plan_message :: string where
  "cached_plan_message = ''cached plan must not change result type''"

definition is_stale_plan :: "string \<Rightarrow> string \<Rightarrow> bool" where
  "is_stale_plan sqlstate message \<longleftrightarrow>
     sqlstate = ''26000'' \<or> (sqlstate = ''0A000'' \<and> str_contains cached_plan_message message)"

definition classify :: "bool \<Rightarrow> string \<Rightarrow> string \<Rightarrow> PgErrorClass" where
  "classify conn_ok sqlstate message =
     (if \<not> conn_ok then Retry
      else if is_stale_plan sqlstate message then StalePlan
      else if starts_with ''08'' sqlstate
              \<or> sqlstate \<in> {''57P01'', ''57P02'', ''57P03'', ''40001'', ''40P01''} then Retry
      else Fail)"

definition cstr_or_empty :: "string option \<Rightarrow> string" where
  "cstr_or_empty p = (case p of None \<Rightarrow> [] | Some s \<Rightarrow> s)"

definition result_message :: "'w libpq \<Rightarrow> ptr \<Rightarrow> ptr \<Rightarrow> 'w \<Rightarrow> string" where
  "result_message L conn res w =
     (let msg = (if is_null res then [] else cstr_or_empty (rust_pq_result_error_message L res w));
          msg = (if trim msg = [] then cstr_or_empty (rust_pq_error_message L conn w) else msg);
          msg = (if trim msg = [] then ''PostgreSQL error (no message)'' else msg)
      in trim_end msg)"

definition classify_result :: "'w libpq \<Rightarrow> ptr \<Rightarrow> ptr \<Rightarrow> 'w \<Rightarrow> PgErrorClass \<times> string" where
  "classify_result L conn res w =
     (let conn_ok = (\<not> is_null conn \<and> rust_pq_status L conn w = CONNECTION_OK);
          sqlstate = (if is_null res then []
                      else cstr_or_empty (rust_pq_result_error_field L res PG_DIAG_SQLSTATE w));
          message = result_message L conn res w
      in (classify conn_ok sqlstate message, message))"

section \<open>FNV-1a and the SQLSTATE tests\<close>

definition fnv_offset :: u64 where "fnv_offset = 14695981039346656037"
definition fnv_prime :: u64 where "fnv_prime = 1099511628211"

definition fnv_step :: "char \<Rightarrow> u64 \<Rightarrow> u64" where
  "fnv_step b hash = (hash XOR of_nat (char_code b)) * fnv_prime"

definition fnv1a_str :: "string \<Rightarrow> u64" where
  "fnv1a_str s = fold fnv_step s fnv_offset"

definition is_stale_sqlstate :: "string \<Rightarrow> bool" where
  "is_stale_sqlstate sqlstate = is_stale_plan sqlstate []"

definition is_duplicate_sqlstate :: "string \<Rightarrow> bool" where
  "is_duplicate_sqlstate sqlstate = (sqlstate = ''42P05'')"

definition rust_hash_sql :: "string option \<Rightarrow> u64" where
  "rust_hash_sql sql = (case sql of None \<Rightarrow> 0 | Some s \<Rightarrow> fnv1a_str s)"

definition rust_is_stale_sqlstate :: "string option \<Rightarrow> int" where
  "rust_is_stale_sqlstate sqlstate = of_bool (is_stale_sqlstate (cstr_or_empty sqlstate))"

definition rust_is_duplicate_sqlstate :: "string option \<Rightarrow> int" where
  "rust_is_duplicate_sqlstate sqlstate = of_bool (is_duplicate_sqlstate (cstr_or_empty sqlstate))"

section \<open>Properties\<close>

lemma is_stale_sqlstate_iff: "is_stale_sqlstate s \<longleftrightarrow> s = ''26000''"
  by (auto simp: is_stale_sqlstate_def is_stale_plan_def str_contains_def cached_plan_message_def)

lemma classify_StalePlan_iff:
  "classify ok s m = StalePlan \<longleftrightarrow> ok \<and> is_stale_plan s m"
  by (auto simp: classify_def)

lemma stale_states_not_class_08:
  "is_stale_plan s m \<Longrightarrow> \<not> starts_with ''08'' s \<and> s \<notin> {''57P01'', ''57P02'', ''57P03'', ''40001'', ''40P01''}"
  by (auto simp: is_stale_plan_def starts_with_def)

lemma classify_Retry_iff:
  "classify ok s m = Retry \<longleftrightarrow>
     \<not> ok \<or> starts_with ''08'' s \<or> s \<in> {''57P01'', ''57P02'', ''57P03'', ''40001'', ''40P01''}"
  using stale_states_not_class_08 [of s m] by (auto simp: classify_def)

lemma class_by_cases:
  assumes "c = Retry \<longleftrightarrow> \<not> ok \<or> R" and "c = StalePlan \<longleftrightarrow> ok \<and> S"
  shows "c = (if ok then if R then Retry else if S then StalePlan else Fail else Retry)"
  using assms by (cases c) auto


lemma fnv1a_append: "fnv1a_str (s @ t) = fold fnv_step t (fnv1a_str s)"
  by (simp add: fnv1a_str_def)

definition fnv_prime_inverse :: u64 where "fnv_prime_inverse = 14886173955864302971"

lemma fnv_prime_invertible: "fnv_prime * fnv_prime_inverse = 1"
  by (simp add: fnv_prime_def fnv_prime_inverse_def)

lemma fnv_mult_inject: "x * fnv_prime = y * fnv_prime \<Longrightarrow> x = y"
proof -
  assume "x * fnv_prime = y * fnv_prime"
  then have "x * (fnv_prime * fnv_prime_inverse) = y * (fnv_prime * fnv_prime_inverse)"
    by (simp add: mult.assoc [symmetric])
  then show ?thesis by (simp add: fnv_prime_invertible)
qed

lemma xor_word_cancel: "(a :: u64) XOR x = a XOR y \<Longrightarrow> x = y"
proof -
  assume "a XOR x = a XOR y"
  then have "a XOR (a XOR x) = a XOR (a XOR y)" by simp
  then show ?thesis by (simp add: xor.assoc [symmetric])
qed

lemma byte_word_inject:
  "(of_nat (char_code b) :: u64) = of_nat (char_code c) \<Longrightarrow> b = c"
proof -
  assume eq: "(of_nat (char_code b) :: u64) = of_nat (char_code c)"
  have bound: "char_code x < 2 ^ 64" for x :: char
    by (rule less_trans [OF nat_of_char_less_256]) simp
  from eq have "unat (of_nat (char_code b) :: u64) = unat (of_nat (char_code c) :: u64)" by simp
  then have "char_code b = char_code c"
    using bound [of b] bound [of c] by (simp add: unat_of_nat)
  then show ?thesis by simp
qed

lemma fnv_step_inject_hash: "fnv_step b h = fnv_step b h' \<Longrightarrow> h = h'"
proof -
  assume "fnv_step b h = fnv_step b h'"
  then have "h XOR of_nat (char_code b) = h' XOR of_nat (char_code b)"
    unfolding fnv_step_def by (rule fnv_mult_inject)
  then have "of_nat (char_code b) XOR h = of_nat (char_code b) XOR h'"
    by (simp only: xor.commute)
  then show ?thesis by (rule xor_word_cancel)
qed

lemma fnv_step_inject_byte: "fnv_step b h = fnv_step c h \<Longrightarrow> b = c"
  unfolding fnv_step_def by (drule fnv_mult_inject, drule xor_word_cancel, rule byte_word_inject)

lemma fold_fnv_inject: "fold fnv_step t h = fold fnv_step t h' \<Longrightarrow> h = h'"
  by (induction t arbitrary: h h') (auto dest: fnv_step_inject_hash)

text \<open>
  The 64-bit hash that keys the prepared-statement cache tells apart any two statements
  that differ in exactly one byte: each FNV-1a round is injective in the hash and in the byte,
  wrap-around included.
\<close>

theorem fnv1a_one_byte_differs:
  assumes "b \<noteq> c"
  shows "fnv1a_str (s @ [b] @ t) \<noteq> fnv1a_str (s @ [c] @ t)"
proof
  assume "fnv1a_str (s @ [b] @ t) = fnv1a_str (s @ [c] @ t)"
  then have "fold fnv_step t (fnv_step b (fnv1a_str s)) = fold fnv_step t (fnv_step c (fnv1a_str s))"
    by (simp add: fnv1a_append)
  then have "fnv_step b (fnv1a_str s) = fnv_step c (fnv1a_str s)"
    by (rule fold_fnv_inject)
  then have "b = c" by (rule fnv_step_inject_byte)
  with assms show False ..
qed

theorem fnv1a_one_byte_differs_witness:
  "fnv1a_str (''SELECT '' @ ''1'' @ '' FROM t'') \<noteq> fnv1a_str (''SELECT '' @ ''2'' @ '' FROM t'')"
  by (rule fnv1a_one_byte_differs) simp

end
