(* ===== verification/Client_Init.thy ===== *)
theory Client_Init
  imports Handle_Api Error_Class
begin

text \<open>
  The process-wide operations of \<^verbatim>\<open>pg_client/pool_api.rs\<close>: sizing the pool at start, and
  closing everything at the end. \<open>POOL\<close> and \<open>CLIENT_INIT\<close> are initialised once in a process:
  whether they were is an argument of the operations that ask. The entry points of
  \<^verbatim>\<open>pg_client/c_abi.rs\<close> that only forward are their targets; the others are here.
\<close>

section \<open>Initialisation\<close>

definition rust_pool_init :: "bool \<Rightarrow> 'w libpq \<Rightarrow> int \<Rightarrow> int \<Rightarrow> int \<Rightarrow> 'w shim \<Rightarrow> 'w shim" where
  "rust_pool_init made L psize pmax idle_timeout S =
     (let requested_max = (if 0 < pmax then nat pmax else POOL_SIZE_DEFAULT);
          requested_size = (if 0 < psize then nat psize else POOL_SIZE_DEFAULT);
          m = (if made then pm S else PoolManager_new requested_size requested_max (getpid L (world S)));
          max_sz = max (min requested_max (length (slots m))) 1
      in S\<lparr>pm := m\<lparr>configured_max_size := max_sz,
                    configured_size := if requested_size \<le> max_sz then requested_size else max_sz,
                    idle_timeout_secs := if 10 \<le> idle_timeout then nat idle_timeout else idle_timeout_secs m,
                    init_pid := getpid L (world S)\<rparr>\<rparr>)"

text \<open>The three \<open>CString::new\<close> guards of a probe: one of the strings has a NUL, or all go through.\<close>

definition probe_args :: "PgEnvConfig \<Rightarrow> (string \<times> string \<times> string \<times> string) option" where
  "probe_args cfg =
     do {
       h \<leftarrow> cstring_new (cfg_host cfg); d \<leftarrow> cstring_new (cfg_database cfg);
       u \<leftarrow> cstring_new (cfg_user cfg); p \<leftarrow> cstring_new (cfg_password cfg);
       Some (h, d, u, p)
     }"

definition init_server_max :: "'w libpq \<Rightarrow> PgEnvConfig \<Rightarrow> 'w \<Rightarrow> int \<times> 'w" where
  "init_server_max L cfg w =
     (if cfg_host cfg = [] \<or> cfg_port cfg \<le> 0 then (0, w)
      else case probe_args cfg of
             None \<Rightarrow> (0, w)
           | Some (h, d, u, p) \<Rightarrow> rust_pg_probe_max_connections L h (cfg_port cfg) d u p w)"

definition init_idle_timeout :: "environ \<Rightarrow> int" where
  "init_idle_timeout e =
     (case e ''PLEX_PG_IDLE_TIMEOUT'' of
        None \<Rightarrow> 300
      | Some val \<Rightarrow> (case parse_i32 (trim val) of None \<Rightarrow> 300 | Some v \<Rightarrow> if 10 \<le> v then v else 300))"

definition init_aligned_timeout :: "'w libpq \<Rightarrow> PgEnvConfig \<Rightarrow> int \<Rightarrow> 'w \<Rightarrow> int \<times> 'w" where
  "init_aligned_timeout L cfg idle_timeout w =
     (if cfg_host cfg \<noteq> [] \<and> 0 < cfg_port cfg then
        (case probe_args cfg of
           None \<Rightarrow> (idle_timeout, w)
         | Some (h, d, u, p) \<Rightarrow> rust_pg_align_idle_timeout_with_server L idle_timeout h (cfg_port cfg) d u p w)
      else (idle_timeout, w))"

definition rust_pg_client_init :: "bool \<Rightarrow> bool \<Rightarrow> 'w libpq \<Rightarrow> 'w shim \<Rightarrow> 'w shim" where
  "rust_pg_client_init started made L S =
     (if started then S
      else
        let psize = parse_positive_env_or_default (env S) ''PLEX_PG_POOL_SIZE'' (int POOL_SIZE_DEFAULT);
            pmax = parse_positive_env_or_default (env S) ''PLEX_PG_POOL_MAX'' psize;
            (db_max_connections, w1) = init_server_max L (config S) (world S);
            pmax = effective_pool_max pmax db_max_connections;
            psize = (if pmax < psize then pmax else psize);
            (idle_timeout, w2) = init_aligned_timeout L (config S) (init_idle_timeout (env S)) w1
        in rust_pool_init made L psize pmax idle_timeout (S\<lparr>world := w2\<rparr>))"

section \<open>Clean-up\<close>

definition cleanup_slot :: "'w libpq \<Rightarrow> usize \<Rightarrow> 'w shim \<Rightarrow> 'w shim option" where
  "cleanup_slot L i S =
     do {
       let conn = slot_conn (slot_at S i);
       let S = set_slot i ((slot_at S i)\<lparr>slot_state := SLOT_FREE, slot_conn := 0\<rparr>) S;
       S \<leftarrow> (if is_null conn then Some S else destroy_pool_connection L conn S);
       Some (set_slot i ((slot_at S i)\<lparr>owner_thread := 0, generation := 0\<rparr>) S)
     }"

fun cleanup_slots :: "'w libpq \<Rightarrow> usize list \<Rightarrow> 'w shim \<Rightarrow> 'w shim option" where
  "cleanup_slots L [] S = Some S"
| "cleanup_slots L (i # is) S = do { S \<leftarrow> cleanup_slot L i S; cleanup_slots L is S }"

definition rust_pool_cleanup :: "'w libpq \<Rightarrow> 'w shim \<Rightarrow> 'w shim option" where
  "rust_pool_cleanup L S =
     do {
       S \<leftarrow> cleanup_slots L [0..<pool_size (pm S)] S;
       Some (clear_all_stmt_caches (S\<lparr>pm := (pm S)\<lparr>db_to_pool := [], registry := []\<rparr>\<rparr>))
     }"

fun close_all :: "'w libpq \<Rightarrow> ptr list \<Rightarrow> 'w shim \<Rightarrow> 'w shim option" where
  "close_all L [] S = Some S"
| "close_all L (conn # conns) S = do { S \<leftarrow> close_handle_connection L conn S; close_all L conns S }"

definition rust_pg_client_cleanup :: "'w libpq \<Rightarrow> 'w shim \<Rightarrow> 'w shim option" where
  "rust_pg_client_cleanup L S =
     (let (conns, m) = drain_all (pm S) in do { S \<leftarrow> close_all L conns (S\<lparr>pm := m\<rparr>); rust_pool_cleanup L S })"

section \<open>The C entry points that do more than forward\<close>

definition rust_pool_touch_connection :: "'w libpq \<Rightarrow> ptr \<Rightarrow> 'w shim \<Rightarrow> 'w shim" where
  "rust_pool_touch_connection L conn S = S\<lparr>pm := touch_connection conn (unix_time L (world S)) (pm S)\<rparr>"

definition pg_close_pool_for_db :: "'w libpq \<Rightarrow> tid \<Rightarrow> ptr \<Rightarrow> 'w shim \<Rightarrow> 'w shim option" where
  "pg_close_pool_for_db L t db S = (if is_null db then Some S else pool_release_for_db_inner L t db S)"

definition pg_is_stale_prepared_stmt :: "'w libpq \<Rightarrow> ptr \<Rightarrow> 'w \<Rightarrow> int" where
  "pg_is_stale_prepared_stmt L res w =
     (if is_null res then 0 else rust_is_stale_sqlstate (rust_pq_result_error_field L res PG_DIAG_SQLSTATE w))"

definition pg_is_duplicate_prepared_stmt :: "'w libpq \<Rightarrow> ptr \<Rightarrow> 'w \<Rightarrow> int" where
  "pg_is_duplicate_prepared_stmt L res w =
     (if is_null res then 0 else rust_is_duplicate_sqlstate (rust_pq_result_error_field L res PG_DIAG_SQLSTATE w))"

section \<open>The sizes of the pool\<close>

lemma parse_positive_pos: "0 < d \<Longrightarrow> 0 < parse_positive_env_or_default e n d"
  by (auto simp: parse_positive_env_or_default_def split: option.splits)

lemma init_idle_timeout_ge: "10 \<le> init_idle_timeout e"
  by (auto simp: init_idle_timeout_def split: option.splits)

lemma init_aligned_range: "10 \<le> i \<Longrightarrow> 10 \<le> fst (init_aligned_timeout L cfg i w) \<and> fst (init_aligned_timeout L cfg i w) \<le> i"
  using align_idle_timeout_range
  by (auto simp: init_aligned_timeout_def rust_pg_align_idle_timeout_with_server_def Let_def split: option.splits prod.splits)

lemma pool_init_sizes:
  assumes "0 < psize" "psize \<le> pmax" "10 \<le> idle" "made \<longrightarrow> sizes_ok (pm S)"
  shows "sizes_ok (pm (rust_pool_init made L psize pmax idle S))
    \<and> int (configured_size (pm (rust_pool_init made L psize pmax idle S))) \<le> psize
    \<and> int (configured_max_size (pm (rust_pool_init made L psize pmax idle S))) \<le> pmax
    \<and> int (idle_timeout_secs (pm (rust_pool_init made L psize pmax idle S))) = idle"
proof -
  define m where "m = (if made then pm S else PoolManager_new (nat psize) (nat pmax) (getpid L (world S)))"
  have m: "hm_ok (registry m)" "hm_ok (db_to_pool m)" "1 \<le> length (slots m)"
    using assms by (auto simp: m_def sizes_ok_def PoolManager_new_def Let_def)
  let ?max = "max (min (nat pmax) (length (slots m))) 1"
  have eq: "pm (rust_pool_init made L psize pmax idle S) = m\<lparr>configured_max_size := ?max,
      configured_size := if nat psize \<le> ?max then nat psize else ?max, idle_timeout_secs := nat idle, init_pid := getpid L (world S)\<rparr>"
    using assms(1-3) by (simp add: rust_pool_init_def m_def Let_def)
  have "int ?max \<le> pmax" "?max \<le> length (slots m)" "1 \<le> ?max" using assms m(3) by linarith+
  with m assms show ?thesis unfolding eq sizes_ok_def by (simp add: nat_le_iff) linarith
qed



section \<open>Closing everything\<close>

lemma close_handle_pool:
  assumes ok: "pool_ok (hold(p := Suc (hold p))) S" and p: "p \<noteq> 0"
  shows "returns (close_handle_connection L p S) (\<lambda>S'. pool_ok hold S' \<and> pool_same S S' \<and> (\<forall>q. q \<noteq> p \<longrightarrow> heap S' q = heap S q))"
proof -
  let ?R = "refs (hold(p := Suc (hold p))) (pm S)"
  have R: "?R = (refs hold (pm S))(p := Suc (refs hold (pm S) p))" by (rule refs_hold [OF p])
  have mem: "mem_ok ?R S" "0 < ?R p" using ok R by (simp_all add: pool_ok_but_def)
  obtain S' where S': "close_handle_connection L p S = Some S'" "pool_same S S'" "mem_ok (?R(p := ?R p - 1)) S'"
    "\<forall>q. q \<noteq> p \<longrightarrow> heap S' q = heap S q"
    "1 < ?R p \<longrightarrow> map_option is_pg_active (heap S' p) = map_option is_pg_active (heap S p)"
    using returnsD [OF close_handle_connection_mem [OF mem, of L]] by blast
  note pm = pool_same_pm [OF S'(2)]
  have "?R(p := ?R p - 1) = refs hold (pm S)" by (simp add: R)
  with S'(3) have mem': "mem_ok (refs hold (pm S')) S'" by (simp add: refs_same [OF S'(2)])
  have "slot_ok S' (slot_at S' j)" if j: "j < length (slots (pm S'))" for j
  proof -
    have sok: "slot_ok S (slot_at S' j)" using ok that pm by (auto simp: pool_ok_but_def)
    have "0 < slot_count (pm S) (slot_conn (slot_at S' j))" using slot_count_at [of j "pm S"] j pm by simp
    then have "1 < ?R p" if "slot_conn (slot_at S' j) = p" using that p by (simp add: R refs_def)
    then have "map_option is_pg_active (heap S' (slot_conn (slot_at S' j))) = map_option is_pg_active (heap S (slot_conn (slot_at S' j)))"
      using S'(4,5) by (cases "slot_conn (slot_at S' j) = p") auto
    then have "active S' (slot_conn (slot_at S' j)) = active S (slot_conn (slot_at S' j))"
      by (cases "heap S' (slot_conn (slot_at S' j))"; cases "heap S (slot_conn (slot_at S' j))") (auto simp: active_def)
    with sok show ?thesis by (simp add: slot_ok_def)
  qed
  then have "pool_ok hold S'"
    using ok S'(2) mem' by (auto simp: pool_ok_but_def sizes_ok_same slot_conns_same apart_same pool_same_def)
  with S' show ?thesis by (auto intro: returnsI)
qed

lemma close_all_spec:
  "pool_ok (\<lambda>q. hold q + count_list conns q) S \<Longrightarrow> 0 \<notin> set conns \<Longrightarrow>
   returns (close_all L conns S) (\<lambda>S'. pool_ok hold S' \<and> pool_same S S')"
proof (induction conns arbitrary: S)
  case (Cons p conns)
  let ?h = "\<lambda>q. hold q + count_list conns q"
  have "(\<lambda>q. hold q + count_list (p # conns) q) = ?h(p := Suc (?h p))" by (auto simp: fun_eq_iff)
  with Cons.prems have "pool_ok (?h(p := Suc (?h p))) S" "p \<noteq> 0" by auto
  from returnsD [OF close_handle_pool [OF this, of L]]
  obtain S1 where S1: "close_handle_connection L p S = Some S1" "pool_ok ?h S1" "pool_same S S1" by blast
  from Cons.IH [OF S1(2)] Cons.prems(2) have "returns (close_all L conns S1) (\<lambda>S'. pool_ok hold S' \<and> pool_same S1 S')" by simp
  with S1 show ?case by (auto intro: returns_weaken pool_same_trans)
qed simp

definition emptied :: "PoolSlot \<Rightarrow> PoolSlot" where
  "emptied s = s\<lparr>slot_state := SLOT_FREE, slot_conn := 0, owner_thread := 0, generation := 0\<rparr>"

lemma emptied_ok [simp]: "slot_ok S (emptied s)"
  by (simp add: emptied_def slot_ok_def)

lemma cleanup_slot_spec:
  assumes ok: "pool_ok hold S" and i: "i < length (slots (pm S))"
  shows "returns (cleanup_slot L i S) (\<lambda>S'. pool_ok hold S' \<and> registry (pm S') = registry (pm S)
    \<and> slots (pm S') = (slots (pm S))[i := emptied (slot_at S i)] \<and> pool_size (pm S') = pool_size (pm S))"
proof -
  let ?p = "slot_conn (slot_at S i)" and ?s = "(slot_at S i)\<lparr>slot_state := SLOT_FREE, slot_conn := 0\<rparr>"
  let ?S = "set_slot i ?s S"
  have first: "returns (if is_null ?p then Some ?S else destroy_pool_connection L ?p ?S) (\<lambda>S1. working i hold S1 \<and> pool_same ?S S1)"
  proof (cases "?p = 0")
    case True
    then show ?thesis using working_set_slot [OF ok _ i, of ?s] by simp
  next
    case False
    note out = working_take_out [OF ok _ i, of ?s ?p]
    have w: "working i (hold(?p := Suc (hold ?p))) ?S" "slot_count (pm ?S) ?p = 0" using out False by simp_all
    from destroy_working [OF w(1) False w(2), of L] False show ?thesis by (auto intro: returns_weaken)
  qed
  have last: "pool_ok hold S' \<and> registry (pm S') = registry (pm S)
      \<and> slots (pm S') = (slots (pm S))[i := emptied (slot_at S i)] \<and> pool_size (pm S') = pool_size (pm S)"
    if w: "working i hold S1" and same: "pool_same ?S S1"
      and S': "S' = set_slot i ((slot_at S1 i)\<lparr>owner_thread := 0, generation := 0\<rparr>) S1" for S1 S'
  proof -
    note pm = pool_same_pm [OF same]
    have s: "(slot_at S1 i)\<lparr>owner_thread := 0, generation := 0\<rparr> = emptied (slot_at S i)" using pm i by (simp add: emptied_def)
    have "pool_ok hold S'"
      unfolding S' s using i pm by (intro pool_ok_set_slot [OF w]) (auto simp: emptied_def slot_ok_def)
    with s pm i show ?thesis by (simp add: S' pool_size_def pool_max_def)
  qed
  show ?thesis
    unfolding cleanup_slot_def Let_def returns_bind returns_Some
    by (rule returns_weaken [OF first]) (elim conjE, rule last, assumption, assumption, rule refl)
qed

lemma cleanup_slots_spec:
  assumes "pool_ok hold S" "\<forall>i\<in>set is. i < length (slots (pm S))"
  shows "returns (cleanup_slots L is S) (\<lambda>S'. pool_ok hold S' \<and> registry (pm S') = registry (pm S) \<and> length (slots (pm S')) = length (slots (pm S))
    \<and> (\<forall>j<length (slots (pm S)). if j \<in> set is then slot_at S' j = emptied (slot_at S j) else slot_at S' j = slot_at S j))"
  using assms
proof (induction "is" arbitrary: S)
  case (Cons i "is")
  obtain S1 where S1: "cleanup_slot L i S = Some S1" "pool_ok hold S1" "registry (pm S1) = registry (pm S)"
    "slots (pm S1) = (slots (pm S))[i := emptied (slot_at S i)]"
    using returnsD [OF cleanup_slot_spec [OF Cons.prems(1), of i L]] Cons.prems(2) by auto
  have "emptied (emptied s) = emptied s" for s by (simp add: emptied_def)
  moreover obtain S2 where S2: "cleanup_slots L is S1 = Some S2" "pool_ok hold S2" "registry (pm S2) = registry (pm S1)"
    "length (slots (pm S2)) = length (slots (pm S1))"
    "\<forall>j<length (slots (pm S1)). if j \<in> set is then slot_at S2 j = emptied (slot_at S1 j) else slot_at S2 j = slot_at S1 j"
    using returnsD [OF Cons.IH [OF S1(2)]] Cons.prems(2) S1(4) by auto
  ultimately have "if j \<in> set (i # is) then slot_at S2 j = emptied (slot_at S j) else slot_at S2 j = slot_at S j"
    if "j < length (slots (pm S))" for j
    using S2(5) [rule_format, of j] that S1(4) Cons.prems(2) by (auto simp: nth_list_update split: if_splits)
  with S1 S2 show ?case by simp
qed simp

text \<open>The pool's slots beyond its current size hold nothing.\<close>

definition spare_empty :: "PoolManager \<Rightarrow> bool" where
  "spare_empty m \<longleftrightarrow> list_all (\<lambda>s. slot_conn s = 0) (drop (pool_size m) (slots m))"

lemma refs_empty:
  "list_all (\<lambda>s. slot_conn s = 0) (slots m) \<Longrightarrow> registry m = [] \<Longrightarrow> refs h m p = (if p = 0 then 0 else h p)"
  by (auto simp: refs_def slot_count_def reg_count_def hm_values_def list_all_iff count_list_0_iff)

lemma slot_conns_empty: "list_all (\<lambda>s. slot_conn s = 0) (slots m) \<Longrightarrow> slot_conns m = []"
  by (auto simp: slot_conns_def list_all_iff filter_empty_conv)

lemma pool_cleanup_spec:
  assumes ok: "pool_ok hold S" and spare: "spare_empty (pm S)" and reg: "registry (pm S) = []"
  shows "returns (rust_pool_cleanup L S) (\<lambda>S'. pool_ok hold S' \<and> list_all (\<lambda>s. slot_conn s = 0) (slots (pm S'))
    \<and> registry (pm S') = [] \<and> db_to_pool (pm S') = [] \<and> stmt_caches S' = [])"
proof -
  have rng: "\<forall>i\<in>set [0..<pool_size (pm S)]. i < length (slots (pm S))" using pool_size_le [OF ok] by auto
  obtain S1 where S1: "cleanup_slots L [0..<pool_size (pm S)] S = Some S1" "pool_ok hold S1" "registry (pm S1) = registry (pm S)"
    "length (slots (pm S1)) = length (slots (pm S))"
    "\<forall>j<length (slots (pm S)). if j \<in> set [0..<pool_size (pm S)] then slot_at S1 j = emptied (slot_at S j) else slot_at S1 j = slot_at S j"
    using returnsD [OF cleanup_slots_spec [OF ok rng, of L]] by blast
  have spare': "slot_conn (slot_at S j) = 0" if "pool_size (pm S) \<le> j" "j < length (slots (pm S))" for j
    using spare that by (auto simp: spare_empty_def list_all_length dest!: spec [of _ "j - pool_size (pm S)"])
  have "slot_conn (slot_at S1 j) = 0" if "j < length (slots (pm S1))" for j
    using S1(5) [rule_format, of j] S1(4) that spare' [of j] by (auto simp: emptied_def split: if_splits)
  then have none: "list_all (\<lambda>s. slot_conn s = 0) (slots (pm S1))" by (simp add: list_all_length)
  let ?S2 = "S1\<lparr>pm := (pm S1)\<lparr>db_to_pool := [], registry := []\<rparr>\<rparr>"
  have "pool_ok hold ?S2"
    using S1(2,3) reg by (intro pool_ok_pm) (auto simp: pool_ok_but_def sizes_ok_def)
  moreover have "pool_same ?S2 (clear_all_stmt_caches ?S2)" "heap (clear_all_stmt_caches ?S2) = heap ?S2"
    by (rule pool_sameI; auto simp: clear_all_stmt_caches_def tables_ok_def caches_ok_def txn_maps_ok_def)
      (simp add: clear_all_stmt_caches_def)
  ultimately have "pool_ok hold (clear_all_stmt_caches ?S2)" by (rule pool_ok_same_heap)
  with S1(1) none show ?thesis by (simp add: rust_pool_cleanup_def) (simp add: clear_all_stmt_caches_def)
qed

text \<open>
  C15. Shutting the client down returns, closes every handle's connection and every slot's,
  and leaks and over-frees nothing: afterwards exactly the structs are allocated that
  something outside the pool and the registry, a statement, still references, and no slot,
  record or cached statement is left.
\<close>

theorem client_cleanup_frees_all:
  assumes "pool_ok hold S" and "spare_empty (pm S)" and "0 \<notin> set (hm_values (registry (pm S)))"
  shows "\<exists>S'. rust_pg_client_cleanup L S = Some S' \<and> pool_ok hold S' \<and> registry (pm S') = [] \<and> db_to_pool (pm S') = [] \<and> stmt_caches S' = []
    \<and> list_all (\<lambda>s. slot_conn s = 0) (slots (pm S')) \<and> (\<forall>p. heap S' p = None \<longleftrightarrow> p = 0 \<or> hold p = 0)"
proof -
  let ?conns = "hm_values (registry (pm S))" and ?m = "(pm S)\<lparr>registry := []\<rparr>"
  have "refs (\<lambda>q. hold q + count_list ?conns q) ?m = refs hold (pm S)"
    by (auto simp: fun_eq_iff refs_def slot_count_def reg_count_def hm_values_def)
  then have "pool_ok (\<lambda>q. hold q + count_list ?conns q) (S\<lparr>pm := ?m\<rparr>)"
    using assms(1) by (intro pool_ok_registry [OF assms(1)]) (auto simp: pool_ok_but_def sizes_ok_def apart_def hm_values_def)
  from returnsD [OF close_all_spec [OF this assms(3), of L]]
  obtain S1 where S1: "close_all L ?conns (S\<lparr>pm := ?m\<rparr>) = Some S1" "pool_ok hold S1" "pool_same (S\<lparr>pm := ?m\<rparr>) S1" by blast
  have "spare_empty (pm S1)" "registry (pm S1) = []"
    using assms(2) pool_same_pm [OF S1(3)] by (simp_all add: spare_empty_def pool_size_def pool_max_def)
  from returnsD [OF pool_cleanup_spec [OF S1(2) this, of L]]
  obtain S' where S': "rust_pool_cleanup L S1 = Some S'" "pool_ok hold S'" "list_all (\<lambda>s. slot_conn s = 0) (slots (pm S'))"
    "registry (pm S') = []" "db_to_pool (pm S') = []" "stmt_caches S' = []" by blast
  have "p \<noteq> 0 \<Longrightarrow> refs hold (pm S') p = hold p" for p
    using S'(3,4) by (simp add: refs_empty)
  then have "heap S' p = None \<longleftrightarrow> p = 0 \<or> hold p = 0" for p
    using mem_ok_alloc [of "refs hold (pm S')" S' p] S'(2) pool_ok_null [OF S'(2)] by (cases "p = 0") (auto simp: pool_ok_but_def)
  with S1 S' show ?thesis by (auto simp: rust_pg_client_cleanup_def drain_all_def)
qed

theorem client_cleanup_frees_all_witness:
  "\<exists>S'. rust_pg_client_cleanup (quiet_pq id Suc) (looked_up (7 :: nat)) = Some S' \<and> (\<forall>p. heap S' p = None)"
  using client_cleanup_frees_all [OF pool_ok_looked_up, of 7 "quiet_pq id Suc"]
  by (auto simp: spare_empty_def hm_values_def)

section \<open>The child of a fork\<close>

lemma reset_slots_empty:
  assumes "spare_empty m"
  shows "list_all (\<lambda>s. slot_conn s = 0) (map reset_slot (take (pool_size m) (slots m)) @ drop (pool_size m) (slots m))"
  using assms by (auto simp: spare_empty_def list_all_iff reset_slot_def)

lemma slot_ok_reset:
  assumes "pool_ok hold S" "j < length (slots (pm S))"
  shows "slot_ok S ((map reset_slot (take n (slots (pm S))) @ drop n (slots (pm S))) ! j)"
  using pool_okD [OF assms] assms(2) by (auto simp: nth_append reset_slot_def slot_ok_def)

text \<open>
  C18. A process that finds itself forked forgets the parent's connections without speaking
  on them: the first check empties every slot, with a new generation, and every record,
  sends nothing to any server, frees nothing, and leaves the pool sound, the references it
  had being the parent's now; every later check does nothing.
\<close>

theorem fork_child_forgets:
  assumes "pool_ok hold S" and "spare_empty (pm S)" and "init_pid (pm S) \<noteq> 0" and "init_pid (pm S) \<noteq> getpid L (world S)"
  shows "let (forked, S') = rust_pool_check_fork L t S in forked = 1 \<and> pool_ok (refs hold (pm S)) S'
    \<and> world S' = world S \<and> heap S' = heap S \<and> registry (pm S') = [] \<and> db_to_pool (pm S') = []
    \<and> list_all (\<lambda>s. slot_conn s = 0) (slots (pm S'))
    \<and> (\<forall>i<pool_size (pm S). generation (slot_at S' i) = generation (slot_at S i) + 1 \<and> slot_state (slot_at S' i) = SLOT_FREE)
    \<and> rust_pool_check_fork L t S' = (0, S')"
proof -
  let ?n = "pool_size (pm S)"
  let ?slots = "map reset_slot (take ?n (slots (pm S))) @ drop ?n (slots (pm S))"
  let ?m = "(pm S)\<lparr>slots := ?slots, registry := [], db_to_pool := [], init_pid := getpid L (world S)\<rparr>"
  let ?S = "S\<lparr>pm := ?m\<rparr>"
  have len: "?n \<le> length (slots (pm S))" using pool_size_le [OF assms(1)] by simp
  have none: "list_all (\<lambda>s. slot_conn s = 0) ?slots" by (rule reset_slots_empty [OF assms(2)])
  have refs: "refs (refs hold (pm S)) ?m = refs hold (pm S)"
  proof
    fix p
    have "refs (refs hold (pm S)) ?m p = (if p = 0 then 0 else refs hold (pm S) p)" by (rule refs_empty) (use none in simp_all)
    then show "refs (refs hold (pm S)) ?m p = refs hold (pm S) p" by (simp only:) (simp add: refs_def)
  qed
  have "slot_conns ?m = []" by (rule slot_conns_empty) (use none in simp)
  moreover from this have "apart ?m" by (simp add: apart_def)
  moreover have "sizes_ok ?m" using assms(1) len by (auto simp: pool_ok_but_def sizes_ok_def)
  moreover have "mem_ok (refs (refs hold (pm S)) ?m) ?S"
    unfolding refs using assms(1) mem_ok_heap_eq [of ?S S "refs hold (pm S)"] unfolding pool_ok_but_def by simp
  moreover have "tables_ok ?S" using assms(1) tables_ok_cong [of ?S S] unfolding pool_ok_but_def by simp
  moreover have "slot_ok ?S (?slots ! j)" if "j < length (slots (pm S))" for j
    using slot_ok_reset [OF assms(1) that, of ?n] slot_ok_cong [of ?S S] by simp
  ultimately have "pool_ok (refs hold (pm S)) ?S" unfolding pool_ok_but_def using len by simp
  moreover have "rust_pool_check_fork L t S = (1, tls_pool_cache_clear t ?S)"
    using assms(3,4) by (simp add: rust_pool_check_fork_def reset_for_child_def Let_def)
  moreover have "world (tls_pool_cache_clear t ?S) = world S" by (simp add: tls_pool_cache_clear_def)
  ultimately show ?thesis
    using none len by (simp add: pool_ok_tls_clear rust_pool_check_fork_def nth_append reset_slot_def)
qed

theorem fork_child_forgets_witness:
  "let (forked, S') = rust_pool_check_fork ((quiet_pq id Suc)\<lparr>getpid := \<lambda>_. 2\<rparr>) 3 (looked_up (7 :: nat)) in
     forked = 1 \<and> pool_ok (refs (\<lambda>_. 0) (pm (looked_up (7 :: nat)))) S' \<and> heap S' = heap (looked_up 7)"
  using fork_child_forgets [OF pool_ok_looked_up, of "7 :: nat" "(quiet_pq id Suc)\<lparr>getpid := \<lambda>_. 2\<rparr>" 3]
  by (auto simp: spare_empty_def Let_def)

end
