(* ===== verification/Guide_Load.thy ===== *)
theory Guide_Load
  imports Conn_Lifecycle
begin

text \<open>
  A Live TV guide load in PostgreSQL (\<^verbatim>\<open>guide_load.rs\<close>): whether a load is staged, how its
  reads are cached, the savepoint around each of its writes, and the id sequence that is
  raised after a statement that assigned an id itself. The request to the manager over its
  socket is an argument; so is the hash that qualifies a cache key by a schema, which is the
  standard library's.
\<close>

section \<open>Staging\<close>

definition load_file_path :: "string option \<Rightarrow> string option" where
  "load_file_path filename =
     (case filename of None \<Rightarrow> None | Some path \<Rightarrow> if is_guide_load_path path then Some path else None)"

text \<open>\<open>Result<String, String>\<close>: \<open>Inl\<close> is the error. The reason's text goes to the log only.\<close>

definition staged :: "string + string \<Rightarrow> string + string" where
  "staged answer =
     (case answer of
        Inr line \<Rightarrow> if line = ''ok'' \<or> starts_with ''ok '' line then Inr line else Inl (''the manager answered '' @ line)
      | Inl err \<Rightarrow> Inl err)"

definition stage_before_open ::
  "(string \<Rightarrow> string \<Rightarrow> 'w \<Rightarrow> (string + string) \<times> 'w) \<Rightarrow> string \<Rightarrow> 'w shim \<Rightarrow> bool \<times> 'w shim" where
  "stage_before_open stage_request path S =
     (if \<not> guide_loads_enabled (env S) then (False, S)
      else case env S ''PLEX_PG_GUIDE_SOCKET'' of
             None \<Rightarrow> (False, S)
           | Some socket \<Rightarrow>
               (let (answer, w) = stage_request socket path (world S)
                in case staged answer of Inr _ \<Rightarrow> (True, S\<lparr>world := w\<rparr>) | Inl _ \<Rightarrow> (False, S\<lparr>world := w\<rparr>)))"

section \<open>Cached reads\<close>

definition result_cache_key :: "(u64 \<Rightarrow> string \<Rightarrow> u64) \<Rightarrow> u64 \<Rightarrow> string \<Rightarrow> u64" where
  "result_cache_key key_in_schema key path =
     (if key = 0 \<or> is_guide_load_path path then 0
      else case epg_schema_for_path path of Some schema \<Rightarrow> key_in_schema key schema | None \<Rightarrow> key)"

section \<open>The savepoint of a write\<close>

definition SAVEPOINT_SQL :: string where "SAVEPOINT_SQL = ''SAVEPOINT plex_pg_stmt''"
definition RELEASE_SQL :: string where "RELEASE_SQL = ''RELEASE SAVEPOINT plex_pg_stmt''"
definition ROLLBACK_TO_SQL :: string where "ROLLBACK_TO_SQL = ''ROLLBACK TO SAVEPOINT plex_pg_stmt''"

definition wraps_in_savepoint :: "string \<Rightarrow> bool \<Rightarrow> bool \<Rightarrow> bool" where
  "wraps_in_savepoint path in_txn savepoints \<longleftrightarrow> savepoints \<and> in_txn \<and> is_guide_load_path path"

definition savepoint_wraps :: "ptr \<Rightarrow> 'w shim \<Rightarrow> bool option" where
  "savepoint_wraps conn S =
     (if is_null conn then Some False
      else do {
        c \<leftarrow> heap S conn;
        Some (if \<not> is_guide_load_path (conn_path c) then False
              else wraps_in_savepoint (conn_path c) (in_transaction conn S) (savepoints_enabled (env S)))
      })"

definition exec_ok :: "'w libpq \<Rightarrow> ptr \<Rightarrow> string \<Rightarrow> 'w \<Rightarrow> bool \<times> 'w" where
  "exec_ok L pg sql w =
     (case cstring_new sql of
        None \<Rightarrow> (False, w)
      | Some cs \<Rightarrow>
          (let (res, w1) = rust_pq_exec L pg (Some cs) w;
               ok = (\<not> is_null res \<and> rust_pq_result_status L res w1 = PGRES_COMMAND_OK)
           in (ok, if is_null res then w1 else rust_pq_clear L res w1)))"

definition begin_statement_savepoint :: "'w libpq \<Rightarrow> ptr \<Rightarrow> 'w \<Rightarrow> bool \<times> 'w" where
  "begin_statement_savepoint L pg w = exec_ok L pg SAVEPOINT_SQL w"

definition end_statement_savepoint :: "'w libpq \<Rightarrow> ptr \<Rightarrow> bool \<Rightarrow> 'w \<Rightarrow> 'w" where
  "end_statement_savepoint L pg succeeded w =
     (let w1 = (if \<not> succeeded then snd (exec_ok L pg ROLLBACK_TO_SQL w) else w)
      in snd (exec_ok L pg RELEASE_SQL w1))"

definition is_load_handle :: "ptr \<Rightarrow> 'w shim \<Rightarrow> bool option" where
  "is_load_handle conn S =
     (if is_null conn then Some False else map_option (\<lambda>c. is_guide_load_path (conn_path c)) (heap S conn))"

section \<open>Statements that assign an id\<close>

definition name_byte :: "char \<Rightarrow> bool" where
  "name_byte c \<longleftrightarrow> is_ascii_alphanumeric c \<or> c = CHR ''_''"

text \<open>One identifier off the start: its last dotted part, and what follows.\<close>

definition raw_identifier :: "string \<Rightarrow> (string \<times> string) option" where
  "raw_identifier s =
     (case s of
        [] \<Rightarrow> None
      | q # inner \<Rightarrow>
          if q = CHR 0x60 \<or> q = CHR 0x22 then
            (if q \<in> set inner
             then Some (takeWhile (\<lambda>c. c \<noteq> q) inner, drop 1 (dropWhile (\<lambda>c. c \<noteq> q) inner)) else None)
          else Some (takeWhile (\<lambda>c. name_byte c \<or> c = CHR ''.'') s, dropWhile (\<lambda>c. name_byte c \<or> c = CHR ''.'') s))"

definition sql_identifier :: "string \<Rightarrow> (string \<times> string) option" where
  "sql_identifier s =
     do {
       (raw, rest) \<leftarrow> raw_identifier (trim_start s);
       let name = last (split_on (CHR ''.'') raw);
       if name = [] \<or> \<not> list_all name_byte name then None else Some (name, rest)
     }"

definition unquote :: "string \<Rightarrow> string" where
  "unquote s =
     (let quote = (\<lambda>c. c = CHR 0x60 \<or> c = CHR 0x22 \<or> c = CHR ''['' \<or> c = CHR '']'')
      in trim_end_matches quote (dropWhile quote s))"

text \<open>The loop of \<open>split_top_level\<close>: the part read so far, in order, is \<open>part\<close>.\<close>

fun split_top :: "nat \<Rightarrow> char option \<Rightarrow> string \<Rightarrow> string \<Rightarrow> string list" where
  "split_top depth quote part [] = [part]"
| "split_top depth quote part (c # cs) =
     (case quote of
        Some q \<Rightarrow> split_top depth (if c = q then None else Some q) (part @ [c]) cs
      | None \<Rightarrow>
          if c = CHR 0x27 \<or> c = CHR 0x22 \<or> c = CHR 0x60 then split_top depth (Some c) (part @ [c]) cs
          else if c = CHR ''('' then split_top (depth + 1) None (part @ [c]) cs
          else if c = CHR '')'' then split_top (depth - 1) None (part @ [c]) cs
          else if c = CHR '','' \<and> depth = 0 then part # split_top depth None [] cs
          else split_top depth None (part @ [c]) cs)"

definition split_top_level :: "string \<Rightarrow> string list" where
  "split_top_level s = split_top 0 None [] s"

text \<open>What stands before the first occurrence of \<open>p\<close>.\<close>

fun before_str :: "string \<Rightarrow> string \<Rightarrow> string option" where
  "before_str p [] = (if p = [] then Some [] else None)"
| "before_str p (c # cs) = (if starts_with p (c # cs) then Some [] else map_option (Cons c) (before_str p cs))"

definition update_assigns :: "string \<Rightarrow> string option" where
  "update_assigns rest =
     do {
       (table, after) \<leftarrow> sql_identifier (trim_start rest);
       after \<leftarrow> strip_prefix ''set'' (trim_start after);
       if after = [] \<or> \<not> is_whitespace (hd after) then None
       else do {
         let set_list = unwrap_or (before_str '' where '' after) after;
         if list_ex (\<lambda>a. unquote (trim (hd (split_on (CHR ''='') a))) = ''id'') (split_top_level set_list) then Some table else None
       }
     }"

text \<open>\<open>or replace\<close> and the like are skipped up to the next white space, and \<open>into\<close>.\<close>

definition skip_or :: "string \<Rightarrow> string option" where
  "skip_or rest =
     (case strip_prefix ''or '' rest of
        None \<Rightarrow> Some rest
      | Some r \<Rightarrow>
          if list_ex is_whitespace (trim_start r)
          then Some (trim_start (dropWhile (\<lambda>c. \<not> is_whitespace c) (trim_start r))) else None)"

definition skip_into :: "string \<Rightarrow> string" where
  "skip_into rest = (case strip_prefix ''into '' rest of None \<Rightarrow> rest | Some r \<Rightarrow> trim_start r)"

definition insert_assigns :: "string \<Rightarrow> string option" where
  "insert_assigns rest =
     do {
       rest \<leftarrow> skip_or (trim_start rest);
       (table, after) \<leftarrow> sql_identifier (skip_into rest);
       cols \<leftarrow> strip_prefix ''('' (trim_start after);
       if CHR '')'' \<notin> set cols then None
       else if list_ex (\<lambda>c. unquote (trim c) = ''id'') (split_on (CHR '','') (takeWhile (\<lambda>c. c \<noteq> CHR '')'') cols))
       then Some table else None
     }"

definition id_assignment :: "string \<Rightarrow> string option" where
  "id_assignment sql =
     (let lower = to_ascii_lowercase (trim_start sql) in
      case split_whitespace lower of
        [] \<Rightarrow> None
      | first # _ \<Rightarrow>
          if first = ''update'' then update_assigns (drop (length first) lower)
          else if first = ''insert'' \<or> first = ''replace'' then insert_assigns (drop (length first) lower)
          else None)"

section \<open>Raising the sequence\<close>

definition SQ :: string where "SQ = [CHR 0x27]"
definition DQ :: string where "DQ = [CHR 0x22]"
definition BS :: string where "BS = [CHR 0x5C]"

definition resync_sequence_sql :: "string \<Rightarrow> string" where
  "resync_sequence_sql t =
     ''SELECT setval(s.seq, GREATEST(m.mx, COALESCE(pg_sequence_last_value(s.seq), 0), 1), ''
     @ ''m.mx > 0 OR pg_sequence_last_value(s.seq) IS NOT NULL) ''
     @ ''FROM (SELECT (regexp_match(pg_get_expr(d.adbin, d.adrelid), ''
     @ SQ @ ''^nextval'' @ BS @ ''('' @ SQ @ SQ @ ''(.*)'' @ SQ @ SQ @ ''::regclass'' @ BS @ '')$'' @ SQ @ ''))[1]::regclass AS seq ''
     @ ''FROM pg_attrdef d JOIN pg_attribute a ON a.attrelid = d.adrelid AND a.attnum = d.adnum ''
     @ ''WHERE d.adrelid = to_regclass('' @ SQ @ DQ @ t @ DQ @ SQ @ '') AND a.attname = '' @ SQ @ ''id'' @ SQ @ '') s, ''
     @ ''LATERAL (SELECT COALESCE(max(id), 0) AS mx FROM '' @ DQ @ t @ DQ @ '') m''"

definition RESYNC_SAVEPOINT_SQL :: string where "RESYNC_SAVEPOINT_SQL = ''SAVEPOINT plex_pg_resync''"
definition RESYNC_RELEASE_SQL :: string where "RESYNC_RELEASE_SQL = ''RELEASE SAVEPOINT plex_pg_resync''"
definition RESYNC_ROLLBACK_SQL :: string where "RESYNC_ROLLBACK_SQL = ''ROLLBACK TO SAVEPOINT plex_pg_resync''"

definition resync_sequence_once :: "'w libpq \<Rightarrow> ptr \<Rightarrow> string \<Rightarrow> 'w \<Rightarrow> bool \<times> 'w" where
  "resync_sequence_once L pg table w =
     (case cstring_new (resync_sequence_sql table) of
        None \<Rightarrow> (False, w)
      | Some cs \<Rightarrow>
          (let (res, w1) = rust_pq_exec L pg (Some cs) w;
               ok = (\<not> is_null res \<and> rust_pq_result_status L res w1 = PGRES_TUPLES_OK)
           in (ok, if is_null res then w1 else rust_pq_clear L res w1)))"

definition resync_sequence :: "'w libpq \<Rightarrow> ptr \<Rightarrow> string \<Rightarrow> bool \<Rightarrow> 'w \<Rightarrow> 'w" where
  "resync_sequence L pg table in_txn w =
     (let (guarded, w1) = (if in_txn then exec_ok L pg RESYNC_SAVEPOINT_SQL w else (False, w));
          (ok, w2) = resync_sequence_once L pg table w1
      in if guarded then
           let w3 = (if \<not> ok then snd (exec_ok L pg RESYNC_ROLLBACK_SQL w2) else w2)
           in snd (exec_ok L pg RESYNC_RELEASE_SQL w3)
         else w2)"

section \<open>Only safe names\<close>

lemma ascii_lower_name: "name_byte (ascii_lower c) \<Longrightarrow> \<not> is_ascii_upper (ascii_lower c)"
  by (auto simp: ascii_lower_def is_ascii_upper_def)

lemma last_split_on: "set (last (split_on c s)) \<subseteq> set s"
proof (induction s)
  case (Cons x xs)
  then show ?case by (cases "split_on c xs") auto
qed simp

lemma sql_identifier_name:
  assumes "sql_identifier s = Some (name, rest)"
  shows "name \<noteq> [] \<and> list_all name_byte name \<and> set name \<subseteq> set s"
proof -
  obtain raw where raw: "raw_identifier (trim_start s) = Some (raw, rest)" and name: "name = last (split_on (CHR ''.'') raw)"
    "name \<noteq> []" "list_all name_byte name"
    using assms by (auto simp: sql_identifier_def Let_def split: bind_splits if_splits)
  have "set raw \<subseteq> set (trim_start s)"
    using raw by (auto simp: raw_identifier_def split: list.splits if_splits dest: set_takeWhileD)
  moreover have "set (trim_start s) \<subseteq> set s" by (auto simp: trim_start_def dest: set_dropWhileD)
  ultimately show ?thesis using name last_split_on [of "CHR ''.''" raw] by auto
qed

lemma strip_prefix_set: "strip_prefix p s = Some r \<Longrightarrow> set r \<subseteq> set s"
  by (auto simp: strip_prefix_def split: if_splits dest: in_set_dropD)

lemma trim_start_set: "set (trim_start s) \<subseteq> set s"
  by (auto simp: trim_start_def dest: set_dropWhileD)

lemma skip_or_set: "skip_or s = Some r \<Longrightarrow> set r \<subseteq> set s"
  using trim_start_set strip_prefix_set [of "''or ''" s]
  by (fastforce simp: skip_or_def trim_start_def split: option.splits if_splits dest: set_dropWhileD)

lemma skip_into_set: "set (skip_into s) \<subseteq> set s"
  using trim_start_set strip_prefix_set [of "''into ''" s] by (fastforce simp: skip_into_def split: option.splits)

text \<open>
  C38. The table a statement is found to assign an id in is a plain name: not empty, and made
  of lower-case letters, digits and underscores only. So the statement that raises the
  table's sequence, which has the name between quotes, quotes exactly that name.
\<close>

theorem id_assignment_safe:
  assumes "id_assignment sql = Some table"
  shows "table \<noteq> [] \<and> list_all (\<lambda>c. is_ascii_lower c \<or> is_ascii_digit c \<or> c = CHR ''_'') table"
proof -
  let ?lower = "to_ascii_lowercase (trim_start sql)"
  obtain s rest where s: "sql_identifier s = Some (table, rest)" "set s \<subseteq> set ?lower"
  proof -
    obtain n where f: "update_assigns (drop n ?lower) = Some table \<or> insert_assigns (drop n ?lower) = Some table"
    proof (cases "split_whitespace ?lower")
      case (Cons first xs)
      with assms have "update_assigns (drop (length first) ?lower) = Some table \<or> insert_assigns (drop (length first) ?lower) = Some table"
        unfolding id_assignment_def Let_def by (simp only: list.case split: if_splits) simp_all
      then show thesis by (rule that)
    qed (use assms in \<open>simp add: id_assignment_def\<close>)
    let ?d = "drop n ?lower"
    have d: "set ?d \<subseteq> set ?lower" by (auto dest: in_set_dropD)
    from f show thesis
    proof
      assume "update_assigns ?d = Some table"
      then obtain rest where "sql_identifier (trim_start ?d) = Some (table, rest)"
        by (auto simp: update_assigns_def Let_def split: bind_splits if_splits)
      with that d trim_start_set [of ?d] show thesis by blast
    next
      assume "insert_assigns ?d = Some table"
      then obtain r rest where "skip_or (trim_start ?d) = Some r" "sql_identifier (skip_into r) = Some (table, rest)"
        by (auto simp: insert_assigns_def split: bind_splits if_splits)
      with that d trim_start_set [of ?d] skip_or_set skip_into_set [of r] show thesis by blast
    qed
  qed
  have "is_ascii_lower c \<or> is_ascii_digit c \<or> c = CHR ''_''" if c: "c \<in> set table" for c
  proof -
    have "name_byte c" using sql_identifier_name [OF s(1)] c by (simp add: list_all_iff)
    moreover obtain d where "c = ascii_lower d"
      using sql_identifier_name [OF s(1)] s(2) c by (auto simp: to_ascii_lowercase_def)
    ultimately show ?thesis using ascii_lower_name [of d] by (auto simp: name_byte_def is_ascii_alphanumeric_def)
  qed
  then show ?thesis using sql_identifier_name [OF s(1)] by (simp add: list_all_iff)
qed

theorem id_assignment_safe_witness:
  "id_assignment ''UPDATE `Library_Sections` SET name=upper(x,y), id=2 WHERE id=1'' = Some ''library_sections''
    \<and> list_all (\<lambda>c. is_ascii_lower c \<or> is_ascii_digit c \<or> c = CHR ''_'') ''library_sections''"
proof -
  have "id_assignment ''UPDATE `Library_Sections` SET name=upper(x,y), id=2 WHERE id=1'' = Some ''library_sections''" by code_simp
  with id_assignment_safe [OF this] show ?thesis by blast
qed

text \<open>The parts of a list, joined by commas again.\<close>

fun join_commas :: "string list \<Rightarrow> string" where
  "join_commas [] = []"
| "join_commas [s] = s"
| "join_commas (s # ss) = s @ CHR '','' # join_commas ss"

lemma split_top_nonempty: "split_top d q part s \<noteq> []"
proof (induction s arbitrary: d q part)
  case (Cons c cs)
  then show ?case by (cases q) simp_all
qed simp

lemma join_commas_Cons: "ss \<noteq> [] \<Longrightarrow> join_commas (s # ss) = s @ CHR '','' # join_commas ss"
  by (cases ss) simp_all

lemma join_split_top: "join_commas (split_top d q part s) = part @ s"
proof (induction s arbitrary: d q part)
  case (Cons c cs)
  then show ?case by (cases q) (simp_all add: join_commas_Cons split_top_nonempty del: join_commas.simps)
qed simp


section \<open>The savepoints keep the transaction usable\<close>

text \<open>
  What PostgreSQL documents of an open transaction, over the answers of one session that
  stays up: \<open>view\<close> reads the open savepoints, the innermost first, and whether a refused
  statement has aborted the transaction.
\<close>

definition pg_savepoints :: "(string \<Rightarrow> 'w \<Rightarrow> int \<times> 'w) \<Rightarrow> ('w \<Rightarrow> string list \<times> bool) \<Rightarrow> bool" where
  "pg_savepoints ex view \<longleftrightarrow>
     (\<forall>n w. \<not> snd (view w) \<longrightarrow> fst (ex (''SAVEPOINT '' @ n) w) = PGRES_COMMAND_OK \<and> view (snd (ex (''SAVEPOINT '' @ n) w)) = (n # fst (view w), False))
   \<and> (\<forall>n w. n \<in> set (fst (view w)) \<longrightarrow> fst (ex (''ROLLBACK TO SAVEPOINT '' @ n) w) = PGRES_COMMAND_OK
        \<and> view (snd (ex (''ROLLBACK TO SAVEPOINT '' @ n) w)) = (dropWhile (\<lambda>m. m \<noteq> n) (fst (view w)), False))
   \<and> (\<forall>n w. n \<in> set (fst (view w)) \<longrightarrow> \<not> snd (view w) \<longrightarrow> fst (ex (''RELEASE SAVEPOINT '' @ n) w) = PGRES_COMMAND_OK
        \<and> view (snd (ex (''RELEASE SAVEPOINT '' @ n) w)) = (tl (dropWhile (\<lambda>m. m \<noteq> n) (fst (view w))), False))"

lemma pg_savepoint:
  "pg_savepoints ex view \<Longrightarrow> \<not> snd (view w) \<Longrightarrow> fst (ex (''SAVEPOINT '' @ n) w) = PGRES_COMMAND_OK
     \<and> view (snd (ex (''SAVEPOINT '' @ n) w)) = (n # fst (view w), False)"
  unfolding pg_savepoints_def by blast

lemma pg_rollback_to:
  "pg_savepoints ex view \<Longrightarrow> n \<in> set (fst (view w)) \<Longrightarrow>
     view (snd (ex (''ROLLBACK TO SAVEPOINT '' @ n) w)) = (dropWhile (\<lambda>m. m \<noteq> n) (fst (view w)), False)"
  unfolding pg_savepoints_def by blast

lemma pg_release:
  "pg_savepoints ex view \<Longrightarrow> n \<in> set (fst (view w)) \<Longrightarrow> \<not> snd (view w) \<Longrightarrow>
     view (snd (ex (''RELEASE SAVEPOINT '' @ n) w)) = (tl (dropWhile (\<lambda>m. m \<noteq> n) (fst (view w))), False)"
  unfolding pg_savepoints_def by blast

text \<open>A statement that is not transaction control: refused, it aborts the transaction.\<close>

definition plain_statement :: "(string \<Rightarrow> 'w \<Rightarrow> int \<times> 'w) \<Rightarrow> ('w \<Rightarrow> string list \<times> bool) \<Rightarrow> string \<Rightarrow> bool" where
  "plain_statement ex view q \<longleftrightarrow> (\<forall>w. \<not> snd (view w) \<longrightarrow>
     view (snd (ex q w)) = (fst (view w), fst (ex q w) \<notin> {PGRES_COMMAND_OK, PGRES_TUPLES_OK}))"

definition server_status :: "'w libpq \<Rightarrow> ptr \<Rightarrow> string \<Rightarrow> 'w \<Rightarrow> int \<times> 'w" where
  "server_status L pg q w =
     (let (res, w1) = PQexec L pg q w in if res = 0 then (-1, w1) else (PQresultStatus L res w1, PQclear L res w1))"

lemma exec_ok_status:
  "pg \<noteq> 0 \<Longrightarrow> CHR 0x00 \<notin> set q \<Longrightarrow>
   exec_ok L pg q w = (fst (server_status L pg q w) = PGRES_COMMAND_OK, snd (server_status L pg q w))"
  by (auto simp: exec_ok_def cstring_new_def server_status_def rust_pq_exec_def rust_pq_result_status_def rust_pq_clear_def
      PGRES_COMMAND_OK_def split: prod.splits)

lemma resync_once_status:
  "pg \<noteq> 0 \<Longrightarrow> CHR 0x00 \<notin> set (resync_sequence_sql t) \<Longrightarrow>
   resync_sequence_once L pg t w = (fst (server_status L pg (resync_sequence_sql t) w) = PGRES_TUPLES_OK, snd (server_status L pg (resync_sequence_sql t) w))"
  by (auto simp: resync_sequence_once_def cstring_new_def server_status_def rust_pq_exec_def rust_pq_result_status_def
      rust_pq_clear_def PGRES_TUPLES_OK_def split: prod.splits)

text \<open>The last two statements of a guarded attempt: whatever came of it, the savepoint is gone and nothing else.\<close>

lemma guarded_end:
  assumes srv: "pg_savepoints (server_status L pg) view" and pg: "pg \<noteq> 0" and n: "CHR 0x00 \<notin> set n"
    and w: "fst (view w) = n # sps" "ok \<longrightarrow> \<not> snd (view w)"
  shows "view (snd (exec_ok L pg (''RELEASE SAVEPOINT '' @ n)
      (if \<not> ok then snd (exec_ok L pg (''ROLLBACK TO SAVEPOINT '' @ n) w) else w))) = (sps, False)"
proof -
  define w1 where "w1 = (if \<not> ok then snd (exec_ok L pg (''ROLLBACK TO SAVEPOINT '' @ n) w) else w)"
  have nz: "CHR 0x00 \<notin> set (''RELEASE SAVEPOINT '' @ n)" "CHR 0x00 \<notin> set (''ROLLBACK TO SAVEPOINT '' @ n)"
    using n by simp_all
  have "view (snd (server_status L pg (''ROLLBACK TO SAVEPOINT '' @ n) w)) = (n # sps, False)"
    using pg_rollback_to [OF srv, of n w] w(1) by simp
  moreover have "snd (exec_ok L pg (''ROLLBACK TO SAVEPOINT '' @ n) w) = snd (server_status L pg (''ROLLBACK TO SAVEPOINT '' @ n) w)"
    by (simp only: exec_ok_status [OF pg nz(2)] snd_conv)
  ultimately have v: "view w1 = (n # sps, False)" unfolding w1_def using w by (cases "view w") simp
  then have "view (snd (server_status L pg (''RELEASE SAVEPOINT '' @ n) w1)) = (sps, False)"
    using pg_release [OF srv, of n w1] by simp
  then show ?thesis by (simp only: w1_def [symmetric] exec_ok_status [OF pg nz(1)] snd_conv)
qed

lemma guard_begin:
  assumes "pg_savepoints (server_status L pg) view" "pg \<noteq> 0" "CHR 0x00 \<notin> set n" "view w = (sps, False)"
  shows "fst (exec_ok L pg (''SAVEPOINT '' @ n) w) \<and> view (snd (exec_ok L pg (''SAVEPOINT '' @ n) w)) = (n # sps, False)"
proof -
  have nz: "CHR 0x00 \<notin> set (''SAVEPOINT '' @ n)" using assms(3) by simp
  have "fst (server_status L pg (''SAVEPOINT '' @ n) w) = PGRES_COMMAND_OK
      \<and> view (snd (server_status L pg (''SAVEPOINT '' @ n) w)) = (n # sps, False)"
    using pg_savepoint [OF assms(1), of w n] assms(4) by simp
  then show ?thesis by (simp only: exec_ok_status [OF assms(2) nz] fst_conv snd_conv)
qed

lemma savepoint_sqls:
  "SAVEPOINT_SQL = ''SAVEPOINT '' @ ''plex_pg_stmt''" "RELEASE_SQL = ''RELEASE SAVEPOINT '' @ ''plex_pg_stmt''"
  "ROLLBACK_TO_SQL = ''ROLLBACK TO SAVEPOINT '' @ ''plex_pg_stmt''"
  "RESYNC_SAVEPOINT_SQL = ''SAVEPOINT '' @ ''plex_pg_resync''" "RESYNC_RELEASE_SQL = ''RELEASE SAVEPOINT '' @ ''plex_pg_resync''"
  "RESYNC_ROLLBACK_SQL = ''ROLLBACK TO SAVEPOINT '' @ ''plex_pg_resync''"
  by (simp_all add: SAVEPOINT_SQL_def RELEASE_SQL_def ROLLBACK_TO_SQL_def RESYNC_SAVEPOINT_SQL_def RESYNC_RELEASE_SQL_def RESYNC_ROLLBACK_SQL_def)

lemma savepoint_names_nul_free: "CHR 0x00 \<notin> set ''plex_pg_stmt''" "CHR 0x00 \<notin> set ''plex_pg_resync''"
  by simp_all



text \<open>A server in a transaction that refuses everything but savepoint commands.\<close>

definition refusing_exec :: "string \<Rightarrow> string list \<times> bool \<Rightarrow> ptr \<times> (string list \<times> bool)" where
  "refusing_exec q = (\<lambda>(sps, aborted).
     if starts_with ''SAVEPOINT '' q \<and> \<not> aborted then (2, drop 10 q # sps, False)
     else if starts_with ''ROLLBACK TO SAVEPOINT '' q \<and> drop 22 q \<in> set sps then (2, dropWhile (\<lambda>m. m \<noteq> drop 22 q) sps, False)
     else if starts_with ''RELEASE SAVEPOINT '' q \<and> drop 18 q \<in> set sps \<and> \<not> aborted then (2, tl (dropWhile (\<lambda>m. m \<noteq> drop 18 q) sps), False)
     else (8, sps, True))"

definition refusing_pq :: "(string list \<times> bool) libpq" where
  "refusing_pq = (quiet_pq (\<lambda>_. 0) id)\<lparr>PQexec := \<lambda>_ q w. refusing_exec q w, PQresultStatus := \<lambda>res _. int res - 1\<rparr>"

lemma refusing_status: "server_status refusing_pq pg q w = (let (r, w1) = refusing_exec q w in (int r - 1, w1))"
  by (auto simp: server_status_def refusing_pq_def quiet_pq_def refusing_exec_def split: prod.splits)

lemma refusing_savepoints: "pg_savepoints (server_status refusing_pq pg) id"
  unfolding pg_savepoints_def refusing_status
  by (intro conjI allI impI) (auto simp: refusing_exec_def starts_with_def PGRES_COMMAND_OK_def)

lemma refusing_plain:
  "\<not> starts_with ''SAVEPOINT '' q \<Longrightarrow> \<not> starts_with ''RELEASE SAVEPOINT '' q \<Longrightarrow> \<not> starts_with ''ROLLBACK TO SAVEPOINT '' q \<Longrightarrow>
   plain_statement (server_status refusing_pq pg) id q"
  by (auto simp: plain_statement_def refusing_status refusing_exec_def PGRES_COMMAND_OK_def PGRES_TUPLES_OK_def)



end
