(* ===== verification/Db_Open.thy ===== *)
theory Db_Open
  imports Client_Init Guide_Load
begin

text \<open>
  Opening and closing a database (\<^verbatim>\<open>db_interpose_open.rs\<close>): the shim opens SQLite's own file,
  and for a file that is PostgreSQL's connects and registers a connection under the new
  handle; closing takes all of that back. SQLite's own functions, which the shim looks up at
  run time and may not find, and the manager's staging request are arguments. What is traced
  and logged is not modelled, nor the scope that the close enters for the finalizers of
  virtual tables.
\<close>

record 'w host_lib =
  orig_open :: "(string option \<Rightarrow> 'w \<Rightarrow> (int \<times> ptr) \<times> 'w) option"
  orig_open_v2 :: "(string option \<Rightarrow> int \<Rightarrow> string option \<Rightarrow> 'w \<Rightarrow> (int \<times> ptr) \<times> 'w) option"
  orig_close :: "(ptr \<Rightarrow> 'w \<Rightarrow> int \<times> 'w) option"
  orig_close_v2 :: "(ptr \<Rightarrow> 'w \<Rightarrow> int \<times> 'w) option"
  stage_socket :: "string \<Rightarrow> string \<Rightarrow> 'w \<Rightarrow> (string + string) \<times> 'w"

text \<open>The process: the client's state, the file names of the open handles, and the pass-through switch.\<close>

record 'w host =
  client :: "'w shim"
  db_handle_filenames :: "(ptr, string) hmap"
  passthrough_only :: bool

definition SQLITE_OK :: int where "SQLITE_OK = 0"

definition NEEDLE_LIBRARY_DB :: string where "NEEDLE_LIBRARY_DB = ''com.plexapp.plugins.library.db''"

definition filename_for_registry :: "string option \<Rightarrow> string" where
  "filename_for_registry filename = (case filename of None \<Rightarrow> ''<null>'' | Some f \<Rightarrow> f)"

definition opened_db_handle :: "int \<Rightarrow> bool \<Rightarrow> ptr \<Rightarrow> ptr" where
  "opened_db_handle rc pp_null db = (if rc \<noteq> SQLITE_OK \<or> pp_null then 0 else db)"

definition track_db_handle_filename :: "ptr \<Rightarrow> string option \<Rightarrow> 'w host \<Rightarrow> 'w host" where
  "track_db_handle_filename db filename H =
     (if is_null db then H
      else H\<lparr>db_handle_filenames := hm_insert db (filename_for_registry filename) (db_handle_filenames H)\<rparr>)"

definition untrack_db_handle_filename :: "ptr \<Rightarrow> 'w host \<Rightarrow> 'w host" where
  "untrack_db_handle_filename db H =
     (if is_null db then H else H\<lparr>db_handle_filenames := hm_remove db (db_handle_filenames H)\<rparr>)"

definition lookup_db_handle_filename :: "ptr \<Rightarrow> 'w host \<Rightarrow> string option" where
  "lookup_db_handle_filename db H = (if is_null db then None else hm_get (db_handle_filenames H) db)"

definition contains_subslice :: "string \<Rightarrow> string \<Rightarrow> bool" where
  "contains_subslice haystack needle =
     (if needle = [] \<or> length haystack < length needle then False
      else list_ex (\<lambda>i. take (length needle) (drop i haystack) = needle) [0..<length haystack - length needle + 1])"

text \<open>\<open>cstr_to_str_or_empty\<close>: a null file name is the empty one.\<close>

definition should_redirect :: "string option \<Rightarrow> 'w host \<Rightarrow> bool" where
  "should_redirect filename H = should_redirect_str (env (client H)) (unwrap_or filename []) (passthrough_only H)"

definition redirect_after_staging :: "'w host_lib \<Rightarrow> string option \<Rightarrow> 'w host \<Rightarrow> bool \<times> 'w host" where
  "redirect_after_staging Q filename H =
     (if \<not> should_redirect filename H then (False, H)
      else case load_file_path filename of
             None \<Rightarrow> (True, H)
           | Some load \<Rightarrow>
               (let (ok, S) = stage_before_open (stage_socket Q) load (client H) in (ok, H\<lparr>client := S\<rparr>)))"

definition handle_conn_path_contains :: "ptr \<Rightarrow> string \<Rightarrow> 'w shim \<Rightarrow> bool option" where
  "handle_conn_path_contains conn needle S =
     (if is_null conn then Some False else map_option (\<lambda>c. contains_subslice (conn_path c) needle) (heap S conn))"

text \<open>After SQLite's own open: the handle's file name is noted, and a redirected file is connected.\<close>

definition after_open :: "'w libpq \<Rightarrow> string option \<Rightarrow> bool \<Rightarrow> int \<Rightarrow> ptr \<Rightarrow> 'w host \<Rightarrow> 'w host option" where
  "after_open L filename redirect rc db H =
     do {
       let H = (if \<not> is_null db then track_db_handle_filename db filename H else H);
       if rc = SQLITE_OK \<and> redirect \<and> \<not> is_null db then do {
         (pg_conn, S) \<leftarrow> rust_pg_connect L (unwrap_or filename []) db (client H);
         S \<leftarrow> (if \<not> is_null pg_conn then rust_pg_register_connection pg_conn S else Some S);
         Some (H\<lparr>client := S\<rparr>)
       }
       else Some H
     }"

definition set_world :: "'w \<Rightarrow> 'w host \<Rightarrow> 'w host" where
  "set_world w H = H\<lparr>client := (client H)\<lparr>world := w\<rparr>\<rparr>"

definition call_open :: "'w host_lib \<Rightarrow> string option \<Rightarrow> 'w \<Rightarrow> (int \<times> ptr) \<times> 'w" where
  "call_open Q filename w = (case orig_open Q of None \<Rightarrow> ((SQLITE_ERROR, 0), w) | Some f \<Rightarrow> f filename w)"

definition call_open_v2 :: "'w host_lib \<Rightarrow> string option \<Rightarrow> int \<Rightarrow> string option \<Rightarrow> 'w \<Rightarrow> (int \<times> ptr) \<times> 'w" where
  "call_open_v2 Q filename flags z_vfs w =
     (case orig_open_v2 Q of None \<Rightarrow> ((SQLITE_ERROR, 0), w) | Some f \<Rightarrow> f filename flags z_vfs w)"

definition rust_my_sqlite3_open ::
  "'w host_lib \<Rightarrow> 'w libpq \<Rightarrow> string option \<Rightarrow> bool \<Rightarrow> 'w host \<Rightarrow> (int \<times> ptr \<times> 'w host) option" where
  "rust_my_sqlite3_open Q L filename pp_null H =
     (let (redirect, H) = redirect_after_staging Q filename H;
          ((rc, pp_db), w) = call_open Q filename (world (client H));
          db = opened_db_handle rc pp_null pp_db
      in do { H \<leftarrow> after_open L filename redirect rc db (set_world w H); Some (rc, db, H) })"

definition rust_my_sqlite3_open_v2 ::
  "'w host_lib \<Rightarrow> 'w libpq \<Rightarrow> string option \<Rightarrow> bool \<Rightarrow> int \<Rightarrow> string option \<Rightarrow> 'w host \<Rightarrow> (int \<times> ptr \<times> 'w host) option" where
  "rust_my_sqlite3_open_v2 Q L filename pp_null flags z_vfs H =
     (let (redirect, H) = redirect_after_staging Q filename H;
          ((rc, pp_db), w) = call_open_v2 Q filename flags z_vfs (world (client H));
          db = opened_db_handle rc pp_null pp_db
      in do { H \<leftarrow> after_open L filename redirect rc db (set_world w H); Some (rc, db, H) })"

text \<open>Before SQLite's own close: the handle's connection goes, and what the pool has recorded for it.\<close>

definition before_close :: "'w libpq \<Rightarrow> tid \<Rightarrow> ptr \<Rightarrow> 'w shim \<Rightarrow> 'w shim option" where
  "before_close L t db S =
     (let handle_conn = rust_pg_find_handle_connection db S in
      if is_null handle_conn then Some S
      else do {
        library \<leftarrow> handle_conn_path_contains handle_conn NEEDLE_LIBRARY_DB S;
        S \<leftarrow> (if library then pool_release_for_db_inner L t db S else Some S);
        S \<leftarrow> rust_pg_unregister_connection handle_conn S;
        rust_pg_close L handle_conn S
      })"

definition after_close :: "ptr \<Rightarrow> int \<Rightarrow> 'w host \<Rightarrow> 'w host" where
  "after_close db rc H = (if rc = SQLITE_OK then untrack_db_handle_filename db H else H)"

definition rust_my_sqlite3_close :: "'w host_lib \<Rightarrow> 'w libpq \<Rightarrow> tid \<Rightarrow> ptr \<Rightarrow> 'w host \<Rightarrow> (int \<times> 'w host) option" where
  "rust_my_sqlite3_close Q L t db H =
     do {
       S \<leftarrow> before_close L t db (client H);
       let (rc, w) = (case orig_close Q of None \<Rightarrow> (SQLITE_ERROR, world S) | Some f \<Rightarrow> f db (world S));
       Some (rc, after_close db rc (set_world w (H\<lparr>client := S\<rparr>)))
     }"

definition rust_my_sqlite3_close_v2 :: "'w host_lib \<Rightarrow> 'w libpq \<Rightarrow> tid \<Rightarrow> ptr \<Rightarrow> 'w host \<Rightarrow> (int \<times> 'w host) option" where
  "rust_my_sqlite3_close_v2 Q L t db H =
     do {
       S \<leftarrow> before_close L t db (client H);
       let (rc, w) = (case orig_close_v2 Q of None \<Rightarrow> (SQLITE_ERROR, world S) | Some f \<Rightarrow> f db (world S));
       Some (rc, after_close db rc (set_world w (H\<lparr>client := S\<rparr>)))
     }"

section \<open>The invariant of the process\<close>

text \<open>Every registered connection is there and carries the handle it is registered under.\<close>

definition reg_ok :: "'w shim \<Rightarrow> bool" where
  "reg_ok S \<longleftrightarrow> (\<forall>db p. hm_get (registry (pm S)) db = Some p \<longrightarrow> db \<noteq> 0 \<and> p \<noteq> 0 \<and> map_option shadow_db (heap S p) = Some db)"

definition host_ok :: "(ptr \<Rightarrow> nat) \<Rightarrow> 'w host \<Rightarrow> bool" where
  "host_ok hold H \<longleftrightarrow> pool_ok hold (client H) \<and> reg_ok (client H)"

lemma reg_okD:
  assumes "reg_ok S" "hm_get (registry (pm S)) db = Some p"
  obtains c where "heap S p = Some c" "shadow_db c = db" "p \<noteq> 0" "db \<noteq> 0"
proof -
  have "db \<noteq> 0 \<and> p \<noteq> 0 \<and> map_option shadow_db (heap S p) = Some db" using assms by (simp add: reg_ok_def)
  with that show thesis by (cases "heap S p") auto
qed

lemma reg_count_get: "hm_ok (registry m) \<Longrightarrow> hm_get (registry m) db = Some p \<Longrightarrow> 0 < reg_count m p"
  using hm_values_get [of "registry m" p] count_list_pos [of "hm_values (registry m)" p] by (force simp: reg_count_def)

lemma pool_ok_registry_ok: "pool_ok_but v hold S \<Longrightarrow> hm_ok (registry (pm S))"
  by (simp add: pool_ok_but_def sizes_ok_def)

lemma reg_ok_frame:
  assumes "reg_ok S" "pool_ok hold S" "registry (pm S') = registry (pm S)"
    and "\<And>p. p \<noteq> 0 \<Longrightarrow> 0 < reg_count (pm S) p \<Longrightarrow> heap S' p = heap S p"
  shows "reg_ok S'"
  using assms reg_count_get [OF pool_ok_registry_ok [OF assms(2)]] by (auto simp: reg_ok_def)

lemma reg_ok_world [simp]: "reg_ok (S\<lparr>world := w\<rparr>) = reg_ok S"
  by (simp add: reg_ok_def)

lemma pool_ok_world [simp]: "pool_ok_but v hold (S\<lparr>world := w\<rparr>) = pool_ok_but v hold S"
  by (rule pool_ok_cong) simp_all

lemma host_ok_simps [simp]:
  "client (set_world w H) = (client H)\<lparr>world := w\<rparr>" "db_handle_filenames (set_world w H) = db_handle_filenames H"
  "client (track_db_handle_filename db f H) = client H" "client (untrack_db_handle_filename db H) = client H"
  "client (after_close db rc H) = client H"
  by (simp_all add: set_world_def track_db_handle_filename_def untrack_db_handle_filename_def after_close_def)

text \<open>A redirected open registers one new connection under a handle that had none.\<close>

lemma connect_and_register:
  assumes fresh: "calloc_fresh L" and ok: "pool_ok hold S" and reg: "reg_ok S" and db: "db \<noteq> 0" "hm_get (registry (pm S)) db = None"
  shows "returns (do { (p, S) \<leftarrow> rust_pg_connect L path db S; if \<not> is_null p then rust_pg_register_connection p S else Some S })
    (\<lambda>S'. pool_ok hold S' \<and> reg_ok S' \<and> slots (pm S') = slots (pm S) \<and> db_to_pool (pm S') = db_to_pool (pm S)
      \<and> configured_size (pm S') = configured_size (pm S) \<and> configured_max_size (pm S') = configured_max_size (pm S)
      \<and> init_pid (pm S') = init_pid (pm S) \<and> env S' = env S
      \<and> (\<forall>q. heap S q \<noteq> None \<longrightarrow> heap S' q = heap S q)
      \<and> (\<forall>q. hm_get (registry (pm S')) db = Some q \<longrightarrow> heap S q = None)
      \<and> (\<forall>q. hm_get (registry (pm S')) db \<noteq> Some q \<longrightarrow> heap S' q = heap S q)
      \<and> (\<forall>d. d \<noteq> db \<longrightarrow> hm_get (registry (pm S')) d = hm_get (registry (pm S)) d))"
proof -
  obtain p S1 where S1: "rust_pg_connect L path db S = Some (p, S1)" "created p S S1"
    "p = 0 \<or> (\<exists>c. heap S1 p = Some c \<and> shadow_db c = db \<and> conn_path c = cbuf DB_PATH_LEN path)"
    using returnsD [OF rust_pg_connect_spec [OF fresh pool_ok_null [OF ok], of path db]] by auto
  have same: "pool_same S S1" using S1(2) by (simp add: created_def)
  note pm = pool_same_pm [OF same]
  have env: "env S1 = env S" using same by (simp add: pool_same_def)
  have heap: "heap S1 q = heap S q" if "heap S q \<noteq> None" for q using S1(2) that by (auto simp: created_def split: if_splits)
  have other: "heap S1 q = heap S q" if "p = 0 \<or> q \<noteq> p" for q using S1(2) that by (auto simp: created_def split: if_splits)
  have new: "heap S p = None" if "p \<noteq> 0" using S1(2) that by (auto simp: created_def)
  have reg1: "reg_ok S1"
    using reg pm heap by (simp add: reg_ok_def) (metis option.map_disc_iff option.distinct(1))
  note w = working_created [OF ok S1(2)]
  show ?thesis
  proof (cases "p = 0")
    case True
    then show ?thesis using S1 w pm env heap reg1 other db by simp
  next
    case False
    then obtain c where c: "heap S1 p = Some c" "shadow_db c = db" using S1(3) by blast
    let ?S = "S1\<lparr>pm := register db p (pm S1)\<rparr>"
    have "pool_ok hold ?S" using w False db(2) pm by (intro pool_ok_register) simp_all
    moreover have "reg_ok ?S" using reg1 c db False by (auto simp: reg_ok_def register_def)
    ultimately show ?thesis
      using S1(1) c db False pm env heap other new by (simp add: rust_pg_register_connection_def register_def)
  qed
qed

lemma stage_before_open_client:
  "\<exists>w. snd (stage_before_open f path S) = S\<lparr>world := w\<rparr>"
proof -
  have "\<exists>w. S = S\<lparr>world := w\<rparr>" by (rule exI [of _ "world S"]) simp
  then show ?thesis by (auto simp: stage_before_open_def Let_def split: option.splits prod.splits sum.splits)
qed

lemma redirect_client:
  "\<exists>w. snd (redirect_after_staging Q f H) = H\<lparr>client := (client H)\<lparr>world := w\<rparr>\<rparr>"
proof -
  have same: "\<exists>w. H = H\<lparr>client := (client H)\<lparr>world := w\<rparr>\<rparr>" by (rule exI [of _ "world (client H)"]) simp
  have "\<exists>w. snd (let (ok, S) = stage_before_open (stage_socket Q) load (client H) in (ok, H\<lparr>client := S\<rparr>))
    = H\<lparr>client := (client H)\<lparr>world := w\<rparr>\<rparr>" for load
    using stage_before_open_client [of "stage_socket Q" load "client H"] by (auto simp: split_beta)
  with same show ?thesis by (simp add: redirect_after_staging_def split: option.splits)
qed

section \<open>What one thread's call leaves to the others\<close>

text \<open>
  What another thread has recorded for another handle is still its own after the call: its
  slot, its connection, and the record.
\<close>

definition undisturbed :: "tid \<Rightarrow> ptr \<Rightarrow> 'w shim \<Rightarrow> 'w shim \<Rightarrow> bool" where
  "undisturbed t db S S' \<longleftrightarrow> (\<forall>u d q. u \<noteq> t \<longrightarrow> d \<noteq> db \<longrightarrow> recorded u d q S \<longrightarrow> recorded u d q S')"

lemma undisturbed_refl [simp]: "undisturbed t db S S"
  by (simp add: undisturbed_def)

lemma undisturbed_trans: "undisturbed t db S S' \<Longrightarrow> undisturbed t db S' S'' \<Longrightarrow> undisturbed t db S S''"
  by (simp add: undisturbed_def)

lemma undisturbedI:
  assumes ok: "pool_ok hold S" and size: "pool_size (pm S) \<le> pool_size (pm S')"
    and map: "\<And>d. d \<noteq> db \<Longrightarrow> hm_get (db_to_pool (pm S')) d = hm_get (db_to_pool (pm S)) d"
    and slot: "\<And>j. j < length (slots (pm S)) \<Longrightarrow> in_use t S j \<Longrightarrow>
      slot_at S' j = slot_at S j \<and> heap S' (slot_conn (slot_at S j)) = heap S (slot_conn (slot_at S j))"
  shows "undisturbed t db S S'"
  unfolding undisturbed_def
proof (intro allI impI)
  fix u d q assume "u \<noteq> t" "d \<noteq> db" "recorded u d q S"
  then obtain i where i: "i < pool_size (pm S)" "slot_conn (slot_at S i) = q" "q \<noteq> 0" "slot_state (slot_at S i) = SLOT_READY"
    "owner_thread (slot_at S i) = u" "active S q" "hm_get (db_to_pool (pm S)) d = Some i" by (auto simp: recorded_def)
  have "sizes_ok (pm S)" using ok by (simp add: pool_ok_but_def)
  then have "hm_ok (db_to_pool (pm S))" by (simp add: sizes_ok_def)
  from hm_values_get [OF this, of i] i(7) have ref: "i \<in> set (hm_values (db_to_pool (pm S)))" by blast
  have "i < length (slots (pm S))" using i(1) pool_size_le [OF ok] by simp
  moreover from ref have "slot_is_referenced (pm S) i" by (simp add: slot_is_referenced_def references_def filter_empty_conv)
  ultimately have "slot_at S' i = slot_at S i" "heap S' q = heap S q"
    using slot [of i] i \<open>u \<noteq> t\<close> by (auto simp: in_use_def protected_def)
  then show "recorded u d q S'" using i size map [OF \<open>d \<noteq> db\<close>] by (auto simp: recorded_def active_def)
qed

lemma lookup_undisturbed: "pool_ok hold S \<Longrightarrow> lookup_rel t db S S' \<Longrightarrow> undisturbed t db S S'"
  by (rule undisturbedI) (auto simp: lookup_rel_def pool_size_def pool_max_def)

lemma lookup_reg_ok: "reg_ok S \<Longrightarrow> pool_ok hold S \<Longrightarrow> lookup_rel t db S S' \<Longrightarrow> reg_ok S'"
  by (erule reg_ok_frame, assumption) (auto simp: lookup_rel_def)

lemma phase_undisturbed: "pool_ok hold S \<Longrightarrow> phase_rel t (unassigned db S) S' \<Longrightarrow> undisturbed t db S S'"
  by (rule undisturbedI) (auto simp: phase_rel_def pool_size_def pool_max_def in_use_def unassigned_def frame_simps)

lemma phase_reg_ok: "reg_ok S \<Longrightarrow> pool_ok hold S \<Longrightarrow> phase_rel t (unassigned db S) S' \<Longrightarrow> reg_ok S'"
  by (erule reg_ok_frame, assumption) (auto simp: phase_rel_def unassigned_def frame_simps reg_count_def)

text \<open>A change to what is in no slot disturbs nobody.\<close>

lemma outside_undisturbed:
  assumes "pool_ok hold S" "slots (pm S') = slots (pm S)" "db_to_pool (pm S') = db_to_pool (pm S)"
    and "configured_size (pm S') = configured_size (pm S)" "configured_max_size (pm S') = configured_max_size (pm S)"
    and "\<And>j. j < length (slots (pm S)) \<Longrightarrow> slot_conn (slot_at S j) \<noteq> 0 \<Longrightarrow>
      heap S' (slot_conn (slot_at S j)) = heap S (slot_conn (slot_at S j))"
  shows "undisturbed t db S S'"
proof (rule undisturbedI [OF assms(1)])
  fix j assume j: "j < length (slots (pm S))" and "in_use t S j"
  then have "slot_ok S (slot_at S j)" "slot_state (slot_at S j) = SLOT_READY"
    using assms(1) by (auto simp: pool_ok_but_def in_use_def protected_def)
  then have "slot_conn (slot_at S j) \<noteq> 0" by (simp add: slot_ok_def)
  then show "slot_at S' j = slot_at S j \<and> heap S' (slot_conn (slot_at S j)) = heap S (slot_conn (slot_at S j))"
    using assms(2,6) j by simp
qed (use assms in \<open>simp_all add: pool_size_def pool_max_def\<close>)

section \<open>Closing a handle\<close>

lemma mem_ok_allocated: "mem_ok R S \<Longrightarrow> heap S p = Some c \<Longrightarrow> 0 < R p"
  unfolding mem_ok_def by (drule conjunct2, drule spec [of _ p]) simp

text \<open>Taking the handle's connection off the registry and closing it.\<close>

lemma unregister_and_close:
  assumes ok: "pool_ok hold S" and reg: "reg_ok S" and p: "hm_get (registry (pm S)) db = Some p"
  shows "returns (do { S \<leftarrow> rust_pg_unregister_connection p S; rust_pg_close L p S })
    (\<lambda>S'. pool_ok hold S' \<and> reg_ok S' \<and> undisturbed t db S S' \<and> slots (pm S') = slots (pm S)
      \<and> db_to_pool (pm S') = db_to_pool (pm S) \<and> registry (pm S') = hm_remove db (registry (pm S))
      \<and> init_pid (pm S') = init_pid (pm S) \<and> env S' = env S \<and> (\<forall>q. q \<noteq> p \<longrightarrow> heap S' q = heap S q)
      \<and> (hold p = 0 \<longrightarrow> heap S' p = None))"
proof -
  obtain c where c: "heap S p = Some c" "shadow_db c = db" "p \<noteq> 0" "db \<noteq> 0" by (rule reg_okD [OF reg p])
  let ?U = "S\<lparr>pm := unregister db (pm S)\<rparr>"
  have "pool_ok (hold(p := Suc (hold p))) ?U" by (rule pool_ok_unregister [OF ok p c(3)])
  from returnsD [OF close_handle_pool [OF this c(3), of L]]
  obtain S' where S': "close_handle_connection L p ?U = Some S'" "pool_ok hold S'" "pool_same ?U S'"
    "\<forall>q. q \<noteq> p \<longrightarrow> heap S' q = heap S q" by auto
  have pm: "slots (pm S') = slots (pm S)" "registry (pm S') = hm_remove db (registry (pm S))" "db_to_pool (pm S') = db_to_pool (pm S)"
    "configured_size (pm S') = configured_size (pm S)" "configured_max_size (pm S') = configured_max_size (pm S)"
    "init_pid (pm S') = init_pid (pm S)" "env S' = env S"
    using pool_same_pm [OF S'(3)] S'(3) by (simp_all add: unregister_def pool_same_def)
  have other: "q \<noteq> p" if "hm_get (registry (pm S)) d = Some q" "d \<noteq> db" for d q
    using reg_okD [OF reg that(1)] c(1,2) that(2) by (metis option.inject)
  have "reg_ok S'"
    using reg pm S'(4) other by (auto simp: reg_ok_def split: if_splits)
  moreover have rc: "0 < reg_count (pm S) p" by (rule reg_count_get [OF pool_ok_registry_ok [OF ok] p])
  have apart: "apart (pm S)" using ok by (simp add: pool_ok_but_def)
  have "slot_conn (slot_at S j) \<noteq> p" if "j < length (slots (pm S))" for j
    using apart_slot [OF apart that] rc c(3) by auto
  then have "undisturbed t db S S'" using outside_undisturbed [OF ok pm(1,3,4,5)] S'(4) by blast
  moreover have "heap S' p = None" if "hold p = 0"
  proof -
    have "p \<notin> set (hm_values (hm_remove db (registry (pm S))))"
      using other hm_values_get [of "hm_remove db (registry (pm S))" p] pool_ok_registry_ok [OF ok]
      by (auto split: if_splits)
    then have "refs hold (pm S') p = 0"
      using that apart_registered [OF apart rc c(3)] pm by (simp add: refs_def slot_count_def reg_count_def)
    moreover have "mem_ok (refs hold (pm S')) S'" using S'(2) by (simp add: pool_ok_but_def)
    ultimately show ?thesis by (cases "heap S' p") (auto dest: mem_ok_allocated)
  qed
  ultimately show ?thesis using S' pm c by (simp add: rust_pg_unregister_connection_def rust_pg_close_def)
qed

text \<open>What a call by \<open>t\<close> on the handle \<open>db\<close> keeps of the process.\<close>

definition host_rel :: "(ptr \<Rightarrow> nat) \<Rightarrow> tid \<Rightarrow> ptr \<Rightarrow> 'w shim \<Rightarrow> 'w shim \<Rightarrow> bool" where
  "host_rel hold t db S S' \<longleftrightarrow> pool_ok hold S' \<and> reg_ok S' \<and> undisturbed t db S S' \<and> init_pid (pm S') = init_pid (pm S)
     \<and> env S' = env S \<and> (\<forall>d. d \<noteq> db \<longrightarrow> hm_get (registry (pm S')) d = hm_get (registry (pm S)) d)"

lemma host_rel_trans: "host_rel hold' t db S S' \<Longrightarrow> host_rel hold t db S' S'' \<Longrightarrow> host_rel hold t db S S''"
  by (auto simp: host_rel_def elim: undisturbed_trans)

lemma host_rel_refl: "pool_ok hold S \<Longrightarrow> reg_ok S \<Longrightarrow> host_rel hold t db S S"
  by (simp add: host_rel_def)

lemma undisturbed_world [simp]: "undisturbed t db S (S'\<lparr>world := w\<rparr>) = undisturbed t db S S'"
  "undisturbed t db (S\<lparr>world := w\<rparr>) S' = undisturbed t db S S'"
  by (simp_all add: undisturbed_def recorded_def active_def)

lemma host_rel_world [simp]: "host_rel hold t db S (S'\<lparr>world := w\<rparr>) = host_rel hold t db S S'"
  "host_rel hold t db (S\<lparr>world := w\<rparr>) S' = host_rel hold t db S S'"
  by (simp_all add: host_rel_def)

lemma before_close_spec:
  assumes ok: "pool_ok hold S" and reg: "reg_ok S"
  shows "returns (before_close L t db S) (\<lambda>S'. host_rel hold t db S S' \<and> hm_get (registry (pm S')) db = None
    \<and> (hm_get (db_to_pool (pm S)) db = None \<longrightarrow> slots (pm S') = slots (pm S)
        \<and> (\<forall>d. hm_get (db_to_pool (pm S')) d = hm_get (db_to_pool (pm S)) d)
        \<and> (\<forall>q. hm_get (registry (pm S)) db \<noteq> Some q \<longrightarrow> heap S' q = heap S q))
    \<and> (case hm_get (registry (pm S)) db of None \<Rightarrow> S' = S
       | Some p \<Rightarrow> (hold p = 0 \<longrightarrow> heap S' p = None)
           \<and> (handle_conn_path_contains p NEEDLE_LIBRARY_DB S = Some True \<longrightarrow> hm_get (db_to_pool (pm S')) db = None)))"
proof (cases "hm_get (registry (pm S)) db")
  case None
  then have "rust_pg_find_handle_connection db S = 0"
    by (simp add: rust_pg_find_handle_connection_def rust_find_registered_connection_def unwrap_or_def)
  then show ?thesis using None host_rel_refl [OF ok reg] by (simp add: before_close_def)
next
  case (Some p)
  then obtain c where c: "heap S p = Some c" "shadow_db c = db" "p \<noteq> 0" "db \<noteq> 0" by (rule reg_okD [OF reg])
  define lib where "lib = contains_subslice (conn_path c) NEEDLE_LIBRARY_DB"
  have path: "handle_conn_path_contains p NEEDLE_LIBRARY_DB S = Some lib"
    using c by (simp add: handle_conn_path_contains_def lib_def)
  have first: "returns (if lib then pool_release_for_db_inner L t db S else Some S)
    (\<lambda>S1. host_rel hold t db S S1 \<and> registry (pm S1) = registry (pm S) \<and> (lib \<longrightarrow> hm_get (db_to_pool (pm S1)) db = None)
      \<and> (hm_get (db_to_pool (pm S)) db = None \<longrightarrow> slots (pm S1) = slots (pm S) \<and> heap S1 = heap S
          \<and> (\<forall>d. hm_get (db_to_pool (pm S1)) d = hm_get (db_to_pool (pm S)) d)))"
  proof (cases lib)
    case True
    have rel: "host_rel hold t db S S1 \<and> registry (pm S1) = registry (pm S)
        \<and> (\<forall>d. hm_get (db_to_pool (pm S1)) d = (if d = db then None else hm_get (db_to_pool (pm S)) d))"
      if s1: "pool_ok hold S1" "phase_rel t (unassigned db S) S1" for S1
    proof -
      have "registry (pm S1) = registry (pm S)" "init_pid (pm S1) = init_pid (pm S)" "env S1 = env S"
        "db_to_pool (pm S1) = hm_remove db (db_to_pool (pm S))"
        using s1(2) by (simp_all add: phase_rel_def unassigned_def frame_simps)
      then show ?thesis using s1 phase_undisturbed [OF ok s1(2)] phase_reg_ok [OF reg ok s1(2)] by (auto simp: host_rel_def)
    qed
    show ?thesis using True
      by (simp, intro returns_weaken [OF release_spec [OF ok]]) (auto dest!: rel split: option.splits)
  next
    case False
    then show ?thesis using host_rel_refl [OF ok reg] by simp
  qed
  have last: "returns (do { S2 \<leftarrow> rust_pg_unregister_connection p S1; rust_pg_close L p S2 })
    (\<lambda>S'. host_rel hold t db S1 S' \<and> hm_get (registry (pm S')) db = None \<and> slots (pm S') = slots (pm S1)
      \<and> db_to_pool (pm S') = db_to_pool (pm S1) \<and> (\<forall>q. q \<noteq> p \<longrightarrow> heap S' q = heap S1 q) \<and> (hold p = 0 \<longrightarrow> heap S' p = None))"
    if "host_rel hold t db S S1" "registry (pm S1) = registry (pm S)" for S1
    using that Some
    by (intro returns_weaken [OF unregister_and_close [where hold = hold and db = db and t = t]]) (auto simp: host_rel_def)
  have "before_close L t db S = do {
      S1 \<leftarrow> (if lib then pool_release_for_db_inner L t db S else Some S);
      do { S2 \<leftarrow> rust_pg_unregister_connection p S1; rust_pg_close L p S2 } }"
    using Some c path by (simp add: before_close_def rust_pg_find_handle_connection_def rust_find_registered_connection_def unwrap_or_def)
  then show ?thesis
    using Some path
    by (simp only:, subst returns_bind, intro returns_weaken [OF first], elim conjE, intro returns_weaken [OF last])
      (auto elim: host_rel_trans)
qed

section \<open>Opening a handle\<close>

text \<open>The handle is new to the shim, as SQLite's handles of open databases are distinct.\<close>

definition handle_free :: "'w shim \<Rightarrow> ptr \<Rightarrow> bool" where
  "handle_free S db \<longleftrightarrow> hm_get (registry (pm S)) db = None \<and> hm_get (db_to_pool (pm S)) db = None"

lemma handle_free_world [simp]: "handle_free (S\<lparr>world := w\<rparr>) db = handle_free S db"
  by (simp add: handle_free_def)

text \<open>What an open has done: nothing but a new connection registered under the handle.\<close>

definition opened_as :: "(ptr \<Rightarrow> nat) \<Rightarrow> ptr \<Rightarrow> 'w shim \<Rightarrow> 'w shim \<Rightarrow> bool" where
  "opened_as hold db S S' \<longleftrightarrow> pool_ok hold S' \<and> reg_ok S' \<and> (\<forall>t. host_rel hold t db S S') \<and> (\<forall>t d. undisturbed t d S S')
     \<and> slots (pm S') = slots (pm S) \<and> db_to_pool (pm S') = db_to_pool (pm S)
     \<and> (\<forall>q. hm_get (registry (pm S')) db = Some q \<longrightarrow> heap S q = None \<and> hold q = 0)
     \<and> (\<forall>q. hm_get (registry (pm S')) db \<noteq> Some q \<longrightarrow> heap S' q = heap S q)"

lemma opened_as_world [simp]: "opened_as hold db (S\<lparr>world := w\<rparr>) S' = opened_as hold db S S'"
  by (simp add: opened_as_def)

lemma opened_as_refl: "pool_ok hold S \<Longrightarrow> reg_ok S \<Longrightarrow> hm_get (registry (pm S)) db = None \<Longrightarrow> opened_as hold db S S"
  by (simp add: opened_as_def host_rel_refl)

lemma pool_ok_unallocated:
  assumes "pool_ok_but v hold S" "heap S p = None" "p \<noteq> 0"
  shows "hold p = 0"
proof -
  have "mem_ok (refs hold (pm S)) S" using assms(1) by (simp add: pool_ok_but_def)
  then have "\<not> 0 < refs hold (pm S) p" using assms(2) by (auto dest: mem_okD)
  then show ?thesis using assms(3) by (simp add: refs_def)
qed

lemma slot_allocated:
  assumes "pool_ok_but v hold S" "j < length (slots (pm S))" "slot_conn (slot_at S j) \<noteq> 0"
  shows "heap S (slot_conn (slot_at S j)) \<noteq> None"
proof -
  have "mem_ok (refs hold (pm S)) S" using assms(1) by (simp add: pool_ok_but_def)
  moreover have "0 < refs hold (pm S) (slot_conn (slot_at S j))"
    using slot_count_at [OF assms(2)] assms(3) by (simp add: refs_def)
  ultimately show ?thesis by (auto dest: mem_okD)
qed

lemma after_open_spec:
  fixes L :: "'w libpq"
  assumes fresh: "calloc_fresh L" and ok: "pool_ok hold (client H)" and reg: "reg_ok (client H)"
    and free: "db = 0 \<or> hm_get (registry (pm (client H))) db = None"
  shows "returns (after_open L f redirect rc db H) (\<lambda>H'. opened_as hold db (client H) (client H'))"
proof (cases "rc = SQLITE_OK \<and> redirect \<and> \<not> is_null db")
  case True
  let ?S = "client H"
  have db: "db \<noteq> 0" "hm_get (registry (pm ?S)) db = None" using True free by auto
  have "returns (do { (p, S) \<leftarrow> rust_pg_connect L (unwrap_or f []) db ?S; if \<not> is_null p then rust_pg_register_connection p S else Some S })
    (opened_as hold db ?S)"
  proof (rule returns_weaken [OF connect_and_register [OF fresh ok reg db]], elim conjE)
    fix S' :: "'w shim"
    assume S': "pool_ok hold S'" "reg_ok S'" "slots (pm S') = slots (pm ?S)" "db_to_pool (pm S') = db_to_pool (pm ?S)"
      "configured_size (pm S') = configured_size (pm ?S)" "configured_max_size (pm S') = configured_max_size (pm ?S)"
      "init_pid (pm S') = init_pid (pm ?S)" "env S' = env ?S" "\<forall>q. heap ?S q \<noteq> None \<longrightarrow> heap S' q = heap ?S q"
      and new: "\<forall>q. hm_get (registry (pm S')) db = Some q \<longrightarrow> heap ?S q = None"
      and old: "\<forall>q. hm_get (registry (pm S')) db \<noteq> Some q \<longrightarrow> heap S' q = heap ?S q"
        "\<forall>d. d \<noteq> db \<longrightarrow> hm_get (registry (pm S')) d = hm_get (registry (pm ?S)) d"
    have "undisturbed t d ?S S'" for t d
      using outside_undisturbed [OF ok S'(3,4,5,6)] slot_allocated [OF ok] S'(9) by blast
    moreover have "hold q = 0" if q: "hm_get (registry (pm S')) db = Some q" for q
    proof -
      have "q \<noteq> 0" using reg_okD [OF S'(2) q] by blast
      then show ?thesis using pool_ok_unallocated [OF ok] new q by blast
    qed
    ultimately show "opened_as hold db ?S S'" using S' new old by (simp add: opened_as_def host_rel_def)
  qed
  with True show ?thesis
    by (simp add: after_open_def returns_bind) (erule returns_weaken, auto elim!: returns_weaken split: prod.splits)
next
  case False
  then have "after_open L f redirect rc db H = Some (if is_null db then H else track_db_handle_filename db f H)"
    by (auto simp: after_open_def)
  moreover have "hm_get (registry (pm (client H))) db = None"
    using free reg_okD [OF reg] by (cases "hm_get (registry (pm (client H))) db") (blast, auto elim: reg_okD [OF reg])
  from opened_as_refl [OF ok reg this] calculation show ?thesis by (cases "db = 0") simp_all
qed

lemma opened_after_staging:
  assumes "calloc_fresh L" "host_ok hold H" "hm_get (registry (pm (client H))) pp = None"
  shows "returns (after_open L f r rc (opened_db_handle rc pp_null pp) (set_world w (snd (redirect_after_staging Q f H))))
    (\<lambda>H'. host_ok hold H' \<and> opened_as hold (opened_db_handle rc pp_null pp) (client H) (client H'))"
proof -
  obtain w0 where H1: "snd (redirect_after_staging Q f H) = H\<lparr>client := (client H)\<lparr>world := w0\<rparr>\<rparr>"
    using redirect_client [of Q f H] by (elim exE)
  show ?thesis
    unfolding H1 using assms
    by (intro returns_weaken [OF after_open_spec [of L hold]]) (auto simp: host_ok_def opened_db_handle_def opened_as_def)
qed

lemma open_spec:
  assumes "calloc_fresh L" "host_ok hold H" "\<And>w. hm_get (registry (pm (client H))) (snd (fst (call_open Q f w))) = None"
  shows "returns (rust_my_sqlite3_open Q L f pp_null H) (\<lambda>(rc, db, H'). host_ok hold H' \<and> opened_as hold db (client H) (client H'))"
  unfolding rust_my_sqlite3_open_def split_beta Let_def returns_bind
  by (rule returns_weaken [OF opened_after_staging [OF assms(1,2,3)]]) simp

lemma open_v2_spec:
  assumes "calloc_fresh L" "host_ok hold H" "\<And>w. hm_get (registry (pm (client H))) (snd (fst (call_open_v2 Q f flags vfs w))) = None"
  shows "returns (rust_my_sqlite3_open_v2 Q L f pp_null flags vfs H)
    (\<lambda>(rc, db, H'). host_ok hold H' \<and> opened_as hold db (client H) (client H'))"
  unfolding rust_my_sqlite3_open_v2_def split_beta Let_def returns_bind
  by (rule returns_weaken [OF opened_after_staging [OF assms(1,2,3)]]) simp

section \<open>Handles come and go\<close>

text \<open>The part both closes share.\<close>

definition close_result :: "(ptr \<Rightarrow> nat) \<Rightarrow> tid \<Rightarrow> ptr \<Rightarrow> int \<Rightarrow> 'w host \<Rightarrow> 'w host \<Rightarrow> bool" where
  "close_result hold t db rc H H' \<longleftrightarrow> host_ok hold H' \<and> undisturbed t db (client H) (client H')
     \<and> (\<forall>d. hm_get (registry (pm (client H'))) d = (if d = db then None else hm_get (registry (pm (client H))) d))
     \<and> (case hm_get (registry (pm (client H))) db of
          None \<Rightarrow> heap (client H') = heap (client H)
        | Some p \<Rightarrow> (heap (client H') p = None) = (hold p = 0))
     \<and> hm_get (db_handle_filenames H') db = (if rc = SQLITE_OK \<and> db \<noteq> 0 then None else hm_get (db_handle_filenames H) db)"

lemma held_allocated:
  assumes "pool_ok_but v hold S" "hold p \<noteq> 0" "p \<noteq> 0"
  shows "heap S p \<noteq> None"
proof -
  have "mem_ok (refs hold (pm S)) S" using assms(1) by (simp add: pool_ok_but_def)
  moreover have "0 < refs hold (pm S) p" using assms(2,3) by (simp add: refs_def)
  ultimately show ?thesis by (auto dest: mem_okD)
qed

lemma close_spec:
  assumes "host_ok hold H" "close \<in> {rust_my_sqlite3_close Q L, rust_my_sqlite3_close_v2 Q L}"
  shows "returns (close t db H) (\<lambda>(rc, H'). close_result hold t db rc H H'
    \<and> (hm_get (db_to_pool (pm (client H))) db = None \<longrightarrow>
        slots (pm (client H')) = slots (pm (client H))
        \<and> (\<forall>d. hm_get (db_to_pool (pm (client H'))) d = hm_get (db_to_pool (pm (client H))) d)
        \<and> (\<forall>q. hm_get (registry (pm (client H))) db \<noteq> Some q \<longrightarrow> heap (client H') q = heap (client H) q)))"
proof -
  have ok: "pool_ok hold (client H)" "reg_ok (client H)" using assms(1) by (simp_all add: host_ok_def)
  obtain S' where S': "before_close L t db (client H) = Some S'" "host_rel hold t db (client H) S'" "hm_get (registry (pm S')) db = None"
    "hm_get (db_to_pool (pm (client H))) db = None \<longrightarrow> slots (pm S') = slots (pm (client H))
        \<and> (\<forall>d. hm_get (db_to_pool (pm S')) d = hm_get (db_to_pool (pm (client H))) d)
        \<and> (\<forall>q. hm_get (registry (pm (client H))) db \<noteq> Some q \<longrightarrow> heap S' q = heap (client H) q)"
    "case hm_get (registry (pm (client H))) db of None \<Rightarrow> S' = client H | Some p \<Rightarrow> (hold p = 0 \<longrightarrow> heap S' p = None)
       \<and> (handle_conn_path_contains p NEEDLE_LIBRARY_DB (client H) = Some True \<longrightarrow> hm_get (db_to_pool (pm S')) db = None)"
    using returnsD [OF before_close_spec [OF ok]] by blast
  have "(heap S' p = None) = (hold p = 0)" if p: "hm_get (registry (pm (client H))) db = Some p" for p
  proof -
    have "p \<noteq> 0" by (rule reg_okD [OF ok(2) p])
    then show ?thesis using S'(2,5) p held_allocated [of None hold S' p] by (cases "hold p = 0") (auto simp: host_rel_def)
  qed
  then have res: "close_result hold t db rc H (after_close db rc (set_world w (H\<lparr>client := S'\<rparr>)))" for rc w
    using S'(2,3,5)
    by (auto simp: close_result_def host_ok_def host_rel_def after_close_def untrack_db_handle_filename_def set_world_def split: option.splits)
  show ?thesis
    using assms(2) S'(1,4) res
    by (auto simp: rust_my_sqlite3_close_def rust_my_sqlite3_close_v2_def Let_def handle_free_def split: prod.splits option.splits)
qed

text \<open>
  C13. Closing a handle always returns and keeps the process sound, whichever close the host
  calls and whatever SQLite answers. The handle's registration is gone and every other one
  is as it was; its connection is freed exactly if no statement still holds it; and what
  other threads have recorded for other handles stays theirs.
\<close>

theorem close_takes_back:
  assumes "host_ok hold H" and "close \<in> {rust_my_sqlite3_close Q L, rust_my_sqlite3_close_v2 Q L}"
  shows "\<exists>rc H'. close t db H = Some (rc, H') \<and> close_result hold t db rc H H'"
  using returnsD [OF close_spec [OF assms, of t db]] by auto

text \<open>A process with one library handle, whose SQLite refuses to close it.\<close>

definition host_with :: "'w shim \<Rightarrow> 'w host" where
  "host_with S = \<lparr>client = S, db_handle_filenames = [(21, ''/x/com.plexapp.plugins.library.db'')], passthrough_only = False\<rparr>"

definition SQLITE_BUSY :: int where "SQLITE_BUSY = 5"

definition busy_lib :: "nat host_lib" where
  "busy_lib = \<lparr>orig_open = Some (\<lambda>_ w. ((0, 30 + w), w)), orig_open_v2 = Some (\<lambda>_ _ _ w. ((0, 30 + w), w)),
     orig_close = Some (\<lambda>_ w. (SQLITE_BUSY, w)), orig_close_v2 = Some (\<lambda>_ w. (SQLITE_OK, w)), stage_socket = \<lambda>_ _ w. (Inr ''OK'', w)\<rparr>"

lemma host_ok_looked_up: "host_ok (\<lambda>_. 0) (host_with (looked_up w))"
  by (simp add: host_ok_def host_with_def pool_ok_looked_up reg_ok_def hm_get_def library_conn_def)

theorem close_takes_back_witness:
  "\<exists>rc H'. rust_my_sqlite3_close busy_lib (quiet_pq id Suc) 4 21 (host_with (looked_up 7)) = Some (rc, H')
    \<and> hm_get (registry (pm (client H'))) 21 = None \<and> heap (client H') 5 = None"
  using close_takes_back [OF host_ok_looked_up [of 7], of "rust_my_sqlite3_close busy_lib (quiet_pq id Suc)" busy_lib "quiet_pq id Suc" 4 21]
  by (auto simp: close_result_def host_with_def hm_get_def)

text \<open>
  SQLite refuses to close a database that has unfinished statements. The handle stays open
  then, and its file name stays noted, but the shim has already closed its connection:
  whatever the host does next with the handle reads the empty shadow file.
\<close>

lemma busy_close_loses_connection:
  "\<exists>H'. rust_my_sqlite3_close busy_lib (quiet_pq id Suc) 4 21 (host_with (looked_up 7)) = Some (SQLITE_BUSY, H')
    \<and> hm_get (db_handle_filenames H') 21 \<noteq> None \<and> rust_find_registered_connection 21 (client H') = 0"
proof -
  obtain S where S: "before_close (quiet_pq id Suc) 4 21 (looked_up 7) = Some S" "hm_get (registry (pm S)) 21 = None"
    using returnsD [OF before_close_spec [where hold = "\<lambda>_. 0" and S = "looked_up 7" and L = "quiet_pq id Suc" and t = 4 and db = 21]]
      host_ok_looked_up [of 7] by (auto simp: host_ok_def host_with_def)
  then show ?thesis
    by (auto simp: rust_my_sqlite3_close_def busy_lib_def host_with_def after_close_def SQLITE_OK_def SQLITE_BUSY_def set_world_def
        hm_get_def rust_find_registered_connection_def unwrap_or_def)
qed

text \<open>
  C12. Opening a database and closing it again leaves no trace: whatever SQLite and the
  PostgreSQL server answer, both calls return and keep the process sound, and in the end
  every allocation, every registration, every slot of the pool and every record of a slot is
  what it was before the open.
\<close>

theorem open_close_restores:
  assumes "calloc_fresh L" and "host_ok hold H"
    and "\<forall>w. handle_free (client H) (snd (fst (call_open_v2 Q f flags vfs w)))" and "handle_free (client H) 0"
  shows "\<exists>rc db H1 rc' H2. rust_my_sqlite3_open_v2 Q L f pp_null flags vfs H = Some (rc, db, H1) \<and> host_ok hold H1
    \<and> rust_my_sqlite3_close_v2 Q L t db H1 = Some (rc', H2) \<and> host_ok hold H2
    \<and> heap (client H2) = heap (client H) \<and> slots (pm (client H2)) = slots (pm (client H))
    \<and> hm_get (registry (pm (client H2))) = hm_get (registry (pm (client H)))
    \<and> hm_get (db_to_pool (pm (client H2))) = hm_get (db_to_pool (pm (client H)))"
proof -
  let ?S = "client H"
  have free: "hm_get (registry (pm ?S)) (snd (fst (call_open_v2 Q f flags vfs w))) = None" for w
    using assms(3) by (simp add: handle_free_def)
  obtain rc db H1 where H1: "rust_my_sqlite3_open_v2 Q L f pp_null flags vfs H = Some (rc, db, H1)" "host_ok hold H1"
    "opened_as hold db ?S (client H1)"
    using returnsD [OF open_v2_spec [OF assms(1,2) free, of pp_null]] by auto
  have db: "handle_free ?S db"
    using H1(1) assms(3,4) 
    by (auto simp: rust_my_sqlite3_open_v2_def opened_db_handle_def split_beta Let_def split: bind_splits if_splits)
  have rec: "hm_get (db_to_pool (pm (client H1))) db = None" using H1(3) db by (simp add: opened_as_def handle_free_def)
  obtain rc' H2 where H2: "rust_my_sqlite3_close_v2 Q L t db H1 = Some (rc', H2)" "close_result hold t db rc' H1 H2"
    "slots (pm (client H2)) = slots (pm (client H1))"
    "\<And>d. hm_get (db_to_pool (pm (client H2))) d = hm_get (db_to_pool (pm (client H1))) d"
    "\<And>q. hm_get (registry (pm (client H1))) db \<noteq> Some q \<Longrightarrow> heap (client H2) q = heap (client H1) q"
    using returnsD [OF close_spec [OF H1(2), of "rust_my_sqlite3_close_v2 Q L" Q L t db]] rec by auto
  have "heap (client H2) q = heap ?S q" for q
  proof (cases "hm_get (registry (pm (client H1))) db = Some q")
    case True
    then show ?thesis using H1(3) H2(2) by (auto simp: opened_as_def close_result_def)
  next
    case False
    then show ?thesis using H1(3) H2(5) by (simp add: opened_as_def)
  qed
  moreover have "hm_get (registry (pm (client H2))) d = hm_get (registry (pm ?S)) d" for d
    using H1(3) H2(2) db by (simp add: opened_as_def host_rel_def close_result_def handle_free_def)
  ultimately show ?thesis using H1 H2 by (auto simp: opened_as_def close_result_def fun_eq_iff)
qed

theorem open_close_restores_witness:
  "\<exists>rc db H1 rc' H2. rust_my_sqlite3_open_v2 busy_lib (quiet_pq id Suc) (Some ''/x/com.plexapp.plugins.library.db'') False 6 None
      (host_with (looked_up 7)) = Some (rc, db, H1) \<and> rust_my_sqlite3_close_v2 busy_lib (quiet_pq id Suc) 4 db H1 = Some (rc', H2)
    \<and> heap (client H2) = [9 \<mapsto> used_conn, 5 \<mapsto> library_conn]"
proof -
  have a: "\<forall>w. handle_free (client (host_with (looked_up 7)))
      (snd (fst (call_open_v2 busy_lib (Some ''/x/com.plexapp.plugins.library.db'') 6 None w)))"
    by (simp add: handle_free_def host_with_def call_open_v2_def busy_lib_def hm_get_def)
  have b: "handle_free (client (host_with (looked_up 7))) 0" by (simp add: handle_free_def host_with_def hm_get_def)
  have c: "heap (client (host_with (looked_up 7))) = [9 \<mapsto> used_conn, 5 \<mapsto> library_conn]" by (simp add: host_with_def)
  show ?thesis
    using open_close_restores [OF quiet_pq_fresh host_ok_looked_up [of 7] a b, of id Suc False 4]
    unfolding c by blast
qed

end
