(* ===== verification/Sessions.thy ===== *)
theory Sessions
  imports Db_Open
begin

text \<open>
  Many threads calling the shim: every entry point that changes the pool, the registry or a
  reference is a step of the process, and the steps of different threads come in any order.
  Each entry point of the source runs under the locks that make it atomic with respect to the
  others on the state it touches; a step here is one whole call.
\<close>

section \<open>References that statements hold\<close>

lemma pool_ok_heap:
  assumes "pool_ok hold S" "mem_ok (refs hold' (pm S)) S'" "S' = S\<lparr>heap := h\<rparr>"
    and "\<And>j. j < length (slots (pm S)) \<Longrightarrow> slot_conn (slot_at S j) \<noteq> 0 \<Longrightarrow> active S' (slot_conn (slot_at S j)) = active S (slot_conn (slot_at S j))"
  shows "pool_ok hold' S'"
proof -
  have "slot_ok S' (slot_at S j)" if "j < length (slots (pm S))" for j
    using pool_okD [OF assms(1) that] assms(4) [OF that] by (auto simp: slot_ok_def)
  moreover have "tables_ok S' = tables_ok S" using assms(3) by (intro tables_ok_cong) simp_all
  ultimately show ?thesis using assms(1,2,3) by (simp add: pool_ok_but_def)
qed

text \<open>A reference more or less changes a connection's counter and nothing else of it.\<close>

definition recounted :: "ptr \<Rightarrow> 'w shim \<Rightarrow> 'w shim \<Rightarrow> bool" where
  "recounted p S S' \<longleftrightarrow> (\<exists>c n. heap S p = Some c \<and> S' = S\<lparr>heap := (heap S)(p \<mapsto> c\<lparr>ref_count := n\<rparr>)\<rparr>)"

lemma recounted_host_rel:
  assumes ok: "pool_ok hold S" and reg: "reg_ok S" and r: "recounted p S S'" and mem: "mem_ok (refs hold' (pm S)) S'"
  shows "host_rel hold' t db S S'"
proof -
  obtain c n where S': "heap S p = Some c" "S' = S\<lparr>heap := (heap S)(p \<mapsto> c\<lparr>ref_count := n\<rparr>)\<rparr>" using r by (auto simp: recounted_def)
  have act: "active S' q = active S q" for q using S' by (simp add: active_def)
  have "recorded u d q S' = recorded u d q S" for u d q unfolding recorded_def act by (simp add: S'(2))
  moreover have "pool_ok hold' S'" by (rule pool_ok_heap [OF ok mem S'(2)]) (simp add: act)
  moreover have "map_option shadow_db (heap S' q) = map_option shadow_db (heap S q)" for q using S' by simp
  then have "reg_ok S'" using reg S'(2) unfolding reg_ok_def by simp
  ultimately show ?thesis using S'(2) by (simp add: host_rel_def undisturbed_def)
qed

lemma dropped_host_rel:
  assumes ok: "pool_ok hold S" and reg: "reg_ok S" and mem: "mem_ok (refs hold' (pm S)) (S\<lparr>heap := (heap S)(p := None)\<rparr>)"
    and p: "p \<noteq> 0" "refs hold' (pm S) p = 0"
  shows "host_rel hold' t db S (S\<lparr>heap := (heap S)(p := None)\<rparr>)"
proof -
  have slot: "slot_conn (slot_at S j) \<noteq> p" if "j < length (slots (pm S))" for j
    using slot_count_at [OF that] p by (auto simp: refs_def)
  have "hm_get (registry (pm S)) d \<noteq> Some p" for d
    using reg_count_get [OF pool_ok_registry_ok [OF ok], of d p] p by (auto simp: refs_def)
  then have "reg_ok (S\<lparr>heap := (heap S)(p := None)\<rparr>)" using reg by (auto simp: reg_ok_def)
  moreover have "pool_ok hold' (S\<lparr>heap := (heap S)(p := None)\<rparr>)"
    by (rule pool_ok_heap [OF ok mem refl]) (use slot in \<open>auto simp: active_def\<close>)
  moreover have "undisturbed t db S (S\<lparr>heap := (heap S)(p := None)\<rparr>)"
    by (rule outside_undisturbed [OF ok]) (use slot in auto)
  ultimately show ?thesis by (simp add: host_rel_def)
qed

lemma conn_ref_host_rel:
  assumes ok: "pool_ok hold S" and reg: "reg_ok S" and p: "p = 0 \<or> heap S p \<noteq> None"
  shows "returns (conn_ref p S) (\<lambda>S'. host_rel (if p = 0 then hold else hold(p := Suc (hold p))) t db S S' \<and> pm S' = pm S
    \<and> (\<forall>q. heap S q \<noteq> None \<longrightarrow> heap S' q \<noteq> None))"
proof (cases "p = 0")
  case True
  then show ?thesis using host_rel_refl [OF ok reg] by (simp add: conn_ref_def)
next
  case False
  then obtain c where c: "heap S p = Some c" using p by blast
  have mem: "mem_ok (refs hold (pm S)) S" using ok by (simp add: pool_ok_but_def)
  let ?R = "refs hold (pm S)"
  let ?S = "S\<lparr>heap := (heap S)(p \<mapsto> c\<lparr>ref_count := ref_count c + 1\<rparr>)\<rparr>"
  have pos: "0 < ?R p" by (rule mem_ok_allocated [OF mem c])
  obtain S' where S': "conn_ref p S = Some S'" "mem_ok (?R(p := ?R p + 1)) S'" using conn_ref_mem [OF mem pos] by blast
  have eq: "S' = ?S" using S'(1) conn_ref_eq [OF c False] by simp
  have "mem_ok (refs (hold(p := Suc (hold p))) (pm S)) ?S" using S'(2) False by (simp add: refs_hold eq)
  moreover have "recounted p S ?S" using c by (auto simp: recounted_def)
  ultimately have "host_rel (hold(p := Suc (hold p))) t db S ?S" by (intro recounted_host_rel [OF ok reg])
  then show ?thesis using False S'(1) eq by simp
qed

lemma conn_unref_host_rel:
  assumes ok: "pool_ok hold S" and reg: "reg_ok S" and p: "p = 0 \<or> hold p = Suc n"
  shows "returns (conn_unref p S) (\<lambda>(_, S'). host_rel (if p = 0 then hold else hold(p := n)) t db S S')"
proof (cases "p = 0")
  case True
  then show ?thesis using host_rel_refl [OF ok reg] by (simp add: conn_unref_def)
next
  case False
  then have n: "hold p = Suc n" using p by simp
  let ?R = "refs hold (pm S)" and ?h = "hold(p := n)"
  have mem: "mem_ok ?R S" using ok by (simp add: pool_ok_but_def)
  have R: "?R = (refs ?h (pm S))(p := Suc (refs ?h (pm S) p))" using refs_hold [OF False, of ?h "pm S"] n by (simp add: fun_upd_idem)
  have pos: "0 < ?R p" using n False by (simp add: refs_def)
  obtain c where c: "heap S p = Some c" "ref_count c = int (?R p)" using mem_okD [OF mem pos] by blast
  obtain S' where S': "conn_unref p S = Some (?R p = 1, S')" "mem_ok (?R(p := ?R p - 1)) S'" using conn_unref_mem [OF mem pos] by blast
  have eq: "S' = S\<lparr>heap := (heap S)(p := if ?R p = 1 then None else Some (c\<lparr>ref_count := ref_count c - 1\<rparr>))\<rparr>"
    using S'(1) conn_unref_eq [OF c(1) False] c(2) pos by simp
  have "?R(p := ?R p - 1) = refs ?h (pm S)" by (subst R) (simp add: R [THEN fun_cong, of p])
  then have mem': "mem_ok (refs ?h (pm S)) S'" using S'(2) by simp
  have "host_rel ?h t db S S'"
  proof (cases "?R p = 1")
    case True
    then have "refs ?h (pm S) p = 0" using R [THEN fun_cong, of p] by simp
    then show ?thesis using dropped_host_rel [OF ok reg _ False] mem' eq True by simp
  next
    case neq: False
    then have "recounted p S S'" using c(1) eq by (auto simp: recounted_def)
    then show ?thesis using mem' by (rule recounted_host_rel [OF ok reg])
  qed
  then show ?thesis using S'(1) False by simp
qed

lemma replace_conn_host_rel:
  assumes ok: "pool_ok hold S" and reg: "reg_ok S" and old: "old = 0 \<or> hold old = Suc n" and new: "new = 0 \<or> heap S new \<noteq> None"
    and neq: "old \<noteq> new"
  defines "held \<equiv> (if new = 0 then hold else hold(new := Suc (hold new)))"
  shows "returns (replace_conn old new S) (\<lambda>(p, S'). p = new \<and> host_rel (if old = 0 then held else held(old := n)) t db S S')"
proof -
  have rest: "returns (conn_unref old S1) (\<lambda>(_, S'). host_rel (if old = 0 then held else held(old := n)) t db S S')"
    if "host_rel held t db S S1" for S1
  proof -
    have "pool_ok held S1" "reg_ok S1" using that by (simp_all add: host_rel_def)
    moreover have "old = 0 \<or> held old = Suc n" using old neq by (auto simp: held_def)
    ultimately show ?thesis
      by (intro returns_weaken [OF conn_unref_host_rel [where t = t and db = db]]) (auto intro: host_rel_trans [OF that])
  qed
  have "replace_conn old new S = do { S1 \<leftarrow> conn_ref new S; (_, S2) \<leftarrow> conn_unref old S1; Some (new, S2) }"
    using neq by (simp add: replace_conn_def)
  moreover have "returns (do { S1 \<leftarrow> conn_ref new S; (_, S2) \<leftarrow> conn_unref old S1; Some (new, S2) })
    (\<lambda>(p, S'). p = new \<and> host_rel (if old = 0 then held else held(old := n)) t db S S')"
    unfolding returns_bind
    by (rule returns_weaken [OF conn_ref_host_rel [OF ok reg new, of t db]], elim conjE, fold held_def, drule rest, erule returns_weaken) auto
  ultimately show ?thesis by simp
qed

section \<open>The steps of the process\<close>

type_synonym 'w session = "(ptr \<Rightarrow> nat) \<times> 'w host"

text \<open>
  A label is the calling thread and the handle it works on. Statements hold references to
  connections; the first component of a session counts them, and a statement that takes a
  new connection for an old one is a step of its own. The last rule is everything outside
  the process: the server, the file system and the clock.
\<close>

inductive session_step :: "'w host_lib \<Rightarrow> 'w libpq \<Rightarrow> 'w session \<Rightarrow> tid \<times> ptr \<Rightarrow> 'w session \<Rightarrow> bool" for Q L where
  call_open: "rust_my_sqlite3_open Q L f pp_null H = Some (rc, db, H') \<Longrightarrow> \<forall>w. handle_free (client H) (snd (fst (call_open Q f w))) \<Longrightarrow>
    session_step Q L (hold, H) (t, d) (hold, H')"
| call_open_v2: "rust_my_sqlite3_open_v2 Q L f pp_null flags vfs H = Some (rc, db, H') \<Longrightarrow>
    \<forall>w. handle_free (client H) (snd (fst (call_open_v2 Q f flags vfs w))) \<Longrightarrow> session_step Q L (hold, H) (t, d) (hold, H')"
| call_close: "rust_my_sqlite3_close Q L t db H = Some (rc, H') \<Longrightarrow> session_step Q L (hold, H) (t, db) (hold, H')"
| call_close_v2: "rust_my_sqlite3_close_v2 Q L t db H = Some (rc, H') \<Longrightarrow> session_step Q L (hold, H) (t, db) (hold, H')"
| call_find: "rust_pg_find_connection L t db (client H) = Some (p, S') \<Longrightarrow> t \<noteq> 0 \<Longrightarrow>
    session_step Q L (hold, H) (t, db) (hold, H\<lparr>client := S'\<rparr>)"
| call_release: "pg_close_pool_for_db L t db (client H) = Some S' \<Longrightarrow> session_step Q L (hold, H) (t, db) (hold, H\<lparr>client := S'\<rparr>)"
| call_health: "pool_check_health_inner L t p (client H) = Some (r, S') \<Longrightarrow> p = 0 \<or> heap (client H) p \<noteq> None \<Longrightarrow>
    session_step Q L (hold, H) (t, d) (hold, H\<lparr>client := S'\<rparr>)"
| rebind: "replace_conn old new (client H) = Some (p, S') \<Longrightarrow> old \<noteq> new \<Longrightarrow> old = 0 \<or> hold old = Suc n \<Longrightarrow>
    new = 0 \<or> heap (client H) new \<noteq> None \<Longrightarrow> held = (if new = 0 then hold else hold(new := Suc (hold new))) \<Longrightarrow>
    session_step Q L (hold, H) (t, d) (if old = 0 then held else held(old := n), H\<lparr>client := S'\<rparr>)"
| outside: "session_step Q L (hold, H) (t, d) (hold, set_world w H)"

inductive session :: "'w host_lib \<Rightarrow> 'w libpq \<Rightarrow> 'w session \<Rightarrow> (tid \<times> ptr) list \<Rightarrow> 'w session \<Rightarrow> bool" for Q L where
  session_start: "session Q L s [] s"
| session_next: "session Q L s xs s1 \<Longrightarrow> session_step Q L s1 x s' \<Longrightarrow> session Q L s (xs @ [x]) s'"

text \<open>What every state of a process that has not forked satisfies.\<close>

definition session_ok :: "nat \<Rightarrow> 'w session \<Rightarrow> bool" where
  "session_ok pid = (\<lambda>(hold, H). host_ok hold H \<and> init_pid (pm (client H)) \<in> {0, pid})"

lemma phase_host_rel:
  assumes "pool_ok hold S" "reg_ok S" "phase_rel t S S'" "pool_ok hold S'"
  shows "host_rel hold t db S S'"
proof -
  have "undisturbed t db S S'"
    using assms(1,3) by (intro undisturbedI) (auto simp: phase_rel_def pool_size_def pool_max_def in_use_def)
  moreover have "reg_ok S'" using assms(2,1,3) by (elim reg_ok_frame) (auto simp: phase_rel_def)
  ultimately show ?thesis using assms(3,4) by (simp add: host_rel_def phase_rel_def)
qed

lemma release_host_rel:
  assumes "pool_ok hold S" "reg_ok S"
  shows "returns (pg_close_pool_for_db L t db S) (\<lambda>S'. host_rel hold t db S S')"
proof (cases "db = 0")
  case True
  then show ?thesis using host_rel_refl [OF assms] by (simp add: pg_close_pool_for_db_def)
next
  case False
  have "host_rel hold t db S S'" if "pool_ok hold S'" "phase_rel t (unassigned db S) S'" for S'
  proof -
    have "registry (pm S') = registry (pm S)" "init_pid (pm S') = init_pid (pm S)" "env S' = env S"
      using that(2) by (simp_all add: phase_rel_def unassigned_def frame_simps)
    then show ?thesis
      using that phase_undisturbed [OF assms(1) that(2)] phase_reg_ok [OF assms(2,1) that(2)] by (simp add: host_rel_def)
  qed
  with False show ?thesis
    by (simp add: pg_close_pool_for_db_def) (rule returns_weaken [OF release_spec [OF assms(1)]], blast)
qed

lemma health_host_rel:
  assumes "pool_ok hold S" "reg_ok S" "p = 0 \<or> heap S p \<noteq> None"
  shows "returns (pool_check_health_inner L t p S) (\<lambda>(_, S'). host_rel hold t db S S')"
proof (cases "needs_repair L t p S")
  case True
  show ?thesis
    by (rule returns_weaken [OF health_repair [OF assms(1) True]]) (auto intro: phase_host_rel [OF assms(1,2)])
next
  case False
  then show ?thesis using health_idle [OF assms(3) False] host_rel_refl [OF assms(1,2)] by simp
qed

lemma find_host_rel:
  assumes "calloc_fresh L" "pool_ok hold S" "reg_ok S" "t \<noteq> 0" "init_pid (pm S) \<in> {0, getpid L (world S)}"
  shows "returns (rust_pg_find_connection L t db S) (\<lambda>(_, S'). host_rel hold t db S S')"
proof -
  obtain p S' where S': "rust_pg_find_connection L t db S = Some (p, S')" "pool_ok hold S'" "lookup_rel t db S S'"
    using find_connection_spec [OF assms(1,2,4,5)] by blast
  have "host_rel hold t db S S'"
    using S'(2,3) lookup_undisturbed [OF assms(2) S'(3)] lookup_reg_ok [OF assms(3,2) S'(3)] by (simp add: host_rel_def lookup_rel_def)
  with S'(1) show ?thesis by simp
qed

lemma close_host_rel:
  assumes "host_ok hold H" "close \<in> {rust_my_sqlite3_close Q L, rust_my_sqlite3_close_v2 Q L}"
  shows "returns (close t db H) (\<lambda>(_, H'). host_rel hold t db (client H) (client H'))"
proof -
  have ok: "pool_ok hold (client H)" "reg_ok (client H)" using assms(1) by (simp_all add: host_ok_def)
  obtain S' where "before_close L t db (client H) = Some S'" "host_rel hold t db (client H) S'"
    using returnsD [OF before_close_spec [OF ok, of L t db]] by blast
  then show ?thesis using assms(2)
    by (auto simp: rust_my_sqlite3_close_def rust_my_sqlite3_close_v2_def Let_def split: prod.splits option.splits)
qed

lemma open_host_rel:
  assumes "calloc_fresh L" "host_ok hold H" "\<forall>w. handle_free (client H) (snd (fst (call_open Q f w)))"
  shows "returns (rust_my_sqlite3_open Q L f pp_null H)
    (\<lambda>(rc, db, H'). host_ok hold H' \<and> undisturbed t d (client H) (client H') \<and> init_pid (pm (client H')) = init_pid (pm (client H))
      \<and> env (client H') = env (client H))"
proof -
  have free: "hm_get (registry (pm (client H))) (snd (fst (call_open Q f w))) = None" for w
    using assms(3) by (simp add: handle_free_def)
  show ?thesis by (rule returns_weaken [OF open_spec [OF assms(1,2) free]]) (auto simp: opened_as_def host_rel_def)
qed

lemma open_v2_host_rel:
  assumes "calloc_fresh L" "host_ok hold H" "\<forall>w. handle_free (client H) (snd (fst (call_open_v2 Q f flags vfs w)))"
  shows "returns (rust_my_sqlite3_open_v2 Q L f pp_null flags vfs H)
    (\<lambda>(rc, db, H'). host_ok hold H' \<and> undisturbed t d (client H) (client H') \<and> init_pid (pm (client H')) = init_pid (pm (client H))
      \<and> env (client H') = env (client H))"
proof -
  have free: "hm_get (registry (pm (client H))) (snd (fst (call_open_v2 Q f flags vfs w))) = None" for w
    using assms(3) by (simp add: handle_free_def)
  show ?thesis by (rule returns_weaken [OF open_v2_spec [OF assms(1,2) free]]) (auto simp: opened_as_def host_rel_def)
qed

section \<open>Every step keeps the process sound\<close>

lemma host_rel_ok: "host_rel hold t db S (client H') \<Longrightarrow>
    host_ok hold H' \<and> undisturbed t db S (client H') \<and> init_pid (pm (client H')) = init_pid (pm S) \<and> env (client H') = env S"
  by (simp add: host_rel_def host_ok_def)

lemma session_step_sound:
  assumes step: "session_step Q L s x s'" and ok: "session_ok pid s" and fresh: "calloc_fresh L" and pid: "\<forall>w. getpid L w = pid"
  shows "session_ok pid s' \<and> undisturbed (fst x) (snd x) (client (snd s)) (client (snd s')) \<and> env (client (snd s')) = env (client (snd s))"
  using step
proof cases
  case (call_open f pp_null H rc db H' hold t d)
  with ok returns_SomeD [OF open_host_rel [OF fresh _ call_open(5), of hold pp_null t d] call_open(4)] show ?thesis
    by (auto simp: session_ok_def)
next
  case (call_open_v2 f pp_null flags vfs H rc db H' hold t d)
  with ok returns_SomeD [OF open_v2_host_rel [OF fresh _ call_open_v2(5), of hold pp_null t d] call_open_v2(4)] show ?thesis
    by (auto simp: session_ok_def)
next
  case (call_close t db H rc H' hold)
  with ok returns_SomeD [OF close_host_rel [of hold H "rust_my_sqlite3_close Q L" Q L] call_close(4)] show ?thesis
    by (auto simp: session_ok_def dest!: host_rel_ok)
next
  case (call_close_v2 t db H rc H' hold)
  with ok returns_SomeD [OF close_host_rel [of hold H "rust_my_sqlite3_close_v2 Q L" Q L] call_close_v2(4)] show ?thesis
    by (auto simp: session_ok_def dest!: host_rel_ok)
next
  case (call_find t db H p S' hold)
  with ok pid returns_SomeD [OF find_host_rel [OF fresh, of hold "client H" t db] call_find(4)] show ?thesis
    by (auto simp: session_ok_def host_ok_def host_rel_def)
next
  case (call_release t db H S' hold)
  with ok returns_SomeD [OF release_host_rel [of hold "client H" L t db] call_release(4)] show ?thesis
    by (auto simp: session_ok_def host_ok_def host_rel_def)
next
  case (call_health t p H r S' hold d)
  with ok returns_SomeD [OF health_host_rel [of hold "client H" p L t d] call_health(4)] show ?thesis
    by (auto simp: session_ok_def host_ok_def host_rel_def)
next
  case (rebind old new H p S' hold n held t d)
  with ok returns_SomeD [OF replace_conn_host_rel [of hold "client H" old n new t d] rebind(4)] show ?thesis
    by (auto simp: session_ok_def host_ok_def host_rel_def)
next
  case (outside hold H t d w)
  with ok show ?thesis by (auto simp: session_ok_def host_ok_def)
qed

lemma session_sound:
  assumes "session Q L s xs s'" "session_ok pid s" "calloc_fresh L" "\<forall>w. getpid L w = pid"
  shows "session_ok pid s'"
  using assms(1,2)
proof induction
  case (session_next s xs s1 x s')
  then show ?case using session_step_sound [OF _ _ assms(3,4)] by blast
qed

text \<open>The process as the first call finds it: an empty pool, and nothing allocated.\<close>

definition starting :: "nat \<Rightarrow> 'w host \<Rightarrow> bool" where
  "starting pid H \<longleftrightarrow> (\<exists>psize pmax. pm (client H) = PoolManager_new psize pmax pid) \<and> heap (client H) = Map.empty
     \<and> stmt_caches (client H) = [] \<and> txn_by_conn (client H) = [] \<and> txn_pins (client H) = []"

lemma pool_ok_new:
  assumes "pm S = PoolManager_new psize pmax pid" "heap S = Map.empty" "stmt_caches S = []" "txn_by_conn S = []" "txn_pins S = []"
  shows "pool_ok (\<lambda>_. 0) S"
proof -
  have s: "slots (pm S) = replicate (max pmax 1) PoolSlot_new" "registry (pm S) = []" "db_to_pool (pm S) = []"
    using assms(1) by (simp_all add: PoolManager_new_def Let_def)
  have "refs (\<lambda>_. 0) (pm S) = (\<lambda>_. 0)"
    by (auto simp: refs_def slot_count_def reg_count_def s PoolSlot_new_def hm_values_def fun_eq_iff map_replicate_const count_list_0_iff)
  moreover have "tables_ok S" using assms by (simp add: tables_ok_def txn_maps_ok_def caches_ok_def hm_ok_def hm_get_def)
  moreover have "sizes_ok (pm S)" using assms(1) by (simp add: sizes_ok_def PoolManager_new_def hm_ok_def Let_def)
  ultimately show ?thesis
    using assms(2) by (simp add: pool_ok_but_def apart_def slot_conns_def mem_ok_def s PoolSlot_new_def slot_ok_def)
qed

lemma starting_ok: "starting pid H \<Longrightarrow> session_ok pid (\<lambda>_. 0, H)"
  using pool_ok_new [of "client H"]
  by (auto simp: starting_def session_ok_def host_ok_def reg_ok_def PoolManager_new_def Let_def hm_get_def)

text \<open>No pointer dangles and no connection leaks.\<close>

definition accounted :: "(ptr \<Rightarrow> nat) \<Rightarrow> 'w shim \<Rightarrow> bool" where
  "accounted hold S \<longleftrightarrow> (\<forall>p. p \<noteq> 0 \<longrightarrow>
     (heap S p \<noteq> None) = (0 < hold p \<or> p \<in> set (map slot_conn (slots (pm S))) \<or> p \<in> set (hm_values (registry (pm S)))))"

lemma pool_ok_accounted:
  assumes "pool_ok hold S"
  shows "accounted hold S"
  unfolding accounted_def
proof (intro allI impI)
  fix p :: ptr assume p: "p \<noteq> 0"
  have mem: "mem_ok (refs hold (pm S)) S" using assms by (simp add: pool_ok_but_def)
  have "heap S p \<noteq> None \<longleftrightarrow> 0 < refs hold (pm S) p"
    using mem_ok_allocated [OF mem, of p] mem_okD [OF mem, of p] by fastforce
  moreover have "0 < refs hold (pm S) p \<longleftrightarrow> 0 < hold p \<or> p \<in> set (map slot_conn (slots (pm S))) \<or> p \<in> set (hm_values (registry (pm S)))"
    using p count_list_pos [of "map slot_conn (slots (pm S))" p] count_list_pos [of "hm_values (registry (pm S))" p]
    unfolding refs_def slot_count_def reg_count_def by auto
  ultimately show "(heap S p \<noteq> None) = (0 < hold p \<or> p \<in> set (map slot_conn (slots (pm S))) \<or> p \<in> set (hm_values (registry (pm S))))"
    by simp
qed


lemma starting_demo: "starting 1 (host_with (demo_shim w))"
  by (auto simp: starting_def host_with_def demo_shim_def)






end
