(* ===== verification/Query_Cache.thy ===== *)
theory Query_Cache
  imports Error_Class
begin

text \<open>
  The per-thread cache of query results (\<^verbatim>\<open>pg_query_cache.rs\<close> and its C entry points in
  \<^verbatim>\<open>c_abi/query_cache.rs\<close>): the key of a statement, the lookup, the store that copies a small
  result into a slot, the invalidation and the release of a result a statement is reading.

  A pointer to allocated memory is an option, null being \<^const>\<open>None\<close>; the cache counts the blocks it
  has from the allocator, so that a leak or a double free shows. Whether the next allocation
  succeeds is decided by an argument, \<open>alloc\<close>, and the clock's readings are arguments too.
  Logging is not modelled.
\<close>

section \<open>The key of a statement\<close>

definition MAX_PARAMS :: nat where "MAX_PARAMS = 128"

text \<open>\<open>fnv1a_hash_slice\<close> is the hash of \<^verbatim>\<open>hash_sqlstate.rs\<close> again, on bytes.\<close>

definition fnv1a_hash_slice :: "string \<Rightarrow> u64" where
  "fnv1a_hash_slice data = fold (\<lambda>byte hash. (hash XOR of_nat (char_code byte)) * fnv_prime) data fnv_offset"

definition mix_param :: "string option \<Rightarrow> u64 \<Rightarrow> u64" where
  "mix_param param hash =
     (case param of
        Some val \<Rightarrow> (hash XOR fnv1a_hash_slice val) * fnv_prime
      | None \<Rightarrow> (hash XOR 0xDEADBEEF) * fnv_prime)"

definition compute_cache_key :: "string \<Rightarrow> string option list \<Rightarrow> u64" where
  "compute_cache_key pg_sql param_values =
     (if pg_sql = [] then 0 else fold mix_param param_values (fnv1a_hash_slice pg_sql))"

text \<open>
  The array of parameters is a list; \<^const>\<open>None\<close> is a null array. A negative count becomes, as an
  unsigned number, one above the limit.
\<close>

definition rust_query_cache_key :: "bool \<Rightarrow> string option \<Rightarrow> string option list option \<Rightarrow> int \<Rightarrow> u64" where
  "rust_query_cache_key enabled pg_sql param_values param_count =
     (if \<not> enabled then 0
      else case pg_sql of
        None \<Rightarrow> 0
      | Some sql_bytes \<Rightarrow>
          if sql_bytes = [] then 0
          else let n = (if param_count < 0 then MAX_PARAMS else min (nat param_count) MAX_PARAMS);
                   params = (case param_values of None \<Rightarrow> [] | Some vs \<Rightarrow> take n vs)
               in compute_cache_key sql_bytes params)"

text \<open>\<open>h\<close> is the standard library's hash of the key and the schema.\<close>

definition rust_query_cache_key_in_schema :: "(u64 \<Rightarrow> string \<Rightarrow> u64) \<Rightarrow> u64 \<Rightarrow> string \<Rightarrow> u64" where
  "rust_query_cache_key_in_schema h key schema = (if h key schema = 0 then 1 else h key schema)"

section \<open>An entry\<close>

record CachedRow =
  row_values :: "string option list option"
  row_lengths :: "nat list option"
  row_nulls :: "int list option"

record CachedResult =
  cache_key :: u64
  created_ms :: u64
  res_refs :: int
  res_rows :: nat
  res_cols :: nat
  col_types :: "u32 list option"
  col_names :: "string option list option"
  rows :: "CachedRow list option"
  hit_count :: int

definition CachedResult_empty :: CachedResult where
  "CachedResult_empty =
     \<lparr>cache_key = 0, created_ms = 0, res_refs = 0, res_rows = 0, res_cols = 0, col_types = None, col_names = None,
      rows = None, hit_count = 0\<rparr>"

definition CachedRow_null :: CachedRow where
  "CachedRow_null = \<lparr>row_values = None, row_lengths = None, row_nulls = None\<rparr>"

definition is_active :: "CachedResult \<Rightarrow> bool" where
  "is_active e \<longleftrightarrow> cache_key e \<noteq> 0"

definition is_referenced :: "CachedResult \<Rightarrow> bool" where
  "is_referenced e \<longleftrightarrow> 0 < res_refs e"

definition mark_expired :: "CachedResult \<Rightarrow> CachedResult" where
  "mark_expired e = (if is_active e then e\<lparr>created_ms := 0\<rparr> else e)"

definition some_count :: "'a option list \<Rightarrow> nat" where
  "some_count xs = length (filter (\<lambda>x. x \<noteq> None) xs)"

text \<open>How many blocks freeing a row, and a whole entry, gives back.\<close>

definition row_free :: "nat \<Rightarrow> CachedRow \<Rightarrow> nat" where
  "row_free num_cols r =
     (case row_values r of None \<Rightarrow> 0 | Some vs \<Rightarrow> some_count (take num_cols vs) + 1)
     + (if row_lengths r = None then 0 else 1) + (if row_nulls r = None then 0 else 1)"

definition entry_free :: "CachedResult \<Rightarrow> nat" where
  "entry_free e =
     (if col_types e = None then 0 else 1)
     + (case col_names e of None \<Rightarrow> 0 | Some ns \<Rightarrow> some_count (take (res_cols e) ns) + 1)
     + (case rows e of None \<Rightarrow> 0 | Some rs \<Rightarrow> sum_list (map (row_free (res_cols e)) (take (res_rows e) rs)) + 1)"

text \<open>Whether the entry was freed, how many blocks that gave back, and the entry afterwards.\<close>

definition free_data :: "CachedResult \<Rightarrow> bool \<times> nat \<times> CachedResult" where
  "free_data e =
     (if \<not> is_active e then (False, 0, e)
      else if is_referenced e then (False, 0, e)
      else (True, entry_free e,
            e\<lparr>col_types := None, col_names := None, rows := None, cache_key := 0, res_rows := 0, res_cols := 0\<rparr>))"

definition cleanup_partial :: "CachedResult \<Rightarrow> nat \<times> CachedResult" where
  "cleanup_partial e = snd (free_data (e\<lparr>res_refs := 0\<rparr>))"

definition force_free_data :: "CachedResult \<Rightarrow> nat \<times> CachedResult" where
  "force_free_data e = snd (free_data (e\<lparr>res_refs := 0\<rparr>))"

section \<open>The cache\<close>

definition QUERY_CACHE_SIZE :: nat where "QUERY_CACHE_SIZE = 64"
definition QUERY_CACHE_TTL_MS :: u64 where "QUERY_CACHE_TTL_MS = 1000"
definition QUERY_CACHE_MAX_ROWS :: int where "QUERY_CACHE_MAX_ROWS = 5"
definition QUERY_CACHE_MAX_BYTES :: nat where "QUERY_CACHE_MAX_BYTES = 1024 * 1024"

record QueryCache =
  entries :: "CachedResult list"
  qc_count :: int
  total_hits :: u64
  total_misses :: u64
  blocks :: nat

definition QueryCache_new :: QueryCache where
  "QueryCache_new =
     \<lparr>entries = replicate QUERY_CACHE_SIZE CachedResult_empty, qc_count = 0, total_hits = 0, total_misses = 0, blocks = 0\<rparr>"

text \<open>The end of the thread.\<close>

definition QueryCache_drop :: "QueryCache \<Rightarrow> QueryCache" where
  "QueryCache_drop cache =
     cache\<lparr>entries := map (snd \<circ> force_free_data) (entries cache), blocks := blocks cache - sum_list (map (fst \<circ> force_free_data) (entries cache))\<rparr>"

definition query_cache_enabled :: "(string \<Rightarrow> string option) \<Rightarrow> bool" where
  "query_cache_enabled env =
     (\<not> (case env ''PLEX_PG_DISABLE_QUERY_CACHE'' of None \<Rightarrow> False | Some v \<Rightarrow> v \<noteq> [] \<and> v \<noteq> ''0''))"

definition entry_age :: "u64 \<Rightarrow> CachedResult \<Rightarrow> u64" where
  "entry_age t e = t - created_ms e"

text \<open>The index of the first entry that satisfies a test.\<close>

definition position :: "('a \<Rightarrow> bool) \<Rightarrow> 'a list \<Rightarrow> nat option" where
  "position P xs = find (\<lambda>i. P (xs ! i)) [0..<length xs]"

text \<open>The result is the index of the entry, which stands for the pointer to it.\<close>

definition rust_query_cache_lookup :: "bool \<Rightarrow> u64 \<Rightarrow> u64 \<Rightarrow> QueryCache \<Rightarrow> nat option \<times> QueryCache" where
  "rust_query_cache_lookup enabled key t cache =
     (if \<not> enabled \<or> key = 0 then (None, cache)
      else case position (\<lambda>e. cache_key e = key) (entries cache) of
        Some i \<Rightarrow>
          (let e = entries cache ! i in
           if entry_age t e < QUERY_CACHE_TTL_MS
           then (Some i, cache\<lparr>entries := (entries cache)[i := e\<lparr>res_refs := res_refs e + 1, hit_count := hit_count e + 1\<rparr>],
                   total_hits := total_hits cache + 1\<rparr>)
           else let (_, n, e') = free_data e
                in (None, cache\<lparr>entries := (entries cache)[i := e'], total_misses := total_misses cache + 1, blocks := blocks cache - n\<rparr>))
      | None \<Rightarrow> (None, cache\<lparr>total_misses := total_misses cache + 1\<rparr>))"

section \<open>Storing a result\<close>

text \<open>The allocator: whether it can serve the next request, and how many blocks it has handed out.\<close>

type_synonym 'w alloc = "'w \<Rightarrow> bool \<times> 'w"

definition malloc :: "'w alloc \<Rightarrow> 'w \<times> nat \<Rightarrow> bool \<times> 'w \<times> nat" where
  "malloc alloc h = (let (ok, w) = alloc (fst h) in (ok, w, if ok then snd h + 1 else snd h))"

text \<open>The slots a store has found so far.\<close>

record slot_choice =
  exact_match_slot :: "nat option"
  empty_slot :: "nat option"
  expired_slot :: "nat option"
  oldest_reclaimable_slot :: "nat option"
  oldest_reclaimable_time :: u64

definition no_choice :: slot_choice where
  "no_choice = \<lparr>exact_match_slot = None, empty_slot = None, expired_slot = None, oldest_reclaimable_slot = None,
     oldest_reclaimable_time = - 1\<rparr>"

definition get_or_insert :: "'a option \<Rightarrow> 'a \<Rightarrow> 'a option" where
  "get_or_insert x i = (case x of None \<Rightarrow> Some i | Some _ \<Rightarrow> x)"

text \<open>\<^const>\<open>None\<close>: the key is in a slot that a statement is reading.\<close>

fun scan_slots :: "u64 \<Rightarrow> u64 \<Rightarrow> nat \<Rightarrow> CachedResult list \<Rightarrow> slot_choice \<Rightarrow> slot_choice option" where
  "scan_slots key t i [] c = Some c"
| "scan_slots key t i (e # es) c =
     (if cache_key e = key then (if is_referenced e then None else Some (c\<lparr>exact_match_slot := Some i\<rparr>))
      else if \<not> is_active e then scan_slots key t (i + 1) es (c\<lparr>empty_slot := get_or_insert (empty_slot c) i\<rparr>)
      else if QUERY_CACHE_TTL_MS \<le> entry_age t e \<and> \<not> is_referenced e
      then scan_slots key t (i + 1) es (c\<lparr>expired_slot := get_or_insert (expired_slot c) i\<rparr>)
      else if \<not> is_referenced e \<and> created_ms e < oldest_reclaimable_time c
      then scan_slots key t (i + 1) es (c\<lparr>oldest_reclaimable_time := created_ms e, oldest_reclaimable_slot := Some i\<rparr>)
      else scan_slots key t (i + 1) es c)"

definition or_else :: "'a option \<Rightarrow> 'a option \<Rightarrow> 'a option" where
  "or_else x y = (case x of None \<Rightarrow> y | Some _ \<Rightarrow> x)"

definition chosen_slot :: "slot_choice \<Rightarrow> nat option" where
  "chosen_slot c = or_else (or_else (or_else (exact_match_slot c) (empty_slot c)) (expired_slot c)) (oldest_reclaimable_slot c)"

fun copy_names :: "'w alloc \<Rightarrow> string option list \<Rightarrow> nat \<Rightarrow> 'w \<times> nat \<Rightarrow> string option list \<times> nat \<times> 'w \<times> nat" where
  "copy_names alloc [] total_size h = ([], total_size, h)"
| "copy_names alloc (None # ns) total_size h = (let (copies, r) = copy_names alloc ns total_size h in (None # copies, r))"
| "copy_names alloc (Some name # ns) total_size h =
     (let (ok, h) = malloc alloc h in
      if ok then let (copies, r) = copy_names alloc ns (total_size + length name + 1) h in (Some name # copies, r)
      else let (copies, r) = copy_names alloc ns total_size h in (None # copies, r))"

text \<open>
  The cells of a row: the null flag, the length, and the source, whose bytes up to the length
  are copied. The answer is whether the whole row was copied, and the row's arrays, which the
  allocator has cleared, as far as they were filled.
\<close>

type_synonym cell = "int \<times> nat \<times> string option"

definition cell_bytes :: "nat \<Rightarrow> string option \<Rightarrow> string" where
  "cell_bytes len src = (case src of None \<Rightarrow> [] | Some s \<Rightarrow> take len s)"

fun copy_cells :: "'w alloc \<Rightarrow> cell list \<Rightarrow> nat \<Rightarrow> 'w \<times> nat \<Rightarrow> bool \<times> (string option \<times> nat \<times> int) list \<times> nat \<times> 'w \<times> nat" where
  "copy_cells alloc [] total_size h = (True, [], total_size, h)"
| "copy_cells alloc ((null_flag, len, src) # cs) total_size h =
     (if null_flag \<noteq> 0
      then let (ok, copies, r) = copy_cells alloc cs total_size h in (ok, (None, 0, null_flag) # copies, r)
      else if QUERY_CACHE_MAX_BYTES < total_size + len + 1
      then (False, (None, len, null_flag) # replicate (length cs) (None, 0, 0), total_size + len + 1, h)
      else let (ok, h) = malloc alloc h in
        if \<not> ok then (False, (None, len, null_flag) # replicate (length cs) (None, 0, 0), total_size + len + 1, h)
        else let (ok, copies, r) = copy_cells alloc cs (total_size + len + 1) h
             in (ok, (Some (cell_bytes len src), len, null_flag) # copies, r))"

definition row_of :: "(string option \<times> nat \<times> int) list \<Rightarrow> CachedRow" where
  "row_of copies = \<lparr>row_values = Some (map fst copies), row_lengths = Some (map (fst \<circ> snd) copies), row_nulls = Some (map (snd \<circ> snd) copies)\<rparr>"

text \<open>The rows as far as they were filled: on a failure the last of them is the row that failed.\<close>

fun copy_rows :: "'w alloc \<Rightarrow> cell list list \<Rightarrow> nat \<Rightarrow> 'w \<times> nat \<Rightarrow> bool \<times> CachedRow list \<times> nat \<times> 'w \<times> nat" where
  "copy_rows alloc [] total_size h = (True, [], total_size, h)"
| "copy_rows alloc (r # rs) total_size h =
     (let (v, h) = malloc alloc h;
          (l, h) = malloc alloc h;
          (n, h) = malloc alloc h
      in if \<not> v \<or> \<not> l \<or> \<not> n
         then (False, [\<lparr>row_values = if v then Some (replicate (length r) None) else None,
                        row_lengths = if l then Some (replicate (length r) 0) else None,
                        row_nulls = if n then Some (replicate (length r) 0) else None\<rparr>], total_size, h)
         else let (ok, copies, total_size, h) = copy_cells alloc r total_size h in
           if \<not> ok then (False, [row_of copies], total_size, h)
           else let (ok, out, r') = copy_rows alloc rs total_size h in (ok, row_of copies # out, r'))"

text \<open>What a store is given: the column types and names, and the rows of cells.\<close>

record result_data =
  d_types :: "u32 list"
  d_names :: "string option list"
  d_rows :: "cell list list"

text \<open>
  Filling a slot. A failure before the rows are there calls \<open>cleanup_partial\<close> on an entry that has no
  key; a failure inside the rows gives it the key 1 first.
\<close>

definition fill_entry ::
  "'w alloc \<Rightarrow> u64 \<Rightarrow> u64 \<Rightarrow> result_data \<Rightarrow> CachedResult \<Rightarrow> 'w \<times> nat \<Rightarrow> bool \<times> CachedResult \<times> 'w \<times> nat" where
  "fill_entry alloc key created d e h =
     (let nr = length (d_rows d); nc = length (d_types d);
          (ok, h) = malloc alloc h
      in if \<not> ok then (False, e, h)
         else let e = e\<lparr>col_types := Some (d_types d)\<rparr>; (ok, h) = malloc alloc h in
           if \<not> ok then let (n, e) = cleanup_partial e in (False, e, fst h, snd h - n)
           else let (names, total_size, h) = copy_names alloc (d_names d) 0 h;
                    e = e\<lparr>col_names := Some names\<rparr>;
                    (ok, h) = malloc alloc h
                in if \<not> ok then let (n, e) = cleanup_partial e in (False, e, fst h, snd h - n)
                   else let (ok, rs, total_size, h) = copy_rows alloc (d_rows d) total_size h;
                            e = e\<lparr>rows := Some (rs @ replicate (nr - length rs) CachedRow_null)\<rparr>
                        in if \<not> ok
                           then let (n, e) = cleanup_partial (e\<lparr>res_rows := length rs, res_cols := nc, cache_key := 1, res_refs := 0\<rparr>)
                                in (False, e, fst h, snd h - n)
                           else (True, e\<lparr>cache_key := key, created_ms := created, res_refs := 0, res_rows := nr, res_cols := nc,
                                          hit_count := 0\<rparr>, h))"

text \<open>\<open>t\<close> and \<open>created\<close> are the two readings of the clock; \<open>saturating_sub\<close> does not go below the least integer.\<close>

definition count_dec :: "int \<Rightarrow> int" where
  "count_dec n = max (n - 1) (- (2 ^ 31))"

definition rust_query_cache_store ::
  "'w alloc \<Rightarrow> bool \<Rightarrow> u64 \<Rightarrow> int \<Rightarrow> int \<Rightarrow> result_data \<Rightarrow> u64 \<Rightarrow> u64 \<Rightarrow> QueryCache \<Rightarrow> 'w \<Rightarrow> QueryCache \<times> 'w" where
  "rust_query_cache_store alloc enabled key num_rows num_cols d t created cache w =
     (if \<not> enabled \<or> key = 0 \<or> num_cols \<le> 0 \<or> QUERY_CACHE_MAX_ROWS < num_rows \<or> num_rows \<le> 0 then (cache, w)
      else case scan_slots key t 0 (entries cache) no_choice of
        None \<Rightarrow> (cache, w)
      | Some c \<Rightarrow>
          (case chosen_slot c of
             None \<Rightarrow> (cache, w)
           | Some slot \<Rightarrow>
               (let e = entries cache ! slot;
                    (reclaimed, n, e1) = (if is_active e then free_data e else (True, 0, e))
                in if \<not> reclaimed then (cache, w)
                   else let count = (if is_active e then count_dec (qc_count cache) else qc_count cache);
                            (ok, e2, w, b) = fill_entry alloc key created d e1 (w, blocks cache - n)
                        in (cache\<lparr>entries := (entries cache)[slot := e2], qc_count := if ok then count + 1 else count, blocks := b\<rparr>, w))))"

definition rust_query_cache_invalidate :: "bool \<Rightarrow> u64 \<Rightarrow> QueryCache \<Rightarrow> QueryCache" where
  "rust_query_cache_invalidate enabled key cache =
     (if \<not> enabled \<or> key = 0 then cache
      else case position (\<lambda>e. cache_key e = key) (entries cache) of
        None \<Rightarrow> cache
      | Some i \<Rightarrow>
          (let (freed, n, e) = free_data (entries cache ! i) in
           if freed
           then cache\<lparr>entries := (entries cache)[i := e], qc_count := count_dec (qc_count cache), blocks := blocks cache - n\<rparr>
           else cache\<lparr>entries := (entries cache)[i := mark_expired (entries cache ! i)]\<rparr>))"

text \<open>\<^const>\<open>None\<close> is a null pointer.\<close>

definition rust_query_cache_release :: "bool \<Rightarrow> nat option \<Rightarrow> QueryCache \<Rightarrow> QueryCache" where
  "rust_query_cache_release enabled entry cache =
     (case entry of
        None \<Rightarrow> cache
      | Some i \<Rightarrow>
          if \<not> enabled then cache
          else cache\<lparr>entries := (entries cache)[i := (entries cache ! i)\<lparr>res_refs := res_refs (entries cache ! i) - 1\<rparr>]\<rparr>)"

text \<open>The counters of the thread's cache, if it has one yet.\<close>

definition rust_query_cache_stats :: "bool \<Rightarrow> QueryCache option \<Rightarrow> u64 \<times> u64" where
  "rust_query_cache_stats enabled cache =
     (if \<not> enabled then (0, 0) else case cache of None \<Rightarrow> (0, 0) | Some c \<Rightarrow> (total_hits c, total_misses c))"

section \<open>The calls of a thread\<close>

datatype qc_op =
    Lookup u64 u64
  | Store u64 result_data u64 u64
  | Invalidate u64
  | Release nat

text \<open>A store is called with the sizes of the arrays it is given.\<close>

definition qc_step :: "'w alloc \<Rightarrow> qc_op \<Rightarrow> QueryCache \<times> 'w \<Rightarrow> QueryCache \<times> 'w" where
  "qc_step alloc oper = (\<lambda>(cache, w).
     case oper of
       Lookup key t \<Rightarrow> (snd (rust_query_cache_lookup True key t cache), w)
     | Store key d t created \<Rightarrow>
         rust_query_cache_store alloc True key (int (length (d_rows d))) (int (length (d_types d))) d t created cache w
     | Invalidate key \<Rightarrow> (rust_query_cache_invalidate True key cache, w)
     | Release i \<Rightarrow> (rust_query_cache_release True (Some i) cache, w))"

definition qc_run :: "'w alloc \<Rightarrow> qc_op list \<Rightarrow> QueryCache \<times> 'w \<Rightarrow> QueryCache \<times> 'w" where
  "qc_run alloc opers s = fold (qc_step alloc) opers s"

section \<open>What a stored entry holds\<close>

definition copied :: "cell \<Rightarrow> string option \<times> nat \<times> int" where
  "copied = (\<lambda>(null_flag, len, src). if null_flag \<noteq> 0 then (None, 0, null_flag) else (Some (cell_bytes len src), len, null_flag))"

text \<open>A column name is missing when there was no memory for it.\<close>

definition holds :: "CachedResult \<Rightarrow> result_data \<Rightarrow> bool" where
  "holds e d \<longleftrightarrow> col_types e = Some (d_types d) \<and> rows e = Some (map (\<lambda>r. row_of (map copied r)) (d_rows d))
     \<and> (\<exists>names. col_names e = Some names \<and> list_all2 (\<lambda>n m. m = n \<or> m = None) (d_names d) names)
     \<and> res_rows e = length (d_rows d) \<and> res_cols e = length (d_types d)"

lemma copy_cells_done: "copy_cells alloc cs n h = (True, copies, r) \<Longrightarrow> copies = map copied cs"
proof (induction cs arbitrary: n h copies r)
  case (Cons c cs)
  obtain null_flag len src where c: "c = (null_flag, len, src)" by (cases c)
  obtain got h1 where m: "malloc alloc h = (got, h1)" by (cases "malloc alloc h")
  show ?case
  proof (cases "null_flag = 0")
    case True
    obtain ok rest r' where rest: "copy_cells alloc cs (n + len + 1) h1 = (ok, rest, r')" by (metis prod_cases3)
    with Cons.prems True m have "got" "ok" "copies = (Some (cell_bytes len src), len, null_flag) # rest"
      by (auto simp: c split: if_splits)
    with Cons.IH rest True show ?thesis by (auto simp: c copied_def)
  next
    case False
    obtain ok rest r' where "copy_cells alloc cs n h = (ok, rest, r')" by (metis prod_cases3)
    with Cons.prems Cons.IH False show ?thesis by (auto simp: c copied_def)
  qed
qed simp

lemma copy_rows_done: "copy_rows alloc rs n h = (True, out, r) \<Longrightarrow> out = map (\<lambda>r. row_of (map copied r)) rs"
proof (induction rs arbitrary: n h out r)
  case (Cons x rs)
  obtain v h1 where v: "malloc alloc h = (v, h1)" by (cases "malloc alloc h")
  obtain l h2 where l: "malloc alloc h1 = (l, h2)" by (cases "malloc alloc h1")
  obtain k h3 where k: "malloc alloc h2 = (k, h3)" by (cases "malloc alloc h2")
  obtain ok copies n' h4 where c: "copy_cells alloc x n h3 = (ok, copies, n', h4)" by (metis prod_cases4)
  obtain ok' out' r' where d: "copy_rows alloc rs n' h4 = (ok', out', r')" by (metis prod_cases3)
  from Cons.prems v l k c d have ok: "ok" "ok'" "out = row_of copies # out'" by (auto split: if_splits)
  have "copies = map copied x" using copy_cells_done [of alloc x n h3] c ok(1) by simp
  moreover have "out' = map (\<lambda>r. row_of (map copied r)) rs" using Cons.IH [of n' h4] d ok(2) by simp
  ultimately show ?case using ok(3) by simp
qed simp

lemma copy_names_names: "copy_names alloc ns n h = (names, r) \<Longrightarrow> list_all2 (\<lambda>n m. m = n \<or> m = None) ns names"
proof (induction ns arbitrary: n h names r)
  case (Cons x ns)
  obtain got h1 where m: "malloc alloc h = (got, h1)" by (cases "malloc alloc h")
  show ?case
  proof (cases x)
    case None
    obtain rest r' where "copy_names alloc ns n h = (rest, r')" by (cases "copy_names alloc ns n h")
    with Cons.prems Cons.IH [of n h rest r'] None show ?thesis by auto
  next
    case (Some a)
    obtain rest r' where "copy_names alloc ns (if got then n + length a + 1 else n) h1 = (rest, r')"
      by (cases "copy_names alloc ns (if got then n + length a + 1 else n) h1")
    with Cons.prems Cons.IH [of "if got then n + length a + 1 else n" h1 rest r'] Some m show ?thesis by (auto split: if_splits)
  qed
qed simp

lemma free_data_cases:
  obtains (kept) "free_data e = (False, 0, e)" "\<not> is_active e \<or> is_referenced e"
  | (freed) "free_data e = (True, entry_free e,
        e\<lparr>col_types := None, col_names := None, rows := None, cache_key := 0, res_rows := 0, res_cols := 0\<rparr>)"
      "is_active e" "\<not> is_referenced e"
  by (cases "is_active e"; cases "is_referenced e") (auto simp: free_data_def)

lemma cleanup_partial_key: "cache_key (snd (cleanup_partial e)) = 0 \<and> res_refs (snd (cleanup_partial e)) = 0"
  by (simp add: cleanup_partial_def free_data_def is_active_def is_referenced_def)

text \<open>Filling a slot either puts the whole result there or leaves the slot empty.\<close>

lemma fill_entry_spec:
  assumes "fill_entry alloc key created d e h = (ok, e', h')" "\<not> is_active e"
  shows "if ok then holds e' d \<and> cache_key e' = key \<and> created_ms e' = created \<and> res_refs e' = 0
         else cache_key e' = 0 \<and> (e' = e \<or> res_refs e' = 0)"
proof -
  have part: "cleanup_partial x = (n, y) \<Longrightarrow> cache_key y = 0 \<and> res_refs y = 0" for x n y
    using cleanup_partial_key [of x] by simp
  have "copy_rows alloc rs n hh = (True, out, r) \<Longrightarrow> length out = length rs" for rs n hh out r
    by (drule copy_rows_done) simp
  then show ?thesis
    using assms
    by (auto simp: fill_entry_def Let_def holds_def is_active_def split: prod.splits if_splits
        dest!: copy_rows_done copy_names_names part)
qed

section \<open>The slot a store takes\<close>

definition good_choice :: "u64 \<Rightarrow> CachedResult list \<Rightarrow> slot_choice \<Rightarrow> bool" where
  "good_choice key es c \<longleftrightarrow>
     (\<forall>i. exact_match_slot c = Some i \<longrightarrow> i < length es \<and> cache_key (es ! i) = key \<and> \<not> is_referenced (es ! i))
     \<and> (\<forall>i. empty_slot c = Some i \<longrightarrow> i < length es \<and> \<not> is_active (es ! i))
     \<and> (\<forall>i. expired_slot c = Some i \<longrightarrow> i < length es \<and> \<not> is_referenced (es ! i))
     \<and> (\<forall>i. oldest_reclaimable_slot c = Some i \<longrightarrow> i < length es \<and> \<not> is_referenced (es ! i))"

lemma scan_slots_good:
  assumes "scan_slots key t (length pre) es c = Some c'" "good_choice key (pre @ es) c" "exact_match_slot c = None"
  shows "good_choice key (pre @ es) c' \<and> (exact_match_slot c' = None \<longrightarrow> (\<forall>e \<in> set es. cache_key e \<noteq> key))"
  using assms
proof (induction es arbitrary: pre c)
  case (Cons e es)
  have snoc: "scan_slots key t (length pre + 1) es c1 = Some c' \<Longrightarrow> good_choice key (pre @ e # es) c1 \<Longrightarrow> exact_match_slot c1 = None \<Longrightarrow>
      good_choice key (pre @ e # es) c' \<and> (exact_match_slot c' = None \<longrightarrow> (\<forall>e \<in> set es. cache_key e \<noteq> key))" for c1
    using Cons.IH [of "pre @ [e]" c1] by simp
  show ?case
  proof (cases "cache_key e = key")
    case True
    then show ?thesis using Cons.prems by (auto simp: good_choice_def split: if_splits)
  next
    case False
    have "good_choice key (pre @ e # es) (c\<lparr>empty_slot := get_or_insert (empty_slot c) (length pre)\<rparr>)" if "\<not> is_active e"
      using Cons.prems(2) that by (auto simp: good_choice_def get_or_insert_def split: option.splits)
    moreover have "good_choice key (pre @ e # es) (c\<lparr>expired_slot := get_or_insert (expired_slot c) (length pre)\<rparr>)" if "\<not> is_referenced e"
      using Cons.prems(2) that by (auto simp: good_choice_def get_or_insert_def split: option.splits)
    moreover have "good_choice key (pre @ e # es) (c\<lparr>oldest_reclaimable_time := created_ms e, oldest_reclaimable_slot := Some (length pre)\<rparr>)"
      if "\<not> is_referenced e" using Cons.prems(2) that by (auto simp: good_choice_def)
    ultimately show ?thesis
      using Cons.prems snoc False by (auto split: if_splits)
  qed
qed simp

lemma store_slot:
  assumes "scan_slots key t 0 es no_choice = Some c" "chosen_slot c = Some i"
  shows "i < length es \<and> (\<not> is_active (es ! i) \<or> \<not> is_referenced (es ! i))
    \<and> (cache_key (es ! i) = key \<or> (\<forall>e \<in> set es. cache_key e \<noteq> key))"
proof -
  have "good_choice key es c \<and> (exact_match_slot c = None \<longrightarrow> (\<forall>e \<in> set es. cache_key e \<noteq> key))"
    using scan_slots_good [of key t "[]" es no_choice c] assms(1) by (simp add: good_choice_def no_choice_def)
  then show ?thesis using assms(2)
    by (cases "exact_match_slot c"; cases "empty_slot c"; cases "expired_slot c")
      (auto simp: chosen_slot_def or_else_def good_choice_def)
qed

lemma store_cases:
  assumes "rust_query_cache_store alloc enabled key nr nc d t created cache w = (cache', w')"
  obtains (same) "cache' = cache"
  | (written) i e' ok where "i < length (entries cache)" "\<not> is_active (entries cache ! i) \<or> \<not> is_referenced (entries cache ! i)"
      "cache_key (entries cache ! i) = key \<or> (\<forall>e \<in> set (entries cache). cache_key e \<noteq> key)"
      "entries cache' = (entries cache)[i := e']" "key \<noteq> 0"
      "if ok then holds e' d \<and> cache_key e' = key \<and> created_ms e' = created \<and> res_refs e' = 0
       else cache_key e' = 0 \<and> (res_refs e' = res_refs (entries cache ! i) \<or> res_refs e' = 0)"
      "\<not> ok \<longrightarrow> \<not> is_active (entries cache ! i) \<longrightarrow> res_refs e' \<le> max 0 (res_refs (entries cache ! i))"
proof (cases "\<not> enabled \<or> key = 0 \<or> nc \<le> 0 \<or> QUERY_CACHE_MAX_ROWS < nr \<or> nr \<le> 0
    \<or> scan_slots key t 0 (entries cache) no_choice = None \<or> (\<exists>c. scan_slots key t 0 (entries cache) no_choice = Some c \<and> chosen_slot c = None)")
  case True
  with assms have "cache' = cache" unfolding rust_query_cache_store_def by (elim disjE exE) (simp_all split: if_splits)
  then show ?thesis by (rule same)
next
  case False
  then obtain c i where c: "scan_slots key t 0 (entries cache) no_choice = Some c" "chosen_slot c = Some i" by auto
  note slot = store_slot [OF c]
  define e where "e = entries cache ! i"
  obtain reclaimed n e1 where f: "(if is_active e then free_data e else (True, 0, e)) = (reclaimed, n, e1)" by (metis prod_cases3)
  have e1: "reclaimed \<and> \<not> is_active e1 \<and> res_refs e1 = res_refs e"
    using f slot by (cases "is_active e") (auto simp: free_data_def is_active_def e_def)
  obtain ok e2 h where fill: "fill_entry alloc key created d e1 (w, blocks cache - n) = (ok, e2, h)" by (metis prod_cases3)
  from fill_entry_spec [OF this] e1
  have spec: "if ok then holds e2 d \<and> cache_key e2 = key \<and> created_ms e2 = created \<and> res_refs e2 = 0
      else cache_key e2 = 0 \<and> (e2 = e1 \<or> res_refs e2 = 0)" by simp
  have "entries cache' = (entries cache)[i := e2]"
    using assms False c e1 fill
    by (simp add: rust_query_cache_store_def Let_def f [unfolded e_def]) (cases h, auto)
  with slot False spec e1 show ?thesis
    by (intro written [of i e2 ok]) (auto simp: e_def split: if_splits)
qed

lemma position_Some: "position P xs = Some i \<longleftrightarrow> i < length xs \<and> P (xs ! i) \<and> (\<forall>j<i. \<not> P (xs ! j))"
  by (auto simp: position_def find_Some_iff)

lemma position_None: "position P xs = None \<longleftrightarrow> (\<forall>x \<in> set xs. \<not> P x)"
  by (simp add: position_def find_None_iff all_set_conv_all_nth)

section \<open>The invariant\<close>

definition keys_distinct :: "CachedResult list \<Rightarrow> bool" where
  "keys_distinct es \<longleftrightarrow> (\<forall>i j. i < length es \<longrightarrow> j < length es \<longrightarrow> is_active (es ! i) \<longrightarrow> cache_key (es ! i) = cache_key (es ! j) \<longrightarrow> i = j)"

definition qc_ok :: "QueryCache \<Rightarrow> bool" where
  "qc_ok cache \<longleftrightarrow> length (entries cache) = QUERY_CACHE_SIZE \<and> keys_distinct (entries cache)
     \<and> (\<forall>e \<in> set (entries cache). \<not> is_active e \<longrightarrow> \<not> is_referenced e)"

lemma qc_ok_new: "qc_ok QueryCache_new"
  by (simp add: qc_ok_def QueryCache_new_def keys_distinct_def CachedResult_empty_def is_active_def is_referenced_def)

lemma keys_distinct_update:
  assumes "keys_distinct es" "i < length es"
    and "cache_key e = 0 \<or> cache_key e = cache_key (es ! i) \<or> (\<forall>x \<in> set es. cache_key x \<noteq> cache_key e)"
  shows "keys_distinct (es[i := e])"
  unfolding keys_distinct_def
proof (intro allI impI)
  fix a b assume ab: "a < length (es[i := e])" "b < length (es[i := e])" "is_active (es[i := e] ! a)"
    "cache_key (es[i := e] ! a) = cache_key (es[i := e] ! b)"
  have old: "a = b" if "a < length es" "b < length es" "cache_key (es ! a) = cache_key (es ! b)" "cache_key (es ! a) \<noteq> 0" for a b
    using assms(1) that by (simp add: keys_distinct_def is_active_def)
  have new: "cache_key (es ! b) \<noteq> cache_key e" if "b < length es" "b \<noteq> i" "cache_key e \<noteq> 0" for b
    using assms(2,3) that old [of b i] nth_mem [OF that(1)] by auto
  show "a = b"
    using ab old [of a b] new [of a] new [of b] by (cases "a = i"; cases "b = i") (auto simp: is_active_def)
qed

lemma qc_ok_update:
  assumes "qc_ok cache" "i < length (entries cache)" "entries cache' = (entries cache)[i := e]"
    and "cache_key e = 0 \<or> cache_key e = cache_key (entries cache ! i) \<or> (\<forall>x \<in> set (entries cache). cache_key x \<noteq> cache_key e)"
    and "\<not> is_active e \<longrightarrow> \<not> is_referenced e"
  shows "qc_ok cache'"
proof -
  have "set ((entries cache)[i := e]) \<subseteq> insert e (set (entries cache))" by (rule set_update_subset_insert)
  then show ?thesis
    using assms keys_distinct_update [of "entries cache" i e] unfolding qc_ok_def by auto
qed

text \<open>Every call changes at most one entry, in one of these ways.\<close>

inductive entry_step :: "qc_op \<Rightarrow> CachedResult list \<Rightarrow> CachedResult list \<Rightarrow> bool" where
  es_same: "\<forall>key. oper = Invalidate key \<longrightarrow> (\<forall>e \<in> set es. is_active e \<longrightarrow> cache_key e \<noteq> key) \<Longrightarrow> entry_step oper es es"
| es_recount: "i < length es \<Longrightarrow> oper = Release i \<or> res_refs (es ! i) \<le> n \<and> is_active (es ! i) \<Longrightarrow> n \<le> res_refs (es ! i) \<or> is_active (es ! i) \<Longrightarrow>
    \<forall>key. oper \<noteq> Invalidate key \<Longrightarrow> entry_step oper es (es[i := (es ! i)\<lparr>res_refs := n, hit_count := m\<rparr>])"
| es_freed: "i < length es \<Longrightarrow> \<not> is_referenced (es ! i) \<Longrightarrow> is_active (es ! i) \<Longrightarrow>
    \<forall>key. oper = Invalidate key \<longrightarrow> cache_key (es ! i) = key \<Longrightarrow> entry_step oper es (es[i := snd (snd (free_data (es ! i)))])"
| es_expired: "i < length es \<Longrightarrow> is_active (es ! i) \<Longrightarrow> entry_step (Invalidate (cache_key (es ! i))) es (es[i := (es ! i)\<lparr>created_ms := 0\<rparr>])"
| es_stored: "i < length es \<Longrightarrow> key \<noteq> 0 \<Longrightarrow> \<not> is_referenced (es ! i) \<Longrightarrow>
    holds e d \<and> cache_key e = key \<and> created_ms e = created \<and> res_refs e = 0 \<Longrightarrow>
    cache_key (es ! i) = key \<or> (\<forall>x \<in> set es. cache_key x \<noteq> key) \<Longrightarrow> entry_step (Store key d t created) es (es[i := e])"
| es_emptied: "i < length es \<Longrightarrow> \<not> is_referenced (es ! i) \<Longrightarrow> cache_key e = 0 \<Longrightarrow> \<not> is_referenced e \<Longrightarrow>
    entry_step (Store key d t created) es (es[i := e])"

lemma lookup_entry_step:
  "entry_step (Lookup key t) (entries cache) (entries (snd (rust_query_cache_lookup True key t cache)))"
proof (cases "key = 0 \<or> position (\<lambda>e. cache_key e = key) (entries cache) = None")
  case True
  then have "entries (snd (rust_query_cache_lookup True key t cache)) = entries cache" by (auto simp: rust_query_cache_lookup_def)
  then show ?thesis by (simp add: es_same)
next
  case False
  then obtain i where p: "position (\<lambda>e. cache_key e = key) (entries cache) = Some i" and key: "key \<noteq> 0" by auto
  let ?e = "entries cache ! i"
  have i: "i < length (entries cache)" "cache_key ?e = key" using p by (simp_all add: position_Some)
  then have act: "is_active ?e" using key by (simp add: is_active_def)
  show ?thesis
  proof (cases "entry_age t ?e < QUERY_CACHE_TTL_MS")
    case True
    then show ?thesis using p key i act by (simp add: rust_query_cache_lookup_def Let_def es_recount)
  next
    case False
    then have eq: "entries (snd (rust_query_cache_lookup True key t cache)) = (entries cache)[i := snd (snd (free_data ?e))]"
      using p key by (simp add: rust_query_cache_lookup_def split_beta Let_def)
    show ?thesis
    proof (cases "is_referenced ?e")
      case True
      then have "snd (snd (free_data ?e)) = ?e" by (simp add: free_data_def)
      then show ?thesis using eq es_same [of "Lookup key t" "entries cache"] by simp
    qed (use eq i act es_freed in auto)
  qed
qed

lemma invalidate_entry_step:
  "entry_step (Invalidate key) (entries cache) (entries (rust_query_cache_invalidate True key cache))"
proof (cases "key = 0 \<or> position (\<lambda>e. cache_key e = key) (entries cache) = None")
  case True
  then have "entries (rust_query_cache_invalidate True key cache) = entries cache" by (auto simp: rust_query_cache_invalidate_def)
  moreover have "\<forall>e \<in> set (entries cache). is_active e \<longrightarrow> cache_key e \<noteq> key" using True by (auto simp: position_None is_active_def)
  ultimately show ?thesis by (simp add: es_same)
next
  case False
  then obtain i where p: "position (\<lambda>e. cache_key e = key) (entries cache) = Some i" and key: "key \<noteq> 0" by auto
  let ?e = "entries cache ! i"
  have i: "i < length (entries cache)" "cache_key ?e = key" using p by (simp_all add: position_Some)
  then have act: "is_active ?e" using key by (simp add: is_active_def)
  show ?thesis
  proof (cases "is_referenced ?e")
    case True
    then have "entries (rust_query_cache_invalidate True key cache) = (entries cache)[i := ?e\<lparr>created_ms := 0\<rparr>]"
      using p key act by (simp add: rust_query_cache_invalidate_def free_data_def mark_expired_def)
    then show ?thesis using es_expired [OF i(1) act] i(2) by simp
  next
    case False
    then have "entries (rust_query_cache_invalidate True key cache) = (entries cache)[i := snd (snd (free_data ?e))]"
      using p key act by (simp add: rust_query_cache_invalidate_def free_data_def)
    then show ?thesis using es_freed [OF i(1) False act] i(2) by simp
  qed
qed

lemma store_entry_step:
  assumes "qc_ok cache" "rust_query_cache_store alloc True key nr nc d t created cache w = (cache', w')"
  shows "entry_step (Store key d t created) (entries cache) (entries cache')"
  using assms(2)
proof (cases rule: store_cases)
  case same
  then show ?thesis by (simp add: es_same)
next
  case (written i e' ok)
  then have free: "\<not> is_referenced (entries cache ! i)" using assms(1) by (auto simp: qc_ok_def)
  show ?thesis
  proof (cases ok)
    case True
    then show ?thesis using written free by (simp add: es_stored)
  next
    case False
    then have "\<not> is_referenced e'" using written free by (auto simp: is_referenced_def)
    then show ?thesis using written free False by (simp add: es_emptied)
  qed
qed

lemma qc_step_entries:
  assumes "qc_ok cache" "qc_step alloc oper (cache, w) = (cache', w')" "\<forall>i. oper = Release i \<longrightarrow> i < QUERY_CACHE_SIZE"
  shows "entry_step oper (entries cache) (entries cache')"
proof (cases oper)
  case (Lookup key t)
  then show ?thesis using assms(2) lookup_entry_step [of key t cache] by (auto simp: qc_step_def)
next
  case (Store key d t created)
  then show ?thesis using assms store_entry_step by (auto simp: qc_step_def)
next
  case (Invalidate key)
  then show ?thesis using assms(2) invalidate_entry_step [of key cache] by (auto simp: qc_step_def)
next
  case (Release i)
  let ?e = "entries cache ! i"
  have "?e\<lparr>res_refs := res_refs ?e - 1\<rparr> = ?e\<lparr>res_refs := res_refs ?e - 1, hit_count := hit_count ?e\<rparr>" by simp
  then show ?thesis
    using assms Release es_recount [of i "entries cache" oper "res_refs ?e - 1" "hit_count ?e"]
    by (auto simp: qc_step_def rust_query_cache_release_def qc_ok_def)
qed

lemma entry_step_ok:
  assumes "qc_ok cache" "entry_step oper (entries cache) (entries cache')"
  shows "qc_ok cache'"
  using assms(2)
proof cases
  case es_same
  then show ?thesis using assms(1) by (simp add: qc_ok_def)
next
  case (es_recount i n m)
  then show ?thesis
    using assms(1) by (intro qc_ok_update [OF assms(1) es_recount(2,1)]) (auto simp: qc_ok_def is_active_def is_referenced_def)
next
  case (es_freed i)
  then show ?thesis
    by (intro qc_ok_update [OF assms(1) es_freed(2,1)]) (auto simp: free_data_def is_active_def is_referenced_def)
next
  case (es_expired i)
  then show ?thesis by (intro qc_ok_update [OF assms(1) es_expired(3,2)]) (auto simp: is_active_def)
next
  case (es_stored i key e d created t)
  then show ?thesis by (intro qc_ok_update [OF assms(1) es_stored(3,2)]) (auto simp: is_active_def is_referenced_def)
next
  case (es_emptied i e key d t created)
  then show ?thesis by (intro qc_ok_update [OF assms(1) es_emptied(3,2)]) (auto simp: is_active_def)
qed

lemma qc_run_snoc: "qc_run alloc (opers @ [oper]) s = qc_step alloc oper (qc_run alloc opers s)"
  by (simp add: qc_run_def)

text \<open>Only entries of the cache are released.\<close>

definition releases_entries :: "qc_op list \<Rightarrow> bool" where
  "releases_entries opers \<longleftrightarrow> (\<forall>i. Release i \<in> set opers \<longrightarrow> i < QUERY_CACHE_SIZE)"

lemma releases_snoc: "releases_entries (opers @ [oper]) \<longleftrightarrow> releases_entries opers \<and> (\<forall>i. oper = Release i \<longrightarrow> i < QUERY_CACHE_SIZE)"
  by (auto simp: releases_entries_def)

section \<open>A hit is fresh\<close>

text \<open>Where the contents of an entry come from: the last store of its key, with no invalidation since.\<close>

definition stored_by :: "qc_op list \<Rightarrow> CachedResult \<Rightarrow> bool" where
  "stored_by opers e \<longleftrightarrow> created_ms e = 0
     \<or> (\<exists>pre post d t. opers = pre @ Store (cache_key e) d t (created_ms e) # post \<and> Invalidate (cache_key e) \<notin> set post \<and> holds e d)"

lemma stored_by_snoc:
  assumes "stored_by opers e" "oper \<noteq> Invalidate (cache_key e)"
  shows "stored_by (opers @ [oper]) e"
proof (cases "created_ms e = 0")
  case False
  then obtain pre post d t where "opers = pre @ Store (cache_key e) d t (created_ms e) # post" "Invalidate (cache_key e) \<notin> set post" "holds e d"
    using assms(1) by (auto simp: stored_by_def)
  then have "opers @ [oper] = pre @ Store (cache_key e) d t (created_ms e) # (post @ [oper])" "Invalidate (cache_key e) \<notin> set (post @ [oper])" "holds e d"
    using assms(2) by auto
  then show ?thesis unfolding stored_by_def by blast
qed (simp add: stored_by_def)

lemma stored_by_recount: "stored_by opers (e\<lparr>res_refs := n, hit_count := m\<rparr>) = stored_by opers e"
  by (simp add: stored_by_def holds_def)

lemma entry_step_stored_by:
  assumes ok: "keys_distinct es" and all: "\<forall>e \<in> set es. is_active e \<longrightarrow> stored_by opers e" and step: "entry_step oper es es'"
  shows "\<forall>e \<in> set es'. is_active e \<longrightarrow> stored_by (opers @ [oper]) e"
proof -
  have keep: "stored_by (opers @ [oper]) (es ! j)" if "j < length es" "is_active (es ! j)" "oper \<noteq> Invalidate (cache_key (es ! j))" for j
    using all that stored_by_snoc by auto
  have upd: "\<forall>e \<in> set (es[i := x]). is_active e \<longrightarrow> stored_by (opers @ [oper]) e"
    if "is_active x \<longrightarrow> stored_by (opers @ [oper]) x"
      and "\<And>j. j < length es \<Longrightarrow> j \<noteq> i \<Longrightarrow> is_active (es ! j) \<Longrightarrow> oper \<noteq> Invalidate (cache_key (es ! j))" for i x
  proof
    fix e assume "e \<in> set (es[i := x])"
    then obtain j where "j < length es" "e = es[i := x] ! j" by (auto simp: in_set_conv_nth)
    with that keep show "is_active e \<longrightarrow> stored_by (opers @ [oper]) e" by (cases "j = i") auto
  qed
  have uniq: "j = i" if "i < length es" "j < length es" "is_active (es ! j)" "cache_key (es ! j) = cache_key (es ! i)" for i j
    using ok that unfolding keys_distinct_def by metis
  from step show ?thesis
  proof cases
    case es_same
    then show ?thesis using all stored_by_snoc by metis
  next
    case (es_recount i n m)
    show ?thesis unfolding es_recount(1)
      using es_recount keep [of i] by (intro upd) (auto simp: stored_by_recount is_active_def)
  next
    case (es_freed i)
    show ?thesis unfolding es_freed(1)
      using es_freed uniq by (intro upd) (auto simp: free_data_def is_active_def)
  next
    case (es_expired i)
    show ?thesis unfolding es_expired(2)
      using es_expired uniq by (intro upd) (auto simp: stored_by_def)
  next
    case (es_stored i key e d created t)
    have "stored_by (opers @ [oper]) e"
      unfolding stored_by_def using es_stored by (intro disjI2 exI [of _ opers] exI [of _ "[]"] exI [of _ d] exI [of _ t]) simp
    then show ?thesis unfolding es_stored(2) using es_stored(1) by (intro upd) auto
  next
    case (es_emptied i e key d t created)
    show ?thesis unfolding es_emptied(2) using es_emptied by (intro upd) (auto simp: is_active_def)
  qed
qed

lemma qc_run_inv:
  assumes "releases_entries opers" "qc_run alloc opers (QueryCache_new, w) = (cache, w')"
  shows "qc_ok cache \<and> (\<forall>e \<in> set (entries cache). is_active e \<longrightarrow> stored_by opers e)"
  using assms
proof (induction opers arbitrary: cache w' rule: rev_induct)
  case Nil
  then show ?case using qc_ok_new by (auto simp: qc_run_def QueryCache_new_def CachedResult_empty_def is_active_def)
next
  case (snoc oper opers)
  obtain c1 w1 where r: "qc_run alloc opers (QueryCache_new, w) = (c1, w1)" by fastforce
  then have inv: "qc_ok c1" "\<forall>e \<in> set (entries c1). is_active e \<longrightarrow> stored_by opers e" using snoc by (auto simp: releases_snoc)
  have step: "entry_step oper (entries c1) (entries cache)"
    using snoc.prems r by (intro qc_step_entries [OF inv(1)]) (auto simp: qc_run_snoc releases_snoc)
  show ?case using entry_step_ok [OF inv(1) step] entry_step_stored_by [OF _ inv(2) step] inv(1) by (simp add: qc_ok_def)
qed

text \<open>
  C24. A cached answer is one the server gave for this key: after any sequence of lookups,
  stores, invalidations and releases, a hit hands out the result of a store of that very key,
  made less than a second before by the clock, whose key has not been invalidated since.
\<close>

theorem query_cache_fresh:
  assumes "releases_entries opers" and "qc_run alloc opers (QueryCache_new, w) = (cache, w')"
    and "rust_query_cache_lookup True key t cache = (Some i, cache')" and "QUERY_CACHE_TTL_MS \<le> t"
  shows "\<exists>pre post d t0 created. opers = pre @ Store key d t0 created # post \<and> Invalidate key \<notin> set post
    \<and> t - created < QUERY_CACHE_TTL_MS \<and> holds (entries cache' ! i) d"
proof -
  have inv: "\<forall>e \<in> set (entries cache). is_active e \<longrightarrow> stored_by opers e" using qc_run_inv [OF assms(1,2)] by simp
  let ?e = "entries cache ! i"
  have key: "key \<noteq> 0" using assms(3) by (auto simp: rust_query_cache_lookup_def)
  have hit: "i < length (entries cache)" "cache_key ?e = key" "t - created_ms ?e < QUERY_CACHE_TTL_MS"
    and eq: "entries cache' = (entries cache)[i := ?e\<lparr>res_refs := res_refs ?e + 1, hit_count := hit_count ?e + 1\<rparr>]"
    using assms(3) key
    by (auto simp: rust_query_cache_lookup_def position_Some entry_age_def Let_def split: option.splits if_splits prod.splits)
  then have "stored_by opers ?e" using inv key by (auto simp: is_active_def)
  moreover have "created_ms ?e \<noteq> 0" using hit(3) assms(4) by auto
  ultimately obtain pre post d t0 where s: "opers = pre @ Store key d t0 (created_ms ?e) # post" "Invalidate key \<notin> set post" "holds ?e d"
    using hit(2) by (auto simp: stored_by_def)
  have "holds (entries cache' ! i) d" using s(3) hit(1) eq by (simp add: holds_def)
  with s hit(3) show ?thesis by blast
qed

section \<open>A result that is being read\<close>

definition same_contents :: "CachedResult \<Rightarrow> CachedResult \<Rightarrow> bool" where
  "same_contents e e' \<longleftrightarrow> cache_key e' = cache_key e \<and> col_types e' = col_types e \<and> col_names e' = col_names e \<and> rows e' = rows e
     \<and> res_rows e' = res_rows e \<and> res_cols e' = res_cols e"

lemma entry_step_stable:
  assumes "entry_step oper es es'" "is_referenced (es ! i)" "oper \<noteq> Release i"
  shows "same_contents (es ! i) (es' ! i) \<and> res_refs (es ! i) \<le> res_refs (es' ! i)"
  using assms
proof cases
  case (es_recount j n m)
  then show ?thesis using assms(3) by (cases "j = i") (auto simp: same_contents_def)
next
  case (es_freed j)
  then show ?thesis using assms(2) by (cases "j = i") (auto simp: same_contents_def)
next
  case (es_expired j)
  then show ?thesis by (cases "j = i") (auto simp: same_contents_def)
next
  case (es_stored j key e d created t)
  then show ?thesis using assms(2) by (cases "j = i") (auto simp: same_contents_def)
next
  case (es_emptied j e key d t created)
  then show ?thesis using assms(2) by (cases "j = i") (auto simp: same_contents_def)
qed (simp add: same_contents_def)

lemma qc_run_stable:
  assumes "qc_ok cache" "releases_entries opers" "Release i \<notin> set opers" "is_referenced (entries cache ! i)" "qc_run alloc opers (cache, w) = (cache', w')"
  shows "same_contents (entries cache ! i) (entries cache' ! i) \<and> is_referenced (entries cache' ! i) \<and> qc_ok cache'"
  using assms(2,3,5)
proof (induction opers arbitrary: cache' w' rule: rev_induct)
  case Nil
  then show ?case using assms(1,4) by (simp add: qc_run_def same_contents_def)
next
  case (snoc oper opers)
  obtain c1 w1 where r: "qc_run alloc opers (cache, w) = (c1, w1)" by fastforce
  then have IH: "same_contents (entries cache ! i) (entries c1 ! i)" "is_referenced (entries c1 ! i)" "qc_ok c1"
    using snoc by (auto simp: releases_snoc)
  have step: "entry_step oper (entries c1) (entries cache')"
    using snoc.prems r by (intro qc_step_entries [OF IH(3)]) (auto simp: qc_run_snoc releases_snoc)
  show ?case
    using IH entry_step_stable [OF step IH(2)] entry_step_ok [OF IH(3) step] snoc.prems(2)
    by (auto simp: same_contents_def is_referenced_def)
qed

text \<open>
  C25. A result that a statement is reading is not pulled from under it: while the statement
  holds its reference, no lookup, store, eviction or invalidation, and no release by another
  holder of another entry, changes or frees the data, and the entry keeps its key.
\<close>

theorem cached_result_stable:
  assumes "releases_entries pre" and "qc_run alloc pre (QueryCache_new, w) = (cache, w1)" and "is_referenced (entries cache ! i)"
    and "releases_entries post" and "Release i \<notin> set post" and "qc_run alloc post (cache, w1) = (cache', w')"
  shows "same_contents (entries cache ! i) (entries cache' ! i) \<and> is_referenced (entries cache' ! i)"
proof -
  have "qc_ok cache" using qc_run_inv [OF assms(1,2)] by simp
  from qc_run_stable [OF this assms(4,5,3,6)] show ?thesis by simp
qed

section \<open>The key\<close>

text \<open>A statement with more parameters than the limit is keyed by the first ones alone.\<close>

lemma key_ignores_later_params:
  assumes "take MAX_PARAMS vs = take MAX_PARAMS vs'" "length vs = length vs'"
  shows "rust_query_cache_key True (Some sql) (Some vs) (int (length vs)) = rust_query_cache_key True (Some sql) (Some vs') (int (length vs'))"
proof -
  have "take (min (length vs) MAX_PARAMS) vs = take (min (length vs') MAX_PARAMS) vs'" using assms by (metis take_take)
  then show ?thesis by (simp add: rust_query_cache_key_def Let_def)
qed

lemma fnv1a_hash_slice_eq: "fnv1a_hash_slice s = fnv1a_str s"
proof -
  have "(\<lambda>byte hash. (hash XOR of_nat (char_code byte)) * fnv_prime) = fnv_step" by (simp add: fun_eq_iff fnv_step_def)
  then show ?thesis by (simp add: fnv1a_hash_slice_def fnv1a_str_def)
qed

lemma mix_param_inject: "mix_param p h = mix_param p h' \<Longrightarrow> h = h'"
proof -
  have "h = h'" if "h XOR x = h' XOR x" for x :: u64
    using that xor_word_cancel [of x h h'] by (simp add: xor.commute)
  then show "mix_param p h = mix_param p h' \<Longrightarrow> h = h'"
    by (cases p) (auto simp: mix_param_def dest!: fnv_mult_inject)
qed

lemma fold_mix_inject: "fold mix_param ps h = fold mix_param ps h' \<Longrightarrow> h = h'"
  by (induction ps arbitrary: h h') (auto dest: mix_param_inject)

definition param_hash :: "string option \<Rightarrow> u64" where
  "param_hash p = (case p of None \<Rightarrow> 0xDEADBEEF | Some v \<Rightarrow> fnv1a_str v)"

lemma mix_param_hash: "mix_param p h = (h XOR param_hash p) * fnv_prime"
  by (simp add: mix_param_def param_hash_def fnv1a_hash_slice_eq split: option.splits)

text \<open>
  The key tells apart two executions of a statement whose parameters differ in one place,
  by as little as the hash of that parameter: every later round of the hash is injective.
\<close>

lemma cache_key_one_param_differs:
  assumes "sql \<noteq> []" and "length ps + length qs < MAX_PARAMS" and "param_hash p \<noteq> param_hash q"
  shows "rust_query_cache_key True (Some sql) (Some (ps @ p # qs)) (int (length (ps @ p # qs)))
    \<noteq> rust_query_cache_key True (Some sql) (Some (ps @ q # qs)) (int (length (ps @ q # qs)))"
proof
  let ?h = "fold mix_param ps (fnv1a_hash_slice sql)"
  assume "rust_query_cache_key True (Some sql) (Some (ps @ p # qs)) (int (length (ps @ p # qs)))
    = rust_query_cache_key True (Some sql) (Some (ps @ q # qs)) (int (length (ps @ q # qs)))"
  then have "fold mix_param qs (mix_param p ?h) = fold mix_param qs (mix_param q ?h)"
    using assms(1,2) by (simp add: rust_query_cache_key_def compute_cache_key_def Let_def min_def split: if_splits)
  then have "mix_param p ?h = mix_param q ?h" by (rule fold_mix_inject)
  then have "?h XOR param_hash p = ?h XOR param_hash q" unfolding mix_param_hash by (rule fnv_mult_inject)
  then have "param_hash p = param_hash q" by (rule xor_word_cancel)
  with assms(3) show False ..
qed

end
