(* ===== verification/Pg_Stmt.thy ===== *)
theory Pg_Stmt
  imports Sessions Query_Cache
begin

text \<open>
  The statement objects of the shim (\<^verbatim>\<open>ffi_types.rs\<close>, \<open>PgStmt\<close>) and their life:
  creation (\<^verbatim>\<open>pg_statement/stmt_factory.rs\<close>), the registry from SQLite statements to them
  (\<^verbatim>\<open>registry.rs\<close>, \<^verbatim>\<open>registry_api.rs\<close>), the per-thread cache (\<^verbatim>\<open>tls_cache.rs\<close>,
  \<^verbatim>\<open>tls_cache_api.rs\<close>), the release of a result and of the whole object
  (\<^verbatim>\<open>stmt_lifecycle.rs\<close>, \<^verbatim>\<open>stmt_support.rs\<close>).

  A statement object is counted by references like a connection, holds up to three
  connections, a libpq result or an entry of the result cache, and blocks of the C heap:
  its SQL, the heap-allocated parameters, names and decoded columns. All of these are explicit
  here: \<open>stmts\<close> are the allocated objects, \<open>c_heap\<close> the allocated blocks with their text, and
  freeing a block that is not allocated is a fault. The buffers of the parameters are in
  \<open>c_heap\<close> as well, address by address, since the code tells a value in one of them from a
  value on the heap by its address alone.
\<close>

section \<open>The statement object\<close>

definition PARAM_BUF_LEN :: nat where "PARAM_BUF_LEN = 32"

text \<open>
  A pointer to an array of C strings is \<open>None\<close> when null, else the array's address and
  elements. A parameter's preallocated buffer is so many bytes of the object's own memory, from
  its address on; the heap below has its text under the first. An entry of the result cache
  is the thread that owns it and its index.
\<close>

record PgStmt =
  stmt_refs :: int
  stmt_conn :: ptr
  shadow_stmt :: ptr
  stmt_sql :: ptr
  stmt_pg_sql :: ptr
  stmt_result :: ptr
  cached_result :: "(tid \<times> nat) option"
  sql_hash :: u64
  stmt_name :: string
  use_prepared :: int
  current_row :: int
  num_rows :: int
  num_cols :: int
  is_pg :: int
  is_cached :: int
  is_count_query :: int
  needs_requery :: int
  write_executed :: int
  read_done :: int
  metadata_only_result :: int
  in_step :: int
  executing_thread :: tid
  result_conn :: ptr
  stmt_col_names :: "(ptr \<times> ptr list) option"
  num_col_names :: int
  streaming_mode :: int
  streaming_conn :: ptr
  param_values :: "ptr list"
  param_lengths :: "int list"
  param_formats :: "int list"
  param_buffers :: "ptr list"
  param_count :: int
  param_names :: "(ptr \<times> ptr list) option"
  decoded_blobs :: "ptr list"
  decoded_blob_lens :: "int list"
  decoded_blob_row :: int
  cached_text :: "ptr list"
  cached_blob :: "ptr list"
  cached_blob_len :: "int list"
  cached_row :: int
  col_table_names :: "ptr list"
  col_tables_resolved :: int

definition PgStmt_new :: PgStmt where
  "PgStmt_new =
     \<lparr>stmt_refs = 0, stmt_conn = 0, shadow_stmt = 0, stmt_sql = 0, stmt_pg_sql = 0, stmt_result = 0,
      cached_result = None, sql_hash = 0, stmt_name = [], use_prepared = 0, current_row = 0, num_rows = 0,
      num_cols = 0, is_pg = 0, is_cached = 0, is_count_query = 0, needs_requery = 0, write_executed = 0,
      read_done = 0, metadata_only_result = 0, in_step = 0, executing_thread = 0, result_conn = 0,
      stmt_col_names = None, num_col_names = 0, streaming_mode = 0, streaming_conn = 0,
      param_values = [], param_lengths = [], param_formats = [], param_buffers = [], param_count = 0,
      param_names = None, decoded_blobs = [], decoded_blob_lens = [], decoded_blob_row = -1,
      cached_text = [], cached_blob = [], cached_blob_len = [], cached_row = -1, col_table_names = [],
      col_tables_resolved = 0\<rparr>"

text \<open>\<open>Vec::resize\<close> to a larger length.\<close>

definition grow :: "nat \<Rightarrow> 'a \<Rightarrow> 'a list \<Rightarrow> 'a list" where
  "grow n x xs = xs @ replicate (n - length xs) x"

text \<open>
  The buffers a \<open>resize\<close> adds are new memory, at addresses \<open>fresh\<close>; the old ones are taken to
  stay where they are, since the function is called once, when there are none.
\<close>

definition ensure_param_capacity :: "ptr list \<Rightarrow> nat \<Rightarrow> PgStmt \<Rightarrow> PgStmt" where
  "ensure_param_capacity fresh n s =
     (if length (param_values s) < n
      then s\<lparr>param_values := grow n 0 (param_values s), param_lengths := grow n 0 (param_lengths s),
             param_formats := grow n 0 (param_formats s),
             param_buffers := param_buffers s @ take (n - length (param_buffers s)) fresh\<rparr>
      else s)"

definition ensure_column_capacity :: "nat \<Rightarrow> PgStmt \<Rightarrow> PgStmt" where
  "ensure_column_capacity n s =
     (let s = (if length (decoded_blobs s) < n
               then s\<lparr>decoded_blobs := grow n 0 (decoded_blobs s), decoded_blob_lens := grow n 0 (decoded_blob_lens s)\<rparr>
               else s);
          s = (if length (cached_text s) < n
               then s\<lparr>cached_text := grow n 0 (cached_text s), cached_blob := grow n 0 (cached_blob s),
                      cached_blob_len := grow n 0 (cached_blob_len s)\<rparr>
               else s)
      in if length (col_table_names s) < n then s\<lparr>col_table_names := grow n 0 (col_table_names s)\<rparr> else s)"

definition is_preallocated_buffer :: "PgStmt \<Rightarrow> nat \<Rightarrow> bool" where
  "is_preallocated_buffer s i \<longleftrightarrow>
     i < length (param_values s) \<and> i < length (param_buffers s)
     \<and> \<not> is_null (param_values s ! i)
     \<and> param_buffers s ! i \<le> param_values s ! i \<and> param_values s ! i < param_buffers s ! i + PARAM_BUF_LEN"

abbreviation buffer_cells :: "PgStmt \<Rightarrow> ptr list" where
  "buffer_cells s \<equiv> concat (map (\<lambda>b. [b..<b + PARAM_BUF_LEN]) (param_buffers s))"

definition set_conn :: "ptr \<Rightarrow> PgStmt \<Rightarrow> 'w shim \<Rightarrow> (PgStmt \<times> 'w shim) option" where
  "set_conn conn s S = do { (p, S) \<leftarrow> replace_conn (stmt_conn s) conn S; Some (s\<lparr>stmt_conn := p\<rparr>, S) }"

definition set_result_conn :: "ptr \<Rightarrow> PgStmt \<Rightarrow> 'w shim \<Rightarrow> (PgStmt \<times> 'w shim) option" where
  "set_result_conn conn s S = do { (p, S) \<leftarrow> replace_conn (result_conn s) conn S; Some (s\<lparr>result_conn := p\<rparr>, S) }"

definition set_streaming_conn :: "ptr \<Rightarrow> PgStmt \<Rightarrow> 'w shim \<Rightarrow> (PgStmt \<times> 'w shim) option" where
  "set_streaming_conn conn s S = do { (p, S) \<leftarrow> replace_conn (streaming_conn s) conn S; Some (s\<lparr>streaming_conn := p\<rparr>, S) }"

definition release_conns :: "PgStmt \<Rightarrow> 'w shim \<Rightarrow> (PgStmt \<times> 'w shim) option" where
  "release_conns s S =
     do {
       (s, S) \<leftarrow> set_conn 0 s S;
       (s, S) \<leftarrow> set_result_conn 0 s S;
       set_streaming_conn 0 s S
     }"

section \<open>The C heap\<close>

type_synonym c_blocks = "ptr \<rightharpoonup> string"

definition c_free :: "ptr \<Rightarrow> c_blocks \<Rightarrow> c_blocks option" where
  "c_free p B = (if is_null p then Some B else if B p = None then None else Some (B(p := None)))"

text \<open>What goes with the object itself when it is dropped.\<close>

definition drop_cells :: "ptr list \<Rightarrow> c_blocks \<Rightarrow> c_blocks" where
  "drop_cells ps B = B |` (- set ps)"

text \<open>A loop that frees the non-null elements of an array and nulls them.\<close>

fun free_ptrs :: "ptr list \<Rightarrow> c_blocks \<Rightarrow> (ptr list \<times> c_blocks) option" where
  "free_ptrs [] B = Some ([], B)"
| "free_ptrs (p # ps) B =
     do {
       B \<leftarrow> c_free p B;
       (ps, B) \<leftarrow> free_ptrs ps B;
       Some (0 # ps, B)
     }"

text \<open>The same where some elements, marked, are not on the heap and stay.\<close>

fun free_unmarked :: "(bool \<times> ptr) list \<Rightarrow> c_blocks \<Rightarrow> (ptr list \<times> c_blocks) option" where
  "free_unmarked [] B = Some ([], B)"
| "free_unmarked ((keep, p) # ps) B =
     (if keep then do { (ps, B) \<leftarrow> free_unmarked ps B; Some (p # ps, B) }
      else do {
        B \<leftarrow> c_free p B;
        (ps, B) \<leftarrow> free_unmarked ps B;
        Some (0 # ps, B)
      })"

text \<open>The lengths beside an array of blocks: zeroed where there was a block. Out of range is a panic.\<close>

fun zero_lens :: "ptr list \<Rightarrow> int list \<Rightarrow> int list option" where
  "zero_lens [] ls = Some ls"
| "zero_lens (p # ps) [] = (if is_null p then zero_lens ps [] else None)"
| "zero_lens (p # ps) (l # ls) = do { ls \<leftarrow> zero_lens ps ls; Some ((if is_null p then l else 0) # ls) }"

definition marked_params :: "PgStmt \<Rightarrow> (bool \<times> ptr) list" where
  "marked_params s = map (\<lambda>i. (is_preallocated_buffer s i, param_values s ! i)) [0..<length (param_values s)]"

definition clear_dynamic_param_values :: "PgStmt \<Rightarrow> c_blocks \<Rightarrow> (PgStmt \<times> c_blocks) option" where
  "clear_dynamic_param_values s B =
     do { (vs, B) \<leftarrow> free_unmarked (marked_params s) B; Some (s\<lparr>param_values := vs\<rparr>, B) }"

definition safe_param_count :: "PgStmt \<Rightarrow> nat" where
  "safe_param_count s = min (nat (param_count s)) (length (param_values s))"

text \<open>The first \<open>n\<close> elements of an array of strings and then the array; reading past its end is a fault.\<close>

definition free_names :: "nat \<Rightarrow> (ptr \<times> ptr list) option \<Rightarrow> c_blocks \<Rightarrow> c_blocks option" where
  "free_names n names B =
     (case names of
        None \<Rightarrow> Some B
      | Some (arr, ns) \<Rightarrow>
          if length ns < n then None
          else do { (_, B) \<leftarrow> free_ptrs (take n ns) B; c_free arr B })"

definition free_col_names :: "PgStmt \<Rightarrow> c_blocks \<Rightarrow> (PgStmt \<times> c_blocks) option" where
  "free_col_names s B =
     (if stmt_col_names s = None then Some (s, B)
      else do {
        B \<leftarrow> free_names (nat (num_col_names s)) (stmt_col_names s) B;
        Some (s\<lparr>stmt_col_names := None, num_col_names := 0\<rparr>, B)
      })"

text \<open>The blocks only the end of the object frees: SQL, parameters, parameter names, table names.\<close>

definition free_sql :: "PgStmt \<Rightarrow> c_blocks \<Rightarrow> (PgStmt \<times> c_blocks) option" where
  "free_sql s B =
     (let pg_sql_is_separate = (\<not> is_null (stmt_pg_sql s) \<and> stmt_pg_sql s \<noteq> stmt_sql s) in
      do {
        B \<leftarrow> c_free (stmt_sql s) B;
        let s = s\<lparr>stmt_sql := 0\<rparr>;
        if pg_sql_is_separate
        then do { B \<leftarrow> c_free (stmt_pg_sql s) B; Some (s\<lparr>stmt_pg_sql := 0\<rparr>, B) }
        else Some (s, B)
      })"

definition free_param_names :: "nat \<Rightarrow> PgStmt \<Rightarrow> c_blocks \<Rightarrow> (PgStmt \<times> c_blocks) option" where
  "free_param_names n s B =
     do { B \<leftarrow> free_names n (param_names s) B; Some (s\<lparr>param_names := None\<rparr>, B) }"

definition free_table_names :: "PgStmt \<Rightarrow> c_blocks \<Rightarrow> (PgStmt \<times> c_blocks) option" where
  "free_table_names s B =
     do { (ns, B) \<leftarrow> free_ptrs (col_table_names s) B; Some (s\<lparr>col_table_names := ns\<rparr>, B) }"

text \<open>The decoded columns, in the loops of \<open>rust_stmt_free\<close>.\<close>

definition free_columns :: "PgStmt \<Rightarrow> c_blocks \<Rightarrow> (PgStmt \<times> c_blocks) option" where
  "free_columns s B =
     do {
       (bs, B) \<leftarrow> free_ptrs (decoded_blobs s) B;
       (ts, B) \<leftarrow> free_ptrs (cached_text s) B;
       (cs, B) \<leftarrow> free_ptrs (cached_blob s) B;
       Some (s\<lparr>decoded_blobs := bs, cached_text := ts, cached_blob := cs\<rparr>, B)
     }"

text \<open>And in those of \<open>rust_stmt_clear_result\<close>, which also zero the lengths.\<close>

definition clear_columns :: "PgStmt \<Rightarrow> c_blocks \<Rightarrow> (PgStmt \<times> c_blocks) option" where
  "clear_columns s B =
     do {
       blob_lens \<leftarrow> zero_lens (decoded_blobs s) (decoded_blob_lens s);
       cached_lens \<leftarrow> zero_lens (cached_blob s) (cached_blob_len s);
       (s, B) \<leftarrow> free_columns s B;
       Some (s\<lparr>decoded_blob_lens := blob_lens, cached_blob_len := cached_lens, decoded_blob_row := -1, cached_row := -1\<rparr>, B)
     }"

section \<open>The process with its statements\<close>

text \<open>
  A value handed to one of SQLite's bind functions: an integer, a double by its bits, text or
  bytes with their length and the function that is to dispose of them. The memory is the
  host's, at an address, or a string of the shim's own.
\<close>

datatype bind_src = Host ptr | Own string

datatype bind_arg =
    BindInt int | BindInt64 int | BindDouble u64 | BindText bind_src int ptr | BindText64 bind_src u64 ptr nat
  | BindBlob ptr int ptr | BindBlob64 ptr u64 ptr | BindValue ptr | BindNull

text \<open>
  What the shim calls of SQLite on a statement, the clock and the allocator. \<open>c_malloc\<close> stands
  for the allocation of \<open>strdup\<close> and may fail; \<open>box_new\<close> for that of \<open>Box::new\<close>, which does not.
  For the binds: SQLite's own, the name it has for a parameter, the C string and the bytes at an
  address of the host (\<^const>\<open>None\<close> when they cannot be read), a call of a value's destructor,
  the text of \<^verbatim>\<open>Preferences.xml\<close>, a pause, and \<open>printf\<close>'s \<^verbatim>\<open>%.17g\<close> of a double. For the
  prepare: the memory of a vector of so many bytes, SQLite's own prepare, which answers a code
  and the statement it leaves (0 for none), and the translator.
\<close>

record SqlTranslation =
  trans_sql :: "string option"
  trans_names :: "string option list option"
  trans_count :: "32 word"
  trans_success :: int

record 'w stmt_lib =
  orig_reset :: "(ptr \<Rightarrow> 'w \<Rightarrow> int \<times> 'w) option"
  orig_finalize :: "(ptr \<Rightarrow> 'w \<Rightarrow> int \<times> 'w) option"
  orig_clear_bindings :: "(ptr \<Rightarrow> 'w \<Rightarrow> int \<times> 'w) option"
  orig_sql :: "(ptr \<Rightarrow> 'w \<Rightarrow> string option) option"
  orig_next_stmt :: "(ptr \<Rightarrow> ptr \<Rightarrow> 'w \<Rightarrow> ptr) option"
  clock_gettime :: "'w \<Rightarrow> int \<times> u64 \<times> u64"
  c_malloc :: "ptr set \<Rightarrow> 'w \<Rightarrow> ptr \<times> 'w"
  box_new :: "ptr set \<Rightarrow> 'w \<Rightarrow> ptr \<times> 'w"
  orig_bind :: "bind_arg \<Rightarrow> (ptr \<Rightarrow> int \<Rightarrow> 'w \<Rightarrow> int \<times> 'w) option"
  orig_parameter_name :: "(ptr \<Rightarrow> int \<Rightarrow> 'w \<Rightarrow> string option) option"
  host_text :: "ptr \<Rightarrow> 'w \<Rightarrow> string option"
  host_bytes :: "ptr \<Rightarrow> nat \<Rightarrow> 'w \<Rightarrow> string option"
  run_destructor :: "ptr \<Rightarrow> bind_src \<Rightarrow> 'w \<Rightarrow> 'w"
  preferences :: "'w \<Rightarrow> string option"
  bind_pause :: "'w \<Rightarrow> 'w"
  format_g17 :: "u64 \<Rightarrow> string"
  vec_new :: "nat \<Rightarrow> ptr set \<Rightarrow> 'w \<Rightarrow> ptr \<times> 'w"
  orig_prepare_v2 :: "(ptr \<Rightarrow> string \<Rightarrow> int \<Rightarrow> 'w \<Rightarrow> (int \<times> ptr) \<times> 'w) option"
  sql_translate :: "string \<Rightarrow> SqlTranslation"

text \<open>\<open>libc::strdup\<close>: a new block with the text, or null.\<close>

definition c_strdup :: "'w stmt_lib \<Rightarrow> string \<Rightarrow> c_blocks \<Rightarrow> 'w \<Rightarrow> ptr \<times> 'w \<times> c_blocks" where
  "c_strdup E r B w = (let (q, w) = c_malloc E (dom B) w in (q, w, if is_null q then B else B(q \<mapsto> r)))"

record FinalizedEntry =
  fin_stmt :: ptr
  fin_ts_ns :: u64
  fin_tid :: tid
  fin_is_pg :: int
  fin_sql :: string

record PreparedEntry =
  prep_stmt :: ptr
  prep_ts_ns :: u64
  prep_tid :: tid
  prep_sql :: string

record 'w statements =
  stmt_host :: "'w host"
  stmts :: "(ptr, PgStmt) hmap"
  c_heap :: c_blocks
  forward :: "(ptr, ptr) hmap"
  reverse :: "(ptr, ptr) hmap"
  tls_stmts :: "(tid, (ptr \<times> ptr) list) hmap"
  qcaches :: "tid \<Rightarrow> QueryCache"
  qc_enabled :: bool
  finalized_ring :: "FinalizedEntry list"
  finalized_idx :: u32
  prepared_ring :: "PreparedEntry list"
  prepared_idx :: u32
  current_conn :: "tid \<Rightarrow> ptr"

abbreviation shim_of :: "'w statements \<Rightarrow> 'w shim" where
  "shim_of X \<equiv> client (stmt_host X)"

definition set_shim :: "'w shim \<Rightarrow> 'w statements \<Rightarrow> 'w statements" where
  "set_shim S X = X\<lparr>stmt_host := (stmt_host X)\<lparr>client := S\<rparr>\<rparr>"

definition put_stmt :: "ptr \<Rightarrow> PgStmt \<Rightarrow> 'w statements \<Rightarrow> 'w statements" where
  "put_stmt p s X = X\<lparr>stmts := hm_insert p s (stmts X)\<rparr>"

definition env_truthy_str :: "environ \<Rightarrow> string \<Rightarrow> bool" where
  "env_truthy_str e name =
     (case e name of None \<Rightarrow> False | Some [] \<Rightarrow> False | Some (c # _) \<Rightarrow> c \<in> {CHR ''1'', CHR ''y'', CHR ''Y'', CHR ''t'', CHR ''T''})"

definition leak_enabled :: "'w statements \<Rightarrow> bool" where
  "leak_enabled X = env_truthy_str (env (shim_of X)) ''PLEX_PG_LEAK_STMTS''"

definition stmt_cache_disabled :: "'w statements \<Rightarrow> bool" where
  "stmt_cache_disabled X = env_truthy_str (env (shim_of X)) ''PLEX_PG_DISABLE_STMT_CACHE''"

section \<open>Settling a stream\<close>

text \<open>
  \<open>clear_received_results\<close>: take what has arrived until libpq would block (the answer is
  true) or there is no more (false). Nothing bounds the loop but the results themselves.
\<close>

partial_function (option) clear_received_results :: "'w libpq \<Rightarrow> ptr \<Rightarrow> 'w \<Rightarrow> (bool \<times> 'w) option" where
  "clear_received_results L pgc w =
     (let (_, w) = rust_pq_consume_input L pgc w in
      if rust_pq_is_busy L pgc w \<noteq> 0 then Some (True, w)
      else let (res, w) = rust_pq_get_result L pgc w in
           if is_null res then Some (False, w)
           else clear_received_results L pgc (rust_pq_clear L res w))"

definition cancel_stream :: "'w libpq \<Rightarrow> ptr \<Rightarrow> 'w \<Rightarrow> 'w" where
  "cancel_stream L pgc w =
     (let (cancel, w) = rust_pq_get_cancel L pgc w;
          w = (if is_null cancel then w
               else let (_, w) = rust_pq_cancel L cancel w in rust_pq_free_cancel L cancel w)
      in drain_counted DRAIN_LIMIT L pgc w)"

definition clear_streaming_state :: "'w libpq \<Rightarrow> PgStmt \<Rightarrow> 'w shim \<Rightarrow> (PgStmt \<times> 'w shim) option" where
  "clear_streaming_state L s S =
     (if streaming_mode s = 0 \<or> is_null (streaming_conn s) then Some (s, S)
      else if \<not> stream_settles_on (pm S) (streaming_conn s)
      then do {
        S \<leftarrow> modify_conn (streaming_conn s) (\<lambda>c. c\<lparr>streaming_active := 0\<rparr>) S;
        set_streaming_conn 0 (s\<lparr>streaming_mode := 0\<rparr>) S
      }
      else do {
        sconn \<leftarrow> heap S (streaming_conn s);
        S \<leftarrow> (if is_null (pg_conn sconn) then Some S
              else do {
                (sending, w) \<leftarrow> clear_received_results L (pg_conn sconn) (world S);
                Some (S\<lparr>world := (if sending then cancel_stream L (pg_conn sconn) w else w)\<rparr>)
              });
        S \<leftarrow> modify_conn (streaming_conn s) (\<lambda>c. c\<lparr>streaming_active := 0\<rparr>) S;
        set_streaming_conn 0 (s\<lparr>streaming_mode := 0\<rparr>) S
      })"

section \<open>Results, and the end of an object\<close>

text \<open>The libpq result and the entry of the result cache that a statement is reading.\<close>

definition drop_result :: "'w libpq \<Rightarrow> PgStmt \<Rightarrow> 'w shim \<Rightarrow> PgStmt \<times> 'w shim" where
  "drop_result L s S =
     (if is_null (stmt_result s) then (s, S)
      else (s\<lparr>stmt_result := 0\<rparr>, S\<lparr>world := rust_pq_clear L (stmt_result s) (world S)\<rparr>))"

definition release_cached :: "bool \<Rightarrow> PgStmt \<Rightarrow> (tid \<Rightarrow> QueryCache) \<Rightarrow> PgStmt \<times> (tid \<Rightarrow> QueryCache)" where
  "release_cached enabled s Q =
     (case cached_result s of
        None \<Rightarrow> (s, Q)
      | Some (u, i) \<Rightarrow> (s\<lparr>cached_result := None\<rparr>, Q(u := rust_query_cache_release enabled (Some i) (Q u))))"

definition rust_stmt_clear_result :: "'w libpq \<Rightarrow> ptr \<Rightarrow> 'w statements \<Rightarrow> 'w statements option" where
  "rust_stmt_clear_result L p X =
     (if is_null p then Some X
      else do {
        s \<leftarrow> hm_get (stmts X) p;
        (s, S) \<leftarrow> clear_streaming_state L s (shim_of X);
        let (s, S) = drop_result L s S;
        let (s, Q) = release_cached (qc_enabled X) s (qcaches X);
        (s, S) \<leftarrow> set_result_conn 0 s S;
        let s = s\<lparr>metadata_only_result := 0, current_row := -1, num_rows := 0, num_cols := 0,
                  write_executed := 0, read_done := 0\<rparr>;
        (s, B) \<leftarrow> clear_columns s (c_heap X);
        (s, B) \<leftarrow> free_col_names s B;
        Some ((set_shim S (put_stmt p s X))\<lparr>c_heap := B, qcaches := Q\<rparr>)
      })"

text \<open>Every block of a statement, in the order \<open>rust_stmt_free\<close> frees them.\<close>

definition free_blocks :: "PgStmt \<Rightarrow> c_blocks \<Rightarrow> (PgStmt \<times> c_blocks) option" where
  "free_blocks s B =
     do {
       (s, B) \<leftarrow> free_sql s B;
       let n = safe_param_count s;
       (s, B) \<leftarrow> clear_dynamic_param_values s B;
       (s, B) \<leftarrow> free_param_names n s B;
       (s, B) \<leftarrow> free_columns s B;
       (s, B) \<leftarrow> free_table_names s B;
       free_col_names s B
     }"

definition rust_stmt_free :: "'w libpq \<Rightarrow> ptr \<Rightarrow> 'w statements \<Rightarrow> 'w statements option" where
  "rust_stmt_free L p X =
     (if is_null p then Some X
      else do {
        s \<leftarrow> hm_get (stmts X) p;
        if 0 < stmt_refs s then Some X
        else do {
          (s, S) \<leftarrow> clear_streaming_state L s (shim_of X);
          let (s, S) = drop_result L s S;
          let (s, Q) = release_cached (qc_enabled X) s (qcaches X);
          (s, B) \<leftarrow> free_blocks s (c_heap X);
          (s, S) \<leftarrow> release_conns s S;
          Some ((set_shim S X)\<lparr>stmts := hm_remove p (stmts X), c_heap := drop_cells (buffer_cells s) B, qcaches := Q\<rparr>)
        }
      })"

section \<open>References\<close>

definition rust_stmt_ref :: "ptr \<Rightarrow> 'w statements \<Rightarrow> 'w statements option" where
  "rust_stmt_ref p X =
     (if is_null p then Some X
      else do { s \<leftarrow> hm_get (stmts X) p; Some (put_stmt p (s\<lparr>stmt_refs := stmt_refs s + 1\<rparr>) X) })"

definition rust_stmt_unref :: "'w libpq \<Rightarrow> ptr \<Rightarrow> 'w statements \<Rightarrow> 'w statements option" where
  "rust_stmt_unref L p X =
     (if is_null p then Some X
      else do {
        s \<leftarrow> hm_get (stmts X) p;
        let old = stmt_refs s;
        if old \<le> 0 then Some X
        else
          let X = put_stmt p (s\<lparr>stmt_refs := old - 1\<rparr>) X in
          if old = 1
          then if leak_enabled X then Some (put_stmt p (s\<lparr>stmt_refs := 1\<rparr>) X)
               else rust_stmt_free L p X
          else Some X
      })"

text \<open>A statement object is created with the one reference its creator has.\<close>

definition rust_stmt_create ::
  "'w stmt_lib \<Rightarrow> ptr \<Rightarrow> string option \<Rightarrow> ptr \<Rightarrow> 'w statements \<Rightarrow> (ptr \<times> 'w statements) option" where
  "rust_stmt_create E conn sql shadow X =
     do {
       (s, S) \<leftarrow> set_conn conn PgStmt_new (shim_of X);
       let s = s\<lparr>shadow_stmt := shadow\<rparr>;
       let (q, w, B) = (case sql of None \<Rightarrow> (0, world S, c_heap X) | Some r \<Rightarrow> c_strdup E r (c_heap X) (world S));
       let s = s\<lparr>stmt_sql := q, stmt_refs := 1\<rparr>;
       let (p, w) = box_new E (fst ` set (stmts X)) w;
       Some (p, put_stmt p s ((set_shim (S\<lparr>world := w\<rparr>) X)\<lparr>c_heap := B\<rparr>))
     }"

section \<open>The registry\<close>

definition registry_register :: "ptr \<Rightarrow> ptr \<Rightarrow> 'w statements \<Rightarrow> 'w statements" where
  "registry_register k p X =
     (let old = hm_get (forward X) k;
          rev1 = (case old of None \<Rightarrow> reverse X | Some old_pg \<Rightarrow> if old_pg \<noteq> p then hm_remove old_pg (reverse X) else reverse X)
      in X\<lparr>forward := hm_insert k p (forward X), reverse := hm_insert p k rev1\<rparr>)"

definition registry_unregister :: "ptr \<Rightarrow> 'w statements \<Rightarrow> 'w statements" where
  "registry_unregister k X =
     (case hm_get (forward X) k of
        None \<Rightarrow> X
      | Some p \<Rightarrow> X\<lparr>forward := hm_remove k (forward X), reverse := hm_remove p (reverse X)\<rparr>)"

definition rust_stmt_register :: "ptr \<Rightarrow> ptr \<Rightarrow> 'w statements \<Rightarrow> 'w statements" where
  "rust_stmt_register k p X = (if k = 0 \<or> p = 0 then X else registry_register k p X)"

definition rust_stmt_unregister :: "ptr \<Rightarrow> 'w statements \<Rightarrow> 'w statements" where
  "rust_stmt_unregister k X = (if k = 0 then X else registry_unregister k X)"

definition unwrap_or_null :: "ptr option \<Rightarrow> ptr" where
  "unwrap_or_null r = (case r of None \<Rightarrow> 0 | Some p \<Rightarrow> p)"

definition rust_stmt_find :: "ptr \<Rightarrow> 'w statements \<Rightarrow> ptr" where
  "rust_stmt_find k X = (if k = 0 then 0 else unwrap_or_null (hm_get (forward X) k))"

definition rust_stmt_is_ours :: "ptr \<Rightarrow> 'w statements \<Rightarrow> int" where
  "rust_stmt_is_ours p X = (if p = 0 then 0 else if hm_get (reverse X) p \<noteq> None then 1 else 0)"

definition rust_stmt_registry_count :: "'w statements \<Rightarrow> nat" where
  "rust_stmt_registry_count X = length (forward X)"

fun unref_all :: "'w libpq \<Rightarrow> ptr list \<Rightarrow> 'w statements \<Rightarrow> 'w statements option" where
  "unref_all L [] X = Some X"
| "unref_all L (p # ps) X = do { X \<leftarrow> rust_stmt_unref L p X; unref_all L ps X }"

definition rust_stmt_registry_cleanup :: "'w libpq \<Rightarrow> 'w statements \<Rightarrow> 'w statements option" where
  "rust_stmt_registry_cleanup L X = unref_all L (hm_values (forward X)) (X\<lparr>forward := [], reverse := []\<rparr>)"

section \<open>The per-thread cache\<close>

definition MAX_CACHED_STMTS_PER_THREAD :: nat where "MAX_CACHED_STMTS_PER_THREAD = 64"

definition tls_of :: "tid \<Rightarrow> 'w statements \<Rightarrow> (ptr \<times> ptr) list" where
  "tls_of t X = (case hm_get (tls_stmts X) t of None \<Rightarrow> [] | Some es \<Rightarrow> es)"

definition set_tls :: "tid \<Rightarrow> (ptr \<times> ptr) list \<Rightarrow> 'w statements \<Rightarrow> 'w statements" where
  "set_tls t es X = X\<lparr>tls_stmts := hm_insert t es (tls_stmts X)\<rparr>"

text \<open>The index of a statement's entry.\<close>

definition tls_pos :: "ptr \<Rightarrow> (ptr \<times> ptr) list \<Rightarrow> nat option" where
  "tls_pos k es = find (\<lambda>i. fst (es ! i) = k) [0..<length es]"

definition remove_nth :: "nat \<Rightarrow> 'a list \<Rightarrow> 'a list" where
  "remove_nth i xs = take i xs @ drop (Suc i) xs"

definition tls_register :: "'w libpq \<Rightarrow> tid \<Rightarrow> ptr \<Rightarrow> ptr \<Rightarrow> 'w statements \<Rightarrow> 'w statements option" where
  "tls_register L t k p X =
     (let es = tls_of t X in
      case tls_pos k es of
        Some i \<Rightarrow>
          do {
            let old = snd (es ! i);
            X \<leftarrow> (if old \<noteq> p then rust_stmt_unref L old X else Some X);
            X \<leftarrow> rust_stmt_ref p X;
            Some (set_tls t (es[i := (k, p)]) X)
          }
      | None \<Rightarrow>
          do {
            X \<leftarrow> rust_stmt_ref p X;
            if length es < MAX_CACHED_STMTS_PER_THREAD then Some (set_tls t (es @ [(k, p)]) X)
            else do {
              X \<leftarrow> rust_stmt_unref L (snd (es ! 0)) X;
              Some (set_tls t (remove_nth 0 es @ [(k, p)]) X)
            }
          })"

definition tls_find :: "ptr \<Rightarrow> (ptr \<times> ptr) list \<Rightarrow> ptr option" where
  "tls_find k es = map_option snd (find (\<lambda>e. fst e = k) es)"

definition tls_clear :: "'w libpq \<Rightarrow> tid \<Rightarrow> ptr \<Rightarrow> 'w statements \<Rightarrow> 'w statements option" where
  "tls_clear L t k X =
     (let es = tls_of t X in
      case tls_pos k es of
        None \<Rightarrow> Some X
      | Some i \<Rightarrow> rust_stmt_unref L (snd (es ! i)) (set_tls t (remove_nth i es) X))"

definition tls_clear_weak :: "tid \<Rightarrow> ptr \<Rightarrow> 'w statements \<Rightarrow> 'w statements" where
  "tls_clear_weak t k X =
     (let es = tls_of t X in
      case tls_pos k es of None \<Rightarrow> X | Some i \<Rightarrow> set_tls t (remove_nth i es) X)"

text \<open>The end of a thread: \<open>Drop for ThreadCachedStmts\<close>.\<close>

definition ThreadCachedStmts_drop :: "'w libpq \<Rightarrow> tid \<Rightarrow> 'w statements \<Rightarrow> 'w statements option" where
  "ThreadCachedStmts_drop L t X =
     (let es = tls_of t X; X = set_tls t [] X in
      if stmt_cache_disabled X then Some X else unref_all L (map snd es) X)"

definition rust_cached_stmt_register :: "'w libpq \<Rightarrow> tid \<Rightarrow> ptr \<Rightarrow> ptr \<Rightarrow> 'w statements \<Rightarrow> 'w statements option" where
  "rust_cached_stmt_register L t k p X =
     (if k = 0 \<or> p = 0 then Some X else if stmt_cache_disabled X then Some X else tls_register L t k p X)"

definition rust_cached_stmt_find :: "tid \<Rightarrow> ptr \<Rightarrow> 'w statements \<Rightarrow> ptr" where
  "rust_cached_stmt_find t k X =
     (if k = 0 then 0 else if stmt_cache_disabled X then 0 else unwrap_or_null (tls_find k (tls_of t X)))"

definition rust_cached_stmt_clear :: "'w libpq \<Rightarrow> tid \<Rightarrow> ptr \<Rightarrow> 'w statements \<Rightarrow> 'w statements option" where
  "rust_cached_stmt_clear L t k X =
     (if k = 0 then Some X else if stmt_cache_disabled X then Some X else tls_clear L t k X)"

definition rust_cached_stmt_clear_weak :: "tid \<Rightarrow> ptr \<Rightarrow> 'w statements \<Rightarrow> 'w statements" where
  "rust_cached_stmt_clear_weak t k X =
     (if k = 0 then X else if stmt_cache_disabled X then X else tls_clear_weak t k X)"

text \<open>The pointers handed to the caller to unreference, when the array for them can be had.\<close>

definition rust_cached_stmt_drain_all :: "'w stmt_lib \<Rightarrow> tid \<Rightarrow> 'w statements \<Rightarrow> (int \<times> ptr list option) \<times> 'w statements" where
  "rust_cached_stmt_drain_all E t X =
     (if stmt_cache_disabled X then ((0, None), X)
      else let ps = map snd (tls_of t X); X = set_tls t [] X in
        if ps = [] then ((0, None), X)
        else let (q, w) = c_malloc E (dom (c_heap X)) (world (shim_of X));
                 X = set_shim ((shim_of X)\<lparr>world := w\<rparr>) X
             in if is_null q then ((int (length ps), None), X)
                else ((int (length ps), Some ps), X\<lparr>c_heap := (c_heap X)(q \<mapsto> [])\<rparr>))"

definition rust_stmt_find_any :: "tid \<Rightarrow> ptr \<Rightarrow> 'w statements \<Rightarrow> ptr" where
  "rust_stmt_find_any t k X =
     (if k = 0 then 0
      else case hm_get (forward X) k of
             Some p \<Rightarrow> p
           | None \<Rightarrow> if stmt_cache_disabled X then 0 else unwrap_or_null (tls_find k (tls_of t X)))"

text \<open>A statement answered from the cache (\<open>rust_step_cached_read_prepare_stmt\<close>): created once, then found.\<close>

definition rust_step_cached_read_prepare_stmt ::
  "'w libpq \<Rightarrow> 'w stmt_lib \<Rightarrow> tid \<Rightarrow> ptr \<Rightarrow> ptr \<Rightarrow> string option \<Rightarrow> ptr \<Rightarrow> string option \<Rightarrow> 'w statements \<Rightarrow> (ptr \<times> 'w statements) option" where
  "rust_step_cached_read_prepare_stmt L E t cached_ptr conn sql k translated X =
     (if \<not> is_null cached_ptr then Some (cached_ptr, X)
      else case (sql, translated) of
        (Some _, Some r) \<Rightarrow>
          if is_null conn \<or> k = 0 then Some (0, X)
          else do {
            (p, X) \<leftarrow> rust_stmt_create E conn sql k X;
            if is_null p then Some (0, X)
            else do {
              s \<leftarrow> hm_get (stmts X) p;
              let (q, w, B) = c_strdup E r (c_heap X) (world (shim_of X));
              let X = put_stmt p (s\<lparr>stmt_pg_sql := q, is_pg := 2, is_cached := 1\<rparr>) ((set_shim ((shim_of X)\<lparr>world := w\<rparr>) X)\<lparr>c_heap := B\<rparr>);
              X \<leftarrow> rust_cached_stmt_register L t k p X;
              Some (p, X)
            }
          }
      | _ \<Rightarrow> Some (0, X))"

end
