(* ===== verification/Stmt_Memory.thy ===== *)
theory Stmt_Memory
  imports Pg_Stmt "HOL-Library.Multiset"
begin

text \<open>
  What statement objects own and hold, and that the operations on them keep the account: every
  block of the C heap is freed at most once and only by its owner, every reference to a
  connection is one of the three pointers of a live statement, and a statement object is
  allocated exactly while the registry, a thread's cache or a caller has a reference to it.
\<close>

section \<open>Sums over a table\<close>

definition hm_sum :: "('v \<Rightarrow> 'a::comm_monoid_add) \<Rightarrow> ('k, 'v) hmap \<Rightarrow> 'a" where
  "hm_sum f m = (\<Sum>(k, v)\<leftarrow>m. f v)"

lemma hm_sum_Nil [simp]: "hm_sum f [] = 0"
  by (simp add: hm_sum_def)

lemma hm_sum_Cons [simp]: "hm_sum f ((k, v) # m) = f v + hm_sum f m"
  by (simp add: hm_sum_def)

lemma hm_remove_fresh: "p \<notin> fst ` set m \<Longrightarrow> hm_remove p m = m"
  by (induction m) (auto simp: hm_remove_def)

lemma hm_sum_get:
  "hm_ok m \<Longrightarrow> hm_get m p = Some v \<Longrightarrow> hm_sum f m = f v + hm_sum f (hm_remove p m)"
proof (induction m)
  case (Cons a m)
  obtain k w where a: "a = (k, w)" by (cases a)
  show ?case
  proof (cases "k = p")
    case True
    then have "p \<notin> fst ` set m" using Cons.prems(1) by (auto simp: hm_ok_def a)
    then have "hm_remove p (a # m) = m" using hm_remove_fresh [of p m] True by (simp add: hm_remove_def a)
    moreover have "w = v" using Cons.prems(2) True by (simp add: hm_get_def a)
    ultimately show ?thesis by (simp add: a)
  next
    case False
    then have "hm_sum f m = f v + hm_sum f (hm_remove p m)"
      using Cons by (auto simp: hm_ok_def hm_get_def a)
    then show ?thesis using False by (simp add: hm_remove_def a add.left_commute)
  qed
qed simp

lemma hm_remove_insert: "hm_remove p (hm_insert p v m) = hm_remove p m"
proof -
  have "filter (\<lambda>(k, v). k \<noteq> p) (AList.update p v m) = filter (\<lambda>(k, v). k \<noteq> p) m" by (induction m) auto
  then show ?thesis by (simp add: hm_remove_def hm_insert_def)
qed

lemma hm_sum_insert: "hm_ok m \<Longrightarrow> hm_sum f (hm_insert p v m) = f v + hm_sum f (hm_remove p m)"
  using hm_sum_get [of "hm_insert p v m" p v f] by (simp add: hm_remove_insert)

lemma hm_sum_ge:
  fixes f :: "'v \<Rightarrow> nat"
  shows "hm_ok m \<Longrightarrow> hm_get m p = Some v \<Longrightarrow> f v \<le> hm_sum f m"
  by (simp add: hm_sum_get)

section \<open>Blocks\<close>

text \<open>The blocks of an array of strings, and those of a statement.\<close>

definition names_blocks :: "nat \<Rightarrow> (ptr \<times> ptr list) option \<Rightarrow> ptr list" where
  "names_blocks n names = (case names of None \<Rightarrow> [] | Some (arr, ns) \<Rightarrow> arr # take n ns)"

abbreviation heap_params :: "PgStmt \<Rightarrow> ptr list" where
  "heap_params s \<equiv> map snd (filter (\<lambda>(keep, p). \<not> keep) (marked_params s))"

abbreviation sql_blocks :: "PgStmt \<Rightarrow> ptr list" where
  "sql_blocks s \<equiv> stmt_sql s # (if stmt_pg_sql s = stmt_sql s then [] else [stmt_pg_sql s])"

abbreviation column_blocks :: "PgStmt \<Rightarrow> ptr list" where
  "column_blocks s \<equiv> decoded_blobs s @ cached_text s @ cached_blob s"

text \<open>A result's blocks go with \<open>rust_stmt_clear_result\<close>, the others with the object.\<close>

abbreviation result_blocks :: "PgStmt \<Rightarrow> ptr list" where
  "result_blocks s \<equiv> column_blocks s @ names_blocks (nat (num_col_names s)) (stmt_col_names s)"

abbreviation lasting_blocks :: "PgStmt \<Rightarrow> ptr list" where
  "lasting_blocks s \<equiv> sql_blocks s @ names_blocks (safe_param_count s) (param_names s) @ col_table_names s"

abbreviation freed_blocks :: "PgStmt \<Rightarrow> ptr list" where
  "freed_blocks s \<equiv> lasting_blocks s @ heap_params s @ result_blocks s"

text \<open>With the buffers, which go with the object's own memory, these are all.\<close>

definition owned_blocks :: "PgStmt \<Rightarrow> ptr list" where
  "owned_blocks s = freed_blocks s @ buffer_cells s"

text \<open>The arrays are as long as the code takes them to be.\<close>

definition names_fit :: "nat \<Rightarrow> (ptr \<times> ptr list) option \<Rightarrow> bool" where
  "names_fit n names = (case names of None \<Rightarrow> True | Some (arr, ns) \<Rightarrow> n \<le> length ns)"

definition shape_ok :: "PgStmt \<Rightarrow> bool" where
  "shape_ok s \<longleftrightarrow> length (decoded_blobs s) \<le> length (decoded_blob_lens s) \<and> length (cached_blob s) \<le> length (cached_blob_len s)
     \<and> names_fit (safe_param_count s) (param_names s) \<and> names_fit (nat (num_col_names s)) (stmt_col_names s)
     \<and> length (param_lengths s) = length (param_values s) \<and> length (param_formats s) = length (param_values s)
     \<and> length (param_buffers s) = length (param_values s) \<and> nat (param_count s) \<le> length (param_values s) \<and> 0 \<notin> set (param_buffers s)"

definition without :: "c_blocks \<Rightarrow> ptr list \<Rightarrow> c_blocks" where
  "without B ps = B |` (- (set ps - {0}))"

definition freeable :: "ptr list \<Rightarrow> c_blocks \<Rightarrow> bool" where
  "freeable ps B \<longleftrightarrow> distinct (filter (\<lambda>p. p \<noteq> 0) ps) \<and> set ps - {0} \<subseteq> dom B"

lemma without_Nil [simp]: "without B [] = B"
  by (rule ext) (simp add: without_def)

lemma without_append: "without B (ps @ qs) = without (without B ps) qs"
  by (rule ext) (auto simp: without_def restrict_map_def)

lemma without_Cons: "without B (p # ps) = without (without B [p]) ps"
  using without_append [of B "[p]" ps] by simp

lemma without_cong: "set ps - {0} = set qs - {0} \<Longrightarrow> without B ps = without B qs"
  by (simp add: without_def)

lemma freeable_append: "freeable (ps @ qs) B \<longleftrightarrow> freeable ps B \<and> freeable qs (without B ps)"
  by (auto simp: freeable_def without_def)

lemma freeable_Cons: "freeable (p # ps) B \<longleftrightarrow> freeable [p] B \<and> freeable ps (without B [p])"
  using freeable_append [of "[p]" ps B] by simp

lemma freeable_Nil [simp]: "freeable [] B"
  by (simp add: freeable_def)

lemma freeable_perm: "mset ps = mset qs \<Longrightarrow> freeable ps B \<longleftrightarrow> freeable qs B"
  unfolding freeable_def by (metis mset_eq_imp_distinct_iff mset_eq_setD mset_filter)

lemma c_free_ok: "freeable [p] B \<Longrightarrow> c_free p B = Some (without B [p])"
  by (cases "p = 0") (auto simp: c_free_def freeable_def without_def restrict_map_def fun_eq_iff)

lemma free_ptrs_ok: "freeable ps B \<Longrightarrow> free_ptrs ps B = Some (replicate (length ps) 0, without B ps)"
proof (induction ps arbitrary: B)
  case (Cons p ps)
  then show ?case using freeable_Cons [of p ps B] without_Cons [of B p ps] by (simp add: c_free_ok)
qed simp

lemma free_unmarked_ok:
  "freeable (map snd (filter (\<lambda>(keep, p). \<not> keep) ms)) B \<Longrightarrow>
     free_unmarked ms B = Some (map (\<lambda>(keep, p). if keep then p else 0) ms, without B (map snd (filter (\<lambda>(keep, p). \<not> keep) ms)))"
proof (induction ms arbitrary: B)
  case (Cons m ms)
  obtain keep p where m: "m = (keep, p)" by (cases m)
  let ?ps = "map snd (filter (\<lambda>(keep, p). \<not> keep) ms)"
  show ?case
  proof (cases keep)
    case False
    with Cons.prems have "freeable [p] B" and rest: "freeable ?ps (without B [p])"
      using freeable_Cons [of p ?ps B] by (simp_all add: m)
    then show ?thesis using Cons.IH [OF rest] without_Cons [of B p ?ps] False by (simp add: m c_free_ok)
  qed (use Cons in \<open>simp add: m\<close>)
qed simp

lemma free_names_ok:
  assumes "freeable (names_blocks n names) B" "names_fit n names"
  shows "free_names n names B = Some (without B (names_blocks n names))"
proof (cases names)
  case (Some a)
  obtain arr ns where a: "a = (arr, ns)" by (cases a)
  have "freeable (take n ns @ [arr]) B"
    using assms(1) freeable_perm [of "arr # take n ns" "take n ns @ [arr]" B] by (simp add: names_blocks_def Some a)
  then have f: "freeable (take n ns) B" "freeable [arr] (without B (take n ns))" by (simp_all add: freeable_append)
  have "without (without B (take n ns)) [arr] = without B (arr # take n ns)"
    unfolding without_append [symmetric] by (rule without_cong) auto
  then show ?thesis
    using assms(2) by (simp add: free_names_def names_fit_def names_blocks_def Some a free_ptrs_ok [OF f(1)] c_free_ok [OF f(2)])
qed (simp add: free_names_def names_blocks_def)

lemma zero_lens_ok: "length ps \<le> length ls \<Longrightarrow> \<exists>ls'. zero_lens ps ls = Some ls' \<and> length ls' = length ls"
  by (induction ps ls rule: zero_lens.induct) auto

text \<open>Freeing everything a statement owns: each block once, and no block of another.\<close>

definition same_holds :: "PgStmt \<Rightarrow> PgStmt \<Rightarrow> bool" where
  "same_holds s s' \<longleftrightarrow> stmt_conn s' = stmt_conn s \<and> result_conn s' = result_conn s \<and> streaming_conn s' = streaming_conn s
     \<and> stmt_refs s' = stmt_refs s"

lemma same_holds_refl [simp]: "same_holds s s"
  by (simp add: same_holds_def)

lemma marked_params_cong:
  "param_values s' = param_values s \<Longrightarrow> param_buffers s' = param_buffers s \<Longrightarrow> marked_params s' = marked_params s"
  by (simp add: marked_params_def is_preallocated_buffer_def)

lemma free_sql_ok:
  "freeable (sql_blocks s) B \<Longrightarrow> free_sql s B =
     Some (s\<lparr>stmt_sql := 0, stmt_pg_sql := (if stmt_pg_sql s \<noteq> 0 \<and> stmt_pg_sql s \<noteq> stmt_sql s then 0 else stmt_pg_sql s)\<rparr>, without B (sql_blocks s))"
proof -
  assume f: "freeable (sql_blocks s) B"
  then have q: "freeable [stmt_sql s] B" using freeable_Cons by blast
  have "c_free (stmt_pg_sql s) (without B [stmt_sql s]) = Some (without B [stmt_sql s, stmt_pg_sql s])" if "stmt_pg_sql s \<noteq> stmt_sql s"
  proof -
    have "freeable [stmt_pg_sql s] (without B [stmt_sql s])"
      using f that freeable_Cons [of "stmt_sql s" "[stmt_pg_sql s]" B] by simp
    then show ?thesis using without_Cons [of B "stmt_sql s" "[stmt_pg_sql s]"] by (simp add: c_free_ok)
  qed
  moreover have "without B [stmt_sql s, 0] = without B [stmt_sql s]" by (rule without_cong) auto
  ultimately show ?thesis using c_free_ok [OF q] by (auto simp: free_sql_def Let_def)
qed

lemma free_columns_ok:
  assumes "freeable (column_blocks s) B"
  shows "free_columns s B = Some (s\<lparr>decoded_blobs := replicate (length (decoded_blobs s)) 0,
    cached_text := replicate (length (cached_text s)) 0, cached_blob := replicate (length (cached_blob s)) 0\<rparr>, without B (column_blocks s))"
proof -
  have f: "freeable (decoded_blobs s) B" "freeable (cached_text s) (without B (decoded_blobs s))"
    "freeable (cached_blob s) (without (without B (decoded_blobs s)) (cached_text s))"
    using assms by (simp_all add: freeable_append)
  show ?thesis by (simp add: free_columns_def free_ptrs_ok [OF f(1)] free_ptrs_ok [OF f(2)] free_ptrs_ok [OF f(3)] without_append)
qed

lemma free_col_names_ok:
  assumes "freeable (names_blocks (nat (num_col_names s)) (stmt_col_names s)) B" "names_fit (nat (num_col_names s)) (stmt_col_names s)"
  shows "free_col_names s B = Some (if stmt_col_names s = None then s else s\<lparr>stmt_col_names := None, num_col_names := 0\<rparr>,
    without B (names_blocks (nat (num_col_names s)) (stmt_col_names s)))"
  using free_names_ok [OF assms] by (auto simp: free_col_names_def names_blocks_def)

lemma free_blocks_ok:
  assumes "freeable (freed_blocks s) B" "shape_ok s"
  shows "\<exists>s'. free_blocks s B = Some (s', without B (freed_blocks s)) \<and> same_holds s s' \<and> param_buffers s' = param_buffers s"
proof -
  let ?n = "safe_param_count s"
  let ?ps = "sql_blocks s @ heap_params s @ names_blocks ?n (param_names s) @ column_blocks s @ col_table_names s
    @ names_blocks (nat (num_col_names s)) (stmt_col_names s)"
  have "mset ?ps = mset (freed_blocks s)" by simp
  then have f: "freeable ?ps B" using assms(1) freeable_perm by blast
  let ?B1 = "without B (sql_blocks s)" and ?B2 = "without (without B (sql_blocks s)) (heap_params s)"
  let ?B3 = "without ?B2 (names_blocks ?n (param_names s))"
  let ?B4 = "without ?B3 (column_blocks s)"
  have f1: "freeable (sql_blocks s) B" and f2: "freeable (heap_params s) ?B1"
    and f3: "freeable (names_blocks ?n (param_names s)) ?B2" and f4: "freeable (column_blocks s) ?B3"
    and f5: "freeable (col_table_names s) ?B4"
    and f6: "freeable (names_blocks (nat (num_col_names s)) (stmt_col_names s)) (without ?B4 (col_table_names s))"
    using f by (simp_all only: freeable_append simp_thms)
  obtain s1 where s1: "free_sql s B = Some (s1, ?B1)" "same_holds s s1" "param_values s1 = param_values s"
      "param_buffers s1 = param_buffers s" "param_names s1 = param_names s" "param_count s1 = param_count s"
      "decoded_blobs s1 = decoded_blobs s" "cached_text s1 = cached_text s" "cached_blob s1 = cached_blob s"
      "col_table_names s1 = col_table_names s" "stmt_col_names s1 = stmt_col_names s" "num_col_names s1 = num_col_names s"
    using free_sql_ok [OF f1] by (simp add: same_holds_def)
  have m1: "marked_params s1 = marked_params s" by (rule marked_params_cong) (simp_all add: s1)
  obtain vs where s2: "clear_dynamic_param_values s1 ?B1 = Some (s1\<lparr>param_values := vs\<rparr>, ?B2)"
    using free_unmarked_ok [OF f2] by (simp add: clear_dynamic_param_values_def m1)
  let ?s3 = "s1\<lparr>param_values := vs, param_names := None\<rparr>"
  have s3: "free_param_names ?n (s1\<lparr>param_values := vs\<rparr>) ?B2 = Some (?s3, ?B3)"
    using free_names_ok [OF f3] assms(2) by (simp add: free_param_names_def shape_ok_def s1)
  obtain s4 where s4: "free_columns ?s3 ?B3 = Some (s4, ?B4)" "same_holds s1 s4" "col_table_names s4 = col_table_names s" "param_buffers s4 = param_buffers s"
      "stmt_col_names s4 = stmt_col_names s" "num_col_names s4 = num_col_names s"
    using free_columns_ok [of ?s3 ?B3] f4 by (simp add: same_holds_def s1)
  obtain s5 where s5: "free_table_names s4 ?B4 = Some (s5, without ?B4 (col_table_names s))" "same_holds s4 s5"
      "stmt_col_names s5 = stmt_col_names s" "num_col_names s5 = num_col_names s" "param_buffers s5 = param_buffers s"
    using free_ptrs_ok [OF f5] s4 by (simp add: free_table_names_def same_holds_def)
  obtain s6 where s6: "free_col_names s5 (without ?B4 (col_table_names s)) =
      Some (s6, without (without ?B4 (col_table_names s)) (names_blocks (nat (num_col_names s)) (stmt_col_names s)))" "same_holds s5 s6" "param_buffers s6 = param_buffers s"
    using free_col_names_ok [of s5 "without ?B4 (col_table_names s)"] f6 assms(2) s5 by (auto simp: shape_ok_def same_holds_def)
  have "safe_param_count s1 = ?n" by (simp add: safe_param_count_def s1)
  then have "free_blocks s B = Some (s6, without (without ?B4 (col_table_names s)) (names_blocks (nat (num_col_names s)) (stmt_col_names s)))"
    using s1(1) s2 s3 s4(1) s5(1) s6(1) by (simp add: free_blocks_def)
  then have "free_blocks s B = Some (s6, without B ?ps)" by (simp only: without_append)
  moreover have "without B ?ps = without B (freed_blocks s)" by (rule without_cong) auto
  moreover have "same_holds s s6" using s1(2) s4(2) s5(2) s6(2) by (simp add: same_holds_def)
  ultimately show ?thesis using s6(3) by auto
qed

section \<open>Connections\<close>

definition stmt_uses :: "PgStmt \<Rightarrow> ptr \<Rightarrow> nat" where
  "stmt_uses s q = of_bool (stmt_conn s = q) + of_bool (result_conn s = q) + of_bool (streaming_conn s = q)"

text \<open>The references to connections that statements hold; and with one more statement in hand.\<close>

definition hold_of :: "(ptr, PgStmt) hmap \<Rightarrow> ptr \<Rightarrow> nat" where
  "hold_of m q = (if q = 0 then 0 else hm_sum (\<lambda>s. stmt_uses s q) m)"

definition hold_with :: "(ptr, PgStmt) hmap \<Rightarrow> PgStmt \<Rightarrow> ptr \<Rightarrow> nat" where
  "hold_with m s q = (if q = 0 then 0 else hm_sum (\<lambda>s. stmt_uses s q) m + stmt_uses s q)"

lemma hold_of_get: "hm_ok m \<Longrightarrow> hm_get m p = Some s \<Longrightarrow> hold_of m = hold_with (hm_remove p m) s"
  by (rule ext) (simp add: hold_of_def hold_with_def hm_sum_get [of m p s])

lemma hold_of_insert: "hm_ok m \<Longrightarrow> hold_of (hm_insert p s m) = hold_with (hm_remove p m) s"
  by (rule ext) (simp add: hold_of_def hold_with_def hm_sum_insert)

lemma hold_with_cong: "same_holds s s' \<Longrightarrow> hold_with m s' = hold_with m s"
  by (rule ext) (simp add: hold_with_def stmt_uses_def same_holds_def)

lemma hold_with_none: "stmt_conn s = 0 \<Longrightarrow> result_conn s = 0 \<Longrightarrow> streaming_conn s = 0 \<Longrightarrow> hold_with m s = hold_of m"
  by (rule ext) (simp add: hold_with_def hold_of_def stmt_uses_def)

text \<open>Nothing of the pool or the registry changes for any thread or handle.\<close>

definition host_same :: "(ptr \<Rightarrow> nat) \<Rightarrow> 'w shim \<Rightarrow> 'w shim \<Rightarrow> bool" where
  "host_same hold S S' \<longleftrightarrow> (\<forall>t db. host_rel hold t db S S')"

lemma host_same_trans: "host_same hold' S S' \<Longrightarrow> host_same hold S' S'' \<Longrightarrow> host_same hold S S''"
  unfolding host_same_def using host_rel_trans by blast

lemma host_same_refl: "pool_ok hold S \<Longrightarrow> reg_ok S \<Longrightarrow> host_same hold S S"
  by (simp add: host_same_def host_rel_refl)

lemma host_same_ok: "host_same hold S S' \<Longrightarrow> pool_ok hold S' \<and> reg_ok S' \<and> env S' = env S"
  by (auto simp: host_same_def host_rel_def)

lemma host_same_world [simp]: "host_same hold S (S'\<lparr>world := w\<rparr>) = host_same hold S S'"
  by (simp add: host_same_def)

lemma returns_all: "(\<And>t db. returns m (Q t db)) \<Longrightarrow> returns m (\<lambda>x. \<forall>t db. Q t db x)"
  by (cases m) auto

lemma replace_use:
  fixes b :: "ptr \<Rightarrow> nat"
  assumes ok: "pool_ok (\<lambda>q. if q = 0 then 0 else b q + of_bool (old = q)) S" and reg: "reg_ok S" and new: "new = 0 \<or> heap S new \<noteq> None"
  shows "returns (replace_conn old new S) (\<lambda>(p, S'). p = new \<and> host_same (\<lambda>q. if q = 0 then 0 else b q + of_bool (new = q)) S S')"
proof (cases "old = new")
  case True
  then show ?thesis using host_same_refl [OF ok reg] by (simp add: replace_conn_def cong: if_cong)
next
  case False
  let ?hold = "\<lambda>q. if q = 0 then 0 else b q + of_bool (old = q)" and ?hold' = "\<lambda>q. if q = 0 then 0 else b q + of_bool (new = q)"
  have old: "old = 0 \<or> ?hold old = Suc (b old)" by simp
  have eq: "(if old = 0 then if new = 0 then ?hold else ?hold(new := Suc (?hold new))
      else (if new = 0 then ?hold else ?hold(new := Suc (?hold new)))(old := b old)) = ?hold'"
    using False by (auto simp: fun_eq_iff)
  have "returns (replace_conn old new S) (\<lambda>x. fst x = new \<and> host_rel ?hold' t db S (snd x))" for t db
    using replace_conn_host_rel [OF ok reg old new False, of t db] unfolding eq by (simp add: case_prod_unfold)
  then have "returns (replace_conn old new S) (\<lambda>x. \<forall>t db. fst x = new \<and> host_rel ?hold' t db S (snd x))" by (rule returns_all)
  then show ?thesis by (simp add: host_same_def case_prod_unfold)
qed

lemma set_conn_ok:
  assumes "pool_ok (hold_with m s) S" "reg_ok S" "c = 0 \<or> heap S c \<noteq> None"
  shows "returns (set_conn c s S) (\<lambda>(s', S'). s' = s\<lparr>stmt_conn := c\<rparr> \<and> host_same (hold_with m s') S S')"
    and "returns (set_result_conn c s S) (\<lambda>(s', S'). s' = s\<lparr>result_conn := c\<rparr> \<and> host_same (hold_with m s') S S')"
    and "returns (set_streaming_conn c s S) (\<lambda>(s', S'). s' = s\<lparr>streaming_conn := c\<rparr> \<and> host_same (hold_with m s') S S')"
proof -
  let ?t = "\<lambda>q. hm_sum (\<lambda>s. stmt_uses s q) m"
  have h: "hold_with m s' = (\<lambda>q. if q = 0 then 0 else (?t q + of_bool (result_conn s' = q) + of_bool (streaming_conn s' = q)) + of_bool (stmt_conn s' = q))"
    "hold_with m s' = (\<lambda>q. if q = 0 then 0 else (?t q + of_bool (stmt_conn s' = q) + of_bool (streaming_conn s' = q)) + of_bool (result_conn s' = q))"
    "hold_with m s' = (\<lambda>q. if q = 0 then 0 else (?t q + of_bool (stmt_conn s' = q) + of_bool (result_conn s' = q)) + of_bool (streaming_conn s' = q))" for s'
    by (auto simp: hold_with_def stmt_uses_def fun_eq_iff)
  show "returns (set_conn c s S) (\<lambda>(s', S'). s' = s\<lparr>stmt_conn := c\<rparr> \<and> host_same (hold_with m s') S S')"
    unfolding set_conn_def returns_bind
    by (rule returns_weaken [OF replace_use [OF assms(1) [unfolded h(1)] assms(2,3)]]) (auto simp: h(1) cong: if_cong)
  show "returns (set_result_conn c s S) (\<lambda>(s', S'). s' = s\<lparr>result_conn := c\<rparr> \<and> host_same (hold_with m s') S S')"
    unfolding set_result_conn_def returns_bind
    by (rule returns_weaken [OF replace_use [OF assms(1) [unfolded h(2)] assms(2,3)]]) (auto simp: h(2) cong: if_cong)
  show "returns (set_streaming_conn c s S) (\<lambda>(s', S'). s' = s\<lparr>streaming_conn := c\<rparr> \<and> host_same (hold_with m s') S S')"
    unfolding set_streaming_conn_def returns_bind
    by (rule returns_weaken [OF replace_use [OF assms(1) [unfolded h(3)] assms(2,3)]]) (auto simp: h(3) cong: if_cong)
qed

lemma release_conns_ok:
  assumes "pool_ok (hold_with m s) S" "reg_ok S"
  shows "returns (release_conns s S) (\<lambda>(s', S'). host_same (hold_of m) S S')"
proof -
  have rest: "returns (set_streaming_conn 0 s2 S2) (\<lambda>(s', S'). host_same (hold_of m) S S')"
    if "s2 = s\<lparr>stmt_conn := 0, result_conn := 0\<rparr>" "host_same (hold_with m s2) S S2" for s2 S2
    by (rule returns_weaken [OF set_conn_ok(3) [of m s2 S2 0]])
      (use that host_same_ok [OF that(2)] hold_with_none [of "s2\<lparr>streaming_conn := 0\<rparr>" m] in \<open>auto intro: host_same_trans [OF that(2)]\<close>)
  have mid: "returns (do { (s, S) \<leftarrow> set_result_conn 0 s1 S1; set_streaming_conn 0 s S }) (\<lambda>(s', S'). host_same (hold_of m) S S')"
    if s1: "s1 = s\<lparr>stmt_conn := 0\<rparr>" "host_same (hold_with m s1) S S1" for s1 S1
    unfolding returns_bind
    by (rule returns_weaken [OF set_conn_ok(2) [of m s1 S1 0]])
      (use s1 host_same_ok [OF s1(2)] in \<open>auto intro!: rest host_same_trans [OF s1(2)]\<close>)
  show ?thesis
    unfolding release_conns_def
    by (subst returns_bind, rule returns_weaken [OF set_conn_ok(1) [OF assms]]) (auto intro!: mid)
qed

section \<open>Streams\<close>

text \<open>
  What libpq documents and the settling of a stream relies on: what a connection still has to
  deliver is finite, reading input adds nothing to it, and each result taken is one less.
\<close>

definition streams_finite :: "'w libpq \<Rightarrow> bool" where
  "streams_finite L \<longleftrightarrow> (\<exists>pending. \<forall>pgc. results_finite L (pending pgc) pgc
     \<and> (\<forall>w. pending pgc (snd (PQconsumeInput L pgc w)) \<le> pending pgc w))"

lemma clear_received_results_returns:
  assumes "streams_finite L"
  shows "\<exists>r. clear_received_results L pgc w = Some r"
proof -
  obtain pending where "\<forall>pgc. results_finite L (pending pgc) pgc \<and> (\<forall>w. pending pgc (snd (PQconsumeInput L pgc w)) \<le> pending pgc w)"
    using assms unfolding streams_finite_def by blast
  then have fin: "results_finite L (pending pgc) pgc" and le: "\<And>w. pending pgc (snd (PQconsumeInput L pgc w)) \<le> pending pgc w" by auto
  show ?thesis
  proof (induction "pending pgc w" arbitrary: w rule: less_induct)
    case less
    obtain n w1 where w1: "PQconsumeInput L pgc w = (n, w1)" by (cases "PQconsumeInput L pgc w")
    obtain r w2 where w2: "PQgetResult L pgc w1 = (r, w2)" by (cases "PQgetResult L pgc w1")
    show ?case
    proof (cases "pgc = 0 \<or> PQisBusy L pgc w1 \<noteq> 0 \<or> r = 0")
      case True
      then show ?thesis using w1 w2
        by (subst clear_received_results.simps) (auto simp: rust_pq_consume_input_def rust_pq_is_busy_def rust_pq_get_result_def)
    next
      case False
      have "pending pgc (PQclear L r w2) < pending pgc w1"
        using fin w2 False by (auto simp: results_finite_def Let_def dest: spec [of _ w1])
      also have "\<dots> \<le> pending pgc w" using le [of w] w1 by simp
      finally obtain x where "clear_received_results L pgc (PQclear L r w2) = Some x" using less by blast
      then show ?thesis using False w1 w2
        by (subst clear_received_results.simps)
          (simp add: rust_pq_consume_input_def rust_pq_is_busy_def rust_pq_get_result_def rust_pq_clear_def)
    qed
  qed
qed

lemma flag_same:
  assumes ok: "pool_ok hold S" and reg: "reg_ok S" and c: "heap S p = Some c"
  shows "host_same hold S (S\<lparr>heap := (heap S)(p \<mapsto> c\<lparr>streaming_active := n\<rparr>)\<rparr>)" (is "host_same hold S ?S")
proof -
  have act: "active ?S q = active S q" for q using c by (simp add: active_def)
  have "mem_ok (refs hold (pm S)) S" using ok by (simp add: pool_ok_but_def)
  then have "mem_ok (refs hold (pm S)) ?S" using c by (rule mem_ok_modify) simp_all
  then have "pool_ok hold ?S" by (rule pool_ok_heap [OF ok _ refl]) (simp add: act)
  moreover have "map_option shadow_db (heap ?S q) = map_option shadow_db (heap S q)" for q using c by simp
  then have "reg_ok ?S" using reg unfolding reg_ok_def by simp
  moreover have "recorded u d q ?S = recorded u d q S" for u d q unfolding recorded_def act by simp
  ultimately show ?thesis by (simp add: host_same_def host_rel_def undisturbed_def)
qed

definition settled :: "PgStmt \<Rightarrow> PgStmt" where
  "settled s = (if streaming_mode s = 0 \<or> streaming_conn s = 0 then s else s\<lparr>streaming_mode := 0, streaming_conn := 0\<rparr>)"

lemma clear_streaming_ok:
  assumes fin: "streams_finite L" and ok: "pool_ok (hold_with m s) S" and reg: "reg_ok S"
  shows "returns (clear_streaming_state L s S) (\<lambda>(s', S'). s' = settled s \<and> host_same (hold_with m (settled s)) S S')"
proof (cases "streaming_mode s = 0 \<or> streaming_conn s = 0")
  case True
  then show ?thesis using host_same_refl [OF ok reg] by (auto simp: clear_streaming_state_def settled_def)
next
  case False
  let ?p = "streaming_conn s"
  have "hold_with m s ?p \<noteq> 0" using False by (simp add: hold_with_def stmt_uses_def)
  then obtain c where c: "heap S ?p = Some c" using held_allocated [OF ok] False by blast
  let ?s = "s\<lparr>streaming_mode := 0\<rparr>"
  have tail: "returns (do { S \<leftarrow> modify_conn ?p (\<lambda>c. c\<lparr>streaming_active := 0\<rparr>) (S\<lparr>world := w\<rparr>); set_streaming_conn 0 ?s S })
    (\<lambda>(s', S'). s' = settled s \<and> host_same (hold_with m (settled s)) S S')" for w
  proof -
    let ?S = "S\<lparr>world := w, heap := (heap S)(?p \<mapsto> c\<lparr>streaming_active := 0\<rparr>)\<rparr>"
    have "hold_with m ?s = hold_with m s" by (rule hold_with_cong) (simp add: same_holds_def)
    moreover have eq: "?S = S\<lparr>heap := (heap S)(?p \<mapsto> c\<lparr>streaming_active := 0\<rparr>), world := w\<rparr>" by simp
    have same: "host_same (hold_with m s) S ?S" unfolding eq host_same_world by (rule flag_same [OF ok reg c])
    ultimately have "pool_ok (hold_with m ?s) ?S" "reg_ok ?S" using host_same_ok by auto
    from set_conn_ok(3) [OF this, of 0] show ?thesis
      using c False by (auto simp: modify_conn_def settled_def elim!: returns_weaken intro: host_same_trans [OF same])
  qed
  obtain r where r: "clear_received_results L (pg_conn c) (world S) = Some r" using clear_received_results_returns [OF fin] by blast
  have S: "S\<lparr>world := world S\<rparr> = S" by simp
  show ?thesis
    using False c tail [of "world S"] tail [of "if fst r then cancel_stream L (pg_conn c) (snd r) else snd r"] r
    unfolding clear_streaming_state_def S
    by (cases r) (auto simp: S split: if_splits)
qed

section \<open>Results\<close>

text \<open>A statement after its result is gone: what was bound and prepared stays.\<close>

definition result_cleared :: "PgStmt \<Rightarrow> PgStmt \<Rightarrow> bool" where
  "result_cleared s s' \<longleftrightarrow> s' = (settled s)\<lparr>stmt_result := 0, cached_result := None, result_conn := 0, metadata_only_result := 0,
     current_row := -1, num_rows := 0, num_cols := 0, write_executed := 0, read_done := 0,
     decoded_blobs := replicate (length (decoded_blobs s)) 0, cached_text := replicate (length (cached_text s)) 0,
     cached_blob := replicate (length (cached_blob s)) 0, decoded_blob_lens := decoded_blob_lens s', cached_blob_len := cached_blob_len s',
     decoded_blob_row := -1, cached_row := -1, stmt_col_names := None, num_col_names := (if stmt_col_names s = None then num_col_names s else 0)\<rparr>
     \<and> length (decoded_blob_lens s') = length (decoded_blob_lens s) \<and> length (cached_blob_len s') = length (cached_blob_len s)"

lemma clear_result_ok:
  assumes fin: "streams_finite L" and ok: "pool_ok (hold_of (stmts X)) (shim_of X)" "reg_ok (shim_of X)" and m: "hm_ok (stmts X)"
    and p: "hm_get (stmts X) p = Some s" "p \<noteq> 0" and shape: "shape_ok s" and free: "freeable (result_blocks s) (c_heap X)"
  shows "returns (rust_stmt_clear_result L p X) (\<lambda>X'. \<exists>s' S' Q. result_cleared s s'
    \<and> X' = (set_shim S' (put_stmt p s' X))\<lparr>c_heap := without (c_heap X) (result_blocks s), qcaches := Q\<rparr>
    \<and> host_same (hold_with (hm_remove p (stmts X)) s') (shim_of X) S')"
proof -
  let ?m = "hm_remove p (stmts X)" and ?S = "shim_of X"
  have ok1: "pool_ok (hold_with ?m s) ?S" using ok(1) hold_of_get [OF m p(1)] by simp
  obtain S1 where S1: "clear_streaming_state L s ?S = Some (settled s, S1)" "host_same (hold_with ?m (settled s)) ?S S1"
    using returnsD [OF clear_streaming_ok [OF fin ok1 ok(2)]] by auto
  obtain s2 S2 where s2: "drop_result L (settled s) S1 = (s2, S2)" by (cases "drop_result L (settled s) S1")
  obtain s3 Q where s3: "release_cached (qc_enabled X) s2 (qcaches X) = (s3, Q)" by (cases "release_cached (qc_enabled X) s2 (qcaches X)")
  have s3': "s3 = (settled s)\<lparr>stmt_result := 0, cached_result := None\<rparr>"
    using s2 s3 by (cases "cached_result s2") (auto simp: drop_result_def release_cached_def split: if_splits)
  have "hold_with ?m s3 = hold_with ?m (settled s)" unfolding s3' by (rule hold_with_cong) (simp add: same_holds_def)
  moreover have "host_same (hold_with ?m (settled s)) ?S S2" using S1(2) s2 by (auto simp: drop_result_def split: if_splits)
  ultimately have same: "host_same (hold_with ?m s3) ?S S2" by simp
  obtain S4 where S4: "set_result_conn 0 s3 S2 = Some (s3\<lparr>result_conn := 0\<rparr>, S4)" "host_same (hold_with ?m (s3\<lparr>result_conn := 0\<rparr>)) S2 S4"
    using returnsD [OF set_conn_ok(2) [of ?m s3 S2 0]] host_same_ok [OF same] by auto
  let ?s5 = "s3\<lparr>result_conn := 0, metadata_only_result := 0, current_row := -1, num_rows := 0, num_cols := 0, write_executed := 0, read_done := 0\<rparr>"
  have keep: "decoded_blobs ?s5 = decoded_blobs s" "decoded_blob_lens ?s5 = decoded_blob_lens s" "cached_text ?s5 = cached_text s"
    "cached_blob ?s5 = cached_blob s" "cached_blob_len ?s5 = cached_blob_len s" "stmt_col_names ?s5 = stmt_col_names s" "num_col_names ?s5 = num_col_names s"
    by (simp_all add: s3' settled_def)
  obtain bl cl where lens: "zero_lens (decoded_blobs s) (decoded_blob_lens s) = Some bl" "length bl = length (decoded_blob_lens s)"
    "zero_lens (cached_blob s) (cached_blob_len s) = Some cl" "length cl = length (cached_blob_len s)"
    using zero_lens_ok shape by (metis shape_ok_def)
  let ?B1 = "without (c_heap X) (column_blocks s)"
  have f: "freeable (column_blocks s) (c_heap X)" "freeable (names_blocks (nat (num_col_names s)) (stmt_col_names s)) ?B1"
    using free by (simp_all only: freeable_append simp_thms)
  let ?s6 = "?s5\<lparr>decoded_blobs := replicate (length (decoded_blobs s)) 0, cached_text := replicate (length (cached_text s)) 0,
    cached_blob := replicate (length (cached_blob s)) 0, decoded_blob_lens := bl, cached_blob_len := cl, decoded_blob_row := -1, cached_row := -1\<rparr>"
  have c6: "clear_columns ?s5 (c_heap X) = Some (?s6, ?B1)"
    using free_columns_ok [of ?s5 "c_heap X"] f(1) lens by (simp add: clear_columns_def keep)
  let ?s7 = "if stmt_col_names s = None then ?s6 else ?s6\<lparr>stmt_col_names := None, num_col_names := 0\<rparr>"
  have c7: "free_col_names ?s6 ?B1 = Some (?s7, without (c_heap X) (result_blocks s))"
    using free_col_names_ok [of ?s6 ?B1] f(2) shape keep by (simp add: shape_ok_def without_append)
  have "result_cleared s ?s7" using lens by (auto simp: result_cleared_def s3' settled_def)
  moreover have "hold_with ?m ?s7 = hold_with ?m (s3\<lparr>result_conn := 0\<rparr>)" by (rule hold_with_cong) (simp add: same_holds_def)
  with host_same_trans [OF same S4(2)] have "host_same (hold_with ?m ?s7) ?S S4" by simp
  moreover have "rust_stmt_clear_result L p X = Some ((set_shim S4 (put_stmt p ?s7 X))\<lparr>c_heap := without (c_heap X) (result_blocks s), qcaches := Q\<rparr>)"
    using p S1(1) s2 s3 S4(1) c6 c7 by (simp add: rust_stmt_clear_result_def)
  ultimately show ?thesis by (auto simp only: returns_Some)
qed

section \<open>The account\<close>

abbreviation owned_mset :: "PgStmt \<Rightarrow> ptr multiset" where
  "owned_mset s \<equiv> mset (filter (\<lambda>p. p \<noteq> 0) (owned_blocks s))"

text \<open>Every block that is allocated has exactly one owner, and no other is owned.\<close>

definition covered :: "ptr multiset \<Rightarrow> c_blocks \<Rightarrow> bool" where
  "covered M B \<longleftrightarrow> (\<forall>b. count M b = (if B b = None then 0 else 1))"

definition blocks_ok :: "(ptr, PgStmt) hmap \<Rightarrow> c_blocks \<Rightarrow> bool" where
  "blocks_ok m B \<longleftrightarrow> covered (hm_sum owned_mset m) B"

lemma count_one: "(\<And>b. count (mset xs) b \<le> 1) \<Longrightarrow> distinct xs"
  by (simp add: distinct_count_atmost_1 count_mset_0_iff le_Suc_eq)

lemma covered_free:
  assumes "covered (mset (filter (\<lambda>p. p \<noteq> 0) ps) + M) B"
  shows "freeable ps B" "covered M (without B ps)"
proof -
  let ?ps = "filter (\<lambda>p. p \<noteq> 0) ps"
  have c: "count (mset ?ps) b + count M b = (if B b = None then 0 else 1)" for b using assms by (simp add: covered_def)
  have "count (mset ?ps) b \<le> 1" for b using add_leD1 [OF eq_refl [OF c [of b]]] by (rule order_trans) simp
  then have "distinct ?ps" by (rule count_one)
  moreover have in_dom: "B b \<noteq> None" and out: "count M b = 0" if "b \<in> set ps - {0}" for b
  proof -
    have pos: "0 < count (mset ?ps) b" using that by (simp add: count_mset_gt_0)
    have "0 < k \<Longrightarrow> k + l = (if B b = None then 0 else 1) \<Longrightarrow> B b \<noteq> None \<and> l = 0" for k l :: nat by (auto split: if_splits)
    from this [OF pos c] show "B b \<noteq> None" "count M b = 0" by blast+
  qed
  ultimately show "freeable ps B" by (auto simp: freeable_def dom_def)
  have "count M b = (if without B ps b = None then 0 else 1)" for b
  proof (cases "b \<in> set ps - {0}")
    case True
    then show ?thesis using out [OF True] by (simp add: without_def)
  next
    case False
    then have "b \<notin> set ?ps" by auto
    then have z: "count (mset ?ps) b = 0" unfolding count_mset_0_iff .
    have "count M b = (if B b = None then 0 else 1)" by (rule c [of b, unfolded z add_0])
    moreover have "without B ps b = B b" using False by (auto simp: without_def restrict_map_def)
    ultimately show ?thesis by (simp only:)
  qed
  then show "covered M (without B ps)" by (simp add: covered_def)
qed

lemma blocks_ok_get:
  "hm_ok m \<Longrightarrow> hm_get m p = Some s \<Longrightarrow> blocks_ok m B \<longleftrightarrow> covered (owned_mset s + hm_sum owned_mset (hm_remove p m)) B"
  by (simp add: blocks_ok_def hm_sum_get)

lemma blocks_ok_insert:
  "hm_ok m \<Longrightarrow> blocks_ok (hm_insert p s m) B \<longleftrightarrow> covered (owned_mset s + hm_sum owned_mset (hm_remove p m)) B"
  by (simp add: blocks_ok_def hm_sum_insert)

text \<open>
  \<open>stmts_ok R X\<close>: with \<open>R\<close> the references somebody has to each statement, the objects are exactly
  those that are referenced, each with the right count, each the owner of its blocks, and their
  pointers are exactly the references to connections the process accounts for. The option
  that leaks statements on purpose is off.
\<close>

definition entry_ok :: "nat \<Rightarrow> PgStmt option \<Rightarrow> bool" where
  "entry_ok n e = (case e of None \<Rightarrow> n = 0 | Some s \<Rightarrow> 0 < n \<and> stmt_refs s = int n \<and> shape_ok s)"

definition stmts_ok :: "(ptr \<Rightarrow> nat) \<Rightarrow> 'w statements \<Rightarrow> bool" where
  "stmts_ok R X \<longleftrightarrow> hm_ok (stmts X) \<and> hm_get (stmts X) 0 = None
     \<and> (\<forall>p. entry_ok (R p) (hm_get (stmts X) p)) \<and> blocks_ok (stmts X) (c_heap X) \<and> pool_ok (hold_of (stmts X)) (shim_of X) \<and> reg_ok (shim_of X) \<and> \<not> leak_enabled X"

lemma stmts_ok_get:
  assumes "stmts_ok R X" "0 < R p"
  obtains s where "hm_get (stmts X) p = Some s" "stmt_refs s = int (R p)" "shape_ok s" "p \<noteq> 0"
proof -
  have all: "entry_ok (R p) (hm_get (stmts X) p)" using assms(1) unfolding stmts_ok_def by blast
  then obtain s where s: "hm_get (stmts X) p = Some s" using assms(2) by (cases "hm_get (stmts X) p") (auto simp: entry_ok_def)
  moreover have "p \<noteq> 0" using assms(1) s by (cases "p = 0") (auto simp: stmts_ok_def)
  ultimately show ?thesis using that all by (simp add: entry_ok_def)
qed

lemma stmts_ok_alive: "stmts_ok R X \<Longrightarrow> hm_get (stmts X) p = Some s \<Longrightarrow> 0 < R p \<and> stmt_refs s = int (R p) \<and> shape_ok s \<and> p \<noteq> 0"
  unfolding stmts_ok_def by (cases "p = 0") (auto simp: entry_ok_def dest: spec [of _ p])

lemma stmts_okD:
  "stmts_ok R X \<Longrightarrow> hm_ok (stmts X)" "stmts_ok R X \<Longrightarrow> blocks_ok (stmts X) (c_heap X)"
  "stmts_ok R X \<Longrightarrow> pool_ok (hold_of (stmts X)) (shim_of X)" "stmts_ok R X \<Longrightarrow> reg_ok (shim_of X)" "stmts_ok R X \<Longrightarrow> \<not> leak_enabled X"
  by (simp_all add: stmts_ok_def)

text \<open>What an operation on one statement leaves alone: the tables, the pool, and every other statement.\<close>

definition tables_same :: "'w statements \<Rightarrow> 'w statements \<Rightarrow> bool" where
  "tables_same X X' \<longleftrightarrow> forward X' = forward X \<and> reverse X' = reverse X \<and> tls_stmts X' = tls_stmts X \<and> qc_enabled X' = qc_enabled X
     \<and> finalized_ring X' = finalized_ring X \<and> finalized_idx X' = finalized_idx X \<and> prepared_ring X' = prepared_ring X
     \<and> prepared_idx X' = prepared_idx X \<and> current_conn X' = current_conn X"

definition stmt_rel :: "ptr set \<Rightarrow> 'w statements \<Rightarrow> 'w statements \<Rightarrow> bool" where
  "stmt_rel P X X' \<longleftrightarrow> tables_same X X' \<and> host_same (hold_of (stmts X')) (shim_of X) (shim_of X')
     \<and> (\<forall>q. q \<notin> P \<longrightarrow> hm_get (stmts X') q = hm_get (stmts X) q)"

lemma stmt_rel_refl: "stmts_ok R X \<Longrightarrow> stmt_rel P X X"
  by (simp add: stmt_rel_def tables_same_def host_same_refl stmts_okD)

lemma stmt_rel_trans: "stmt_rel P X X' \<Longrightarrow> stmt_rel P X' X'' \<Longrightarrow> stmt_rel P X X''"
  by (auto simp: stmt_rel_def tables_same_def elim: host_same_trans)

lemma stmt_rel_mono: "stmt_rel P X X' \<Longrightarrow> P \<subseteq> P' \<Longrightarrow> stmt_rel P' X X'"
  by (auto simp: stmt_rel_def)

lemma leak_enabled_env: "env (shim_of X') = env (shim_of X) \<Longrightarrow> leak_enabled X' = leak_enabled X"
  by (simp add: leak_enabled_def)

lemma set_shim_simps [simp]:
  "shim_of (set_shim S X) = S" "stmts (set_shim S X) = stmts X" "c_heap (set_shim S X) = c_heap X" "forward (set_shim S X) = forward X"
  "reverse (set_shim S X) = reverse X" "tls_stmts (set_shim S X) = tls_stmts X" "qcaches (set_shim S X) = qcaches X"
  "qc_enabled (set_shim S X) = qc_enabled X" "finalized_ring (set_shim S X) = finalized_ring X" "finalized_idx (set_shim S X) = finalized_idx X"
  "prepared_ring (set_shim S X) = prepared_ring X" "prepared_idx (set_shim S X) = prepared_idx X" "current_conn (set_shim S X) = current_conn X"
  by (simp_all add: set_shim_def)

lemma put_stmt_simps [simp]:
  "stmt_host (put_stmt p s X) = stmt_host X" "stmts (put_stmt p s X) = hm_insert p s (stmts X)" "c_heap (put_stmt p s X) = c_heap X"
  "forward (put_stmt p s X) = forward X" "reverse (put_stmt p s X) = reverse X" "tls_stmts (put_stmt p s X) = tls_stmts X"
  "qcaches (put_stmt p s X) = qcaches X" "qc_enabled (put_stmt p s X) = qc_enabled X" "finalized_ring (put_stmt p s X) = finalized_ring X"
  "finalized_idx (put_stmt p s X) = finalized_idx X" "prepared_ring (put_stmt p s X) = prepared_ring X"
  "prepared_idx (put_stmt p s X) = prepared_idx X" "current_conn (put_stmt p s X) = current_conn X"
  by (simp_all add: put_stmt_def)

text \<open>One statement replaced by another in the account.\<close>

lemma stmts_ok_put:
  assumes ok: "stmts_ok R X" and p: "p \<noteq> 0" and s': "stmt_refs s' = int n" "0 < n" "shape_ok s'"
    and host: "host_same (hold_with (hm_remove p (stmts X)) s') (shim_of X) (shim_of X')"
    and blocks: "covered (owned_mset s' + hm_sum owned_mset (hm_remove p (stmts X))) (c_heap X')"
    and X': "stmts X' = hm_insert p s' (stmts X)" "tables_same X X'"
  shows "stmts_ok (R(p := n)) X' \<and> stmt_rel {p} X X'"
proof -
  have m: "hm_ok (stmts X)" using ok by (rule stmts_okD)
  have "host_same (hold_of (stmts X')) (shim_of X) (shim_of X')" using host by (simp add: X' hold_of_insert [OF m])
  moreover from this have "pool_ok (hold_of (stmts X')) (shim_of X')" "reg_ok (shim_of X')" "\<not> leak_enabled X'"
    using host_same_ok stmts_okD(5) [OF ok] leak_enabled_env [of X' X] by blast+
  ultimately show ?thesis
    using ok p s' blocks X' m unfolding stmts_ok_def stmt_rel_def by (auto simp: entry_ok_def [of n] blocks_ok_insert)
qed

lemma stmts_ok_drop:
  assumes ok: "stmts_ok R X" and p: "hm_get (stmts X) p = Some s"
    and host: "host_same (hold_of (hm_remove p (stmts X))) (shim_of X) (shim_of X')"
    and X': "stmts X' = hm_remove p (stmts X)" "c_heap X' = without (c_heap X) (owned_blocks s)" "tables_same X X'"
  shows "stmts_ok (R(p := 0)) X' \<and> stmt_rel {p} X X'"
proof -
  have m: "hm_ok (stmts X)" using ok by (rule stmts_okD)
  have "covered (owned_mset s + hm_sum owned_mset (hm_remove p (stmts X))) (c_heap X)"
    using stmts_okD(2) [OF ok] by (simp add: blocks_ok_get [OF m p])
  then have "blocks_ok (stmts X') (c_heap X')" using covered_free(2) by (simp add: X' blocks_ok_def)
  moreover from host have "pool_ok (hold_of (stmts X')) (shim_of X')" "reg_ok (shim_of X')" "\<not> leak_enabled X'"
    using host_same_ok stmts_okD(5) [OF ok] leak_enabled_env [of X' X] X'(1) by metis+
  ultimately show ?thesis
    using ok X' m host unfolding stmts_ok_def stmt_rel_def by (auto simp: entry_ok_def [of 0])
qed

section \<open>References\<close>

lemma owned_settled [simp]:
  "owned_blocks ((settled s)\<lparr>stmt_result := 0, cached_result := None\<rparr>) = owned_blocks s"
  "shape_ok ((settled s)\<lparr>stmt_result := 0, cached_result := None\<rparr>) = shape_ok s"
  by (simp_all add: owned_blocks_def marked_params_def is_preallocated_buffer_def safe_param_count_def settled_def shape_ok_def)

lemma owned_refs [simp]:
  "owned_blocks (s\<lparr>stmt_refs := n\<rparr>) = owned_blocks s" "shape_ok (s\<lparr>stmt_refs := n\<rparr>) = shape_ok s"
  by (simp_all add: owned_blocks_def marked_params_def is_preallocated_buffer_def safe_param_count_def shape_ok_def)

lemma hold_refs [simp]: "hold_with m (s\<lparr>stmt_refs := n\<rparr>) = hold_with m s"
  by (rule ext) (simp add: hold_with_def stmt_uses_def)

lemma rust_stmt_free_ok:
  assumes fin: "streams_finite L" and p: "hm_get (stmts X) p = Some s" "p \<noteq> 0" "stmt_refs s = 0" and shape: "shape_ok s"
    and free: "freeable (owned_blocks s) (c_heap X)"
    and ok: "pool_ok (hold_with (hm_remove p (stmts X)) s) (shim_of X)" "reg_ok (shim_of X)"
  shows "returns (rust_stmt_free L p X) (\<lambda>X'. \<exists>S' Q. X' = (set_shim S' X)\<lparr>stmts := hm_remove p (stmts X),
      c_heap := without (c_heap X) (owned_blocks s), qcaches := Q\<rparr>
    \<and> host_same (hold_of (hm_remove p (stmts X))) (shim_of X) S')"
proof -
  let ?m = "hm_remove p (stmts X)" and ?S = "shim_of X"
  obtain S1 where S1: "clear_streaming_state L s ?S = Some (settled s, S1)" "host_same (hold_with ?m (settled s)) ?S S1"
    using returnsD [OF clear_streaming_ok [OF fin ok]] by auto
  obtain s2 S2 where s2: "drop_result L (settled s) S1 = (s2, S2)" by (cases "drop_result L (settled s) S1")
  obtain s3 Q where s3: "release_cached (qc_enabled X) s2 (qcaches X) = (s3, Q)" by (cases "release_cached (qc_enabled X) s2 (qcaches X)")
  have s3': "s3 = (settled s)\<lparr>stmt_result := 0, cached_result := None\<rparr>"
    using s2 s3 by (cases "cached_result s2") (auto simp: drop_result_def release_cached_def split: if_splits)
  have "hold_with ?m s3 = hold_with ?m (settled s)" unfolding s3' by (rule hold_with_cong) (simp add: same_holds_def)
  moreover have "host_same (hold_with ?m (settled s)) ?S S2" using S1(2) s2 by (auto simp: drop_result_def split: if_splits)
  ultimately have same: "host_same (hold_with ?m s3) ?S S2" by simp
  have own: "freed_blocks s3 = freed_blocks s" "param_buffers s3 = param_buffers s" "shape_ok s3 = shape_ok s"
    by (simp_all add: s3' settled_def marked_params_def is_preallocated_buffer_def safe_param_count_def shape_ok_def)
  have "freeable (freed_blocks s) (c_heap X)" using free unfolding owned_blocks_def by (simp only: freeable_append)
  then obtain s4 where s4: "free_blocks s3 (c_heap X) = Some (s4, without (c_heap X) (freed_blocks s))" "same_holds s3 s4" "param_buffers s4 = param_buffers s"
    using free_blocks_ok [of s3 "c_heap X"] shape unfolding own by auto
  have "pool_ok (hold_with ?m s4) S2" "reg_ok S2" using host_same_ok [OF same] hold_with_cong [OF s4(2), of ?m] by simp_all
  then obtain s5 S5 where S5: "release_conns s4 S2 = Some (s5, S5)" "host_same (hold_of ?m) S2 S5"
    using returnsD [OF release_conns_ok] by fastforce
  have "param_buffers s5 = param_buffers s"
    using S5(1) s4(3) by (auto simp: release_conns_def set_conn_def set_result_conn_def set_streaming_conn_def split: bind_splits)
  moreover have "0 \<notin> set (buffer_cells s)" using shape by (auto simp: shape_ok_def)
  ultimately have cells: "drop_cells (buffer_cells s5) (without (c_heap X) (freed_blocks s)) = without (c_heap X) (owned_blocks s)"
    unfolding owned_blocks_def without_append by (simp add: drop_cells_def without_def)
  have "rust_stmt_free L p X = Some ((set_shim S5 X)\<lparr>stmts := ?m, c_heap := without (c_heap X) (owned_blocks s), qcaches := Q\<rparr>)"
    using p S1(1) s2 s3 s4(1) S5(1) cells by (simp add: rust_stmt_free_def)
  moreover have "host_same (hold_of ?m) ?S S5" by (rule host_same_trans [OF same S5(2)])
  ultimately show ?thesis by auto
qed

lemma stmt_ref_ok:
  assumes ok: "stmts_ok R X" and p: "0 < R p"
  shows "returns (rust_stmt_ref p X) (\<lambda>X'. stmts_ok (R(p := R p + 1)) X' \<and> stmt_rel {p} X X' \<and> c_heap X' = c_heap X)"
proof -
  obtain s where s: "hm_get (stmts X) p = Some s" "stmt_refs s = int (R p)" "shape_ok s" "p \<noteq> 0" using stmts_ok_get [OF ok p] .
  let ?s = "s\<lparr>stmt_refs := stmt_refs s + 1\<rparr>"
  have m: "hm_ok (stmts X)" using ok by (rule stmts_okD)
  have "host_same (hold_with (hm_remove p (stmts X)) ?s) (shim_of X) (shim_of X)"
    using host_same_refl stmts_okD(3,4) [OF ok] hold_of_get [OF m s(1)] by fastforce
  moreover have "covered (owned_mset ?s + hm_sum owned_mset (hm_remove p (stmts X))) (c_heap X)"
    using stmts_okD(2) [OF ok] blocks_ok_get [OF m s(1)] by simp
  ultimately have "stmts_ok (R(p := R p + 1)) (put_stmt p ?s X) \<and> stmt_rel {p} X (put_stmt p ?s X)"
    using s by (intro stmts_ok_put [OF ok s(4)]) (simp_all add: tables_same_def)
  then show ?thesis using s by (simp add: rust_stmt_ref_def)
qed

text \<open>
  Giving a reference back: the last one frees the object with all its blocks and gives back its
  connections; any other only counts down.
\<close>

lemma stmt_unref_ok:
  assumes fin: "streams_finite L" and ok: "stmts_ok R X" and p: "0 < R p"
  shows "returns (rust_stmt_unref L p X) (\<lambda>X'. stmts_ok (R(p := R p - 1)) X' \<and> stmt_rel {p} X X'
    \<and> c_heap X' = (if R p = 1 then without (c_heap X) (owned_blocks (the (hm_get (stmts X) p))) else c_heap X))"
proof -
  obtain s where s: "hm_get (stmts X) p = Some s" "stmt_refs s = int (R p)" "shape_ok s" "p \<noteq> 0" using stmts_ok_get [OF ok p] .
  let ?s = "s\<lparr>stmt_refs := stmt_refs s - 1\<rparr>" and ?m = "hm_remove p (stmts X)"
  let ?X = "put_stmt p ?s X"
  have m: "hm_ok (stmts X)" using ok by (rule stmts_okD)
  have host: "pool_ok (hold_with ?m s) (shim_of X)" "reg_ok (shim_of X)" using stmts_okD(3,4) [OF ok] hold_of_get [OF m s(1)] by simp_all
  have cov: "covered (owned_mset s + hm_sum owned_mset ?m) (c_heap X)" using stmts_okD(2) [OF ok] blocks_ok_get [OF m s(1)] by simp
  have nl: "\<not> leak_enabled ?X" using stmts_okD(5) [OF ok] leak_enabled_env [of ?X X] by simp
  show ?thesis
  proof (cases "R p = 1")
    case True
    have free: "freeable (owned_blocks ?s) (c_heap ?X)" using covered_free(1) [OF cov] by simp
    have rm: "hm_remove p (stmts ?X) = ?m" by (simp add: hm_remove_insert)
    have "returns (rust_stmt_free L p ?X) (\<lambda>X'. \<exists>S' Q. X' = (set_shim S' ?X)\<lparr>stmts := ?m, c_heap := without (c_heap X) (owned_blocks s), qcaches := Q\<rparr>
        \<and> host_same (hold_of ?m) (shim_of X) S')"
      using rust_stmt_free_ok [OF fin _ s(4) _ _ free] s host True unfolding rm by simp
    moreover have "stmts_ok (R(p := 0)) X' \<and> stmt_rel {p} X X' \<and> c_heap X' = without (c_heap X) (owned_blocks s)"
      if "X' = (set_shim S' ?X)\<lparr>stmts := ?m, c_heap := without (c_heap X) (owned_blocks s), qcaches := Q\<rparr>" "host_same (hold_of ?m) (shim_of X) S'" for X' S' Q
      using stmts_ok_drop [OF ok s(1), of X'] that by (simp add: tables_same_def)
    ultimately have "returns (rust_stmt_free L p ?X) (\<lambda>X'. stmts_ok (R(p := 0)) X' \<and> stmt_rel {p} X X' \<and> c_heap X' = without (c_heap X) (owned_blocks s))"
      by (elim returns_weaken) blast
    then show ?thesis using s True nl by (simp add: rust_stmt_unref_def)
  next
    case False
    then have "stmt_refs ?s = int (R p - 1)" "0 < R p - 1" using s(2) p by auto
    moreover have "host_same (hold_with ?m ?s) (shim_of X) (shim_of ?X)" using host_same_refl [OF host] by simp
    ultimately have "stmts_ok (R(p := R p - 1)) ?X \<and> stmt_rel {p} X ?X"
      using s cov by (intro stmts_ok_put [OF ok s(4)]) (simp_all add: tables_same_def)
    then show ?thesis using s False p by (simp add: rust_stmt_unref_def Let_def)
  qed
qed

text \<open>So statement objects are reference counted like connections.\<close>

definition drop_stmt :: "'w libpq \<Rightarrow> ptr \<Rightarrow> 'w statements \<Rightarrow> (bool \<times> 'w statements) option" where
  "drop_stmt L p X = do { X' \<leftarrow> rust_stmt_unref L p X; Some (hm_get (stmts X') p = None, X') }"

lemma stmts_ok_none: "stmts_ok R X \<Longrightarrow> hm_get (stmts X) p = None \<longleftrightarrow> R p = 0"
  unfolding stmts_ok_def by (cases "hm_get (stmts X) p") (auto simp: entry_ok_def dest: spec [of _ p])

interpretation statements: refcounted "\<lambda>R X. streams_finite L \<and> stmts_ok R X" "\<lambda>X p. hm_get (stmts X) p \<noteq> None" rust_stmt_ref "drop_stmt L"
  for L :: "'w libpq"
proof unfold_locales
  fix R p and X :: "'w statements"
  assume ok: "streams_finite L \<and> stmts_ok R X"
  then show "(hm_get (stmts X) p \<noteq> None) = (0 < R p)" using stmts_ok_none [of R X p] by simp
  assume p: "0 < R p"
  show "\<exists>X'. rust_stmt_ref p X = Some X' \<and> streams_finite L \<and> stmts_ok (R(p := R p + 1)) X'"
    using returnsD [OF stmt_ref_ok [of R X p]] ok p by blast
  obtain X' where X': "rust_stmt_unref L p X = Some X'" "stmts_ok (R(p := R p - 1)) X'"
    using returnsD [OF stmt_unref_ok [of L R X p]] ok p by blast
  then have "hm_get (stmts X') p = None \<longleftrightarrow> R p = 1" using stmts_ok_none [OF X'(2), of p] p by auto
  with X' ok show "\<exists>X'. drop_stmt L p X = Some (R p = 1, X') \<and> streams_finite L \<and> stmts_ok (R(p := R p - 1)) X'"
    by (simp add: drop_stmt_def)
qed

end
