(* ===== verification/Stmt_Ops.thy ===== *)
theory Stmt_Ops
  imports Stmt_Memory
begin

text \<open>
  SQLite's calls on a statement, as the shim answers them: reset, finalize and clear_bindings
  (\<^verbatim>\<open>db_interpose_stmt_lifecycle.rs\<close>, \<^verbatim>\<open>statement_ops.rs\<close>), with the two rings that remember which
  addresses were prepared and which were finalized lately (\<^verbatim>\<open>ring_tracker.rs\<close>), by which a second
  finalize of a freed statement is told from the finalize of a new one at its address.
\<close>

section \<open>The rings\<close>

definition FINALIZED_RING_SIZE :: nat where "FINALIZED_RING_SIZE = 2048"
definition FINALIZED_RECENT_MS :: u64 where "FINALIZED_RECENT_MS = 2000"
definition PREPARED_RING_SIZE :: nat where "PREPARED_RING_SIZE = 4096"
definition RING_SQL_LEN :: nat where "RING_SQL_LEN = 256"

definition FinalizedEntry_empty :: FinalizedEntry where
  "FinalizedEntry_empty = \<lparr>fin_stmt = 0, fin_ts_ns = 0, fin_tid = 0, fin_is_pg = 0, fin_sql = []\<rparr>"

definition PreparedEntry_empty :: PreparedEntry where
  "PreparedEntry_empty = \<lparr>prep_stmt = 0, prep_ts_ns = 0, prep_tid = 0, prep_sql = []\<rparr>"

definition now_monotonic_ns :: "'w stmt_lib \<Rightarrow> 'w statements \<Rightarrow> u64" where
  "now_monotonic_ns E X =
     (let (rc, tv_sec, tv_nsec) = clock_gettime E (world (shim_of X))
      in if rc \<noteq> 0 then 0 else tv_sec * 1000000000 + tv_nsec)"

definition write_sql_buf :: "string option \<Rightarrow> string" where
  "write_sql_buf sql = (case sql of None \<Rightarrow> [] | Some s \<Rightarrow> cbuf RING_SQL_LEN s)"

definition remember_finalized_stmt :: "'w stmt_lib \<Rightarrow> tid \<Rightarrow> ptr \<Rightarrow> string option \<Rightarrow> int \<Rightarrow> 'w statements \<Rightarrow> 'w statements" where
  "remember_finalized_stmt E t stmt sql pg X =
     (if is_null stmt then X
      else let i = unat (finalized_idx X) mod FINALIZED_RING_SIZE in
        X\<lparr>finalized_idx := finalized_idx X + 1,
          finalized_ring := (finalized_ring X)[i := \<lparr>fin_stmt = stmt, fin_ts_ns = now_monotonic_ns E X, fin_tid = t,
            fin_is_pg = pg, fin_sql = write_sql_buf sql\<rparr>]\<rparr>)"

definition remember_prepared_stmt :: "'w stmt_lib \<Rightarrow> tid \<Rightarrow> ptr \<Rightarrow> string option \<Rightarrow> 'w statements \<Rightarrow> 'w statements" where
  "remember_prepared_stmt E t stmt sql X =
     (if is_null stmt then X
      else let i = unat (prepared_idx X) mod PREPARED_RING_SIZE in
        X\<lparr>prepared_idx := prepared_idx X + 1,
          prepared_ring := (prepared_ring X)[i := \<lparr>prep_stmt = stmt, prep_ts_ns = now_monotonic_ns E X, prep_tid = t,
            prep_sql = write_sql_buf sql\<rparr>]\<rparr>)"

definition is_prepared_stmt :: "ptr \<Rightarrow> 'w statements \<Rightarrow> bool" where
  "is_prepared_stmt stmt X \<longleftrightarrow> \<not> is_null stmt \<and> list_ex (\<lambda>e. prep_stmt e = stmt) (prepared_ring X)"

text \<open>Only the first record of the address is cleared.\<close>

definition clear_prepared_stmt :: "ptr \<Rightarrow> 'w statements \<Rightarrow> 'w statements" where
  "clear_prepared_stmt stmt X =
     (if is_null stmt then X
      else case find (\<lambda>i. prep_stmt (prepared_ring X ! i) = stmt) [0..<length (prepared_ring X)] of
             None \<Rightarrow> X
           | Some i \<Rightarrow> X\<lparr>prepared_ring := (prepared_ring X)[i := PreparedEntry_empty]\<rparr>)"

text \<open>Every record of the address is.\<close>

definition clear_finalized_entry :: "ptr \<Rightarrow> 'w statements \<Rightarrow> 'w statements" where
  "clear_finalized_entry stmt X =
     (if is_null stmt then X
      else X\<lparr>finalized_ring := map (\<lambda>e. if fin_stmt e = stmt then FinalizedEntry_empty else e) (finalized_ring X)\<rparr>)"

definition find_finalized_entry :: "ptr \<Rightarrow> 'w statements \<Rightarrow> FinalizedEntry option" where
  "find_finalized_entry stmt X =
     (if is_null stmt then None else find (\<lambda>e. fin_stmt e = stmt) (finalized_ring X))"

definition is_recently_finalized_stmt :: "'w stmt_lib \<Rightarrow> ptr \<Rightarrow> 'w statements \<Rightarrow> bool" where
  "is_recently_finalized_stmt E stmt X =
     (case find_finalized_entry stmt X of
        None \<Rightarrow> False
      | Some e \<Rightarrow>
          if fin_ts_ns e = 0 then False
          else let now_ns = now_monotonic_ns E X;
                   age_ms = (if fin_ts_ns e < now_ns then (now_ns - fin_ts_ns e) div 1000000 else 0)
               in age_ms \<le> FINALIZED_RECENT_MS)"

definition skip_clear_bindings_on_finalized :: "'w statements \<Rightarrow> bool" where
  "skip_clear_bindings_on_finalized X =
     (let e = env (shim_of X); name = ''PLEX_PG_SKIP_CLEAR_BINDINGS_FINALIZED''
      in if e name = None then True else env_truthy_str e name)"

definition note_stmt_prepare_impl :: "'w stmt_lib \<Rightarrow> tid \<Rightarrow> ptr \<Rightarrow> string option \<Rightarrow> 'w statements \<Rightarrow> 'w statements" where
  "note_stmt_prepare_impl E t stmt sql X = clear_finalized_entry stmt (remember_prepared_stmt E t stmt sql X)"

section \<open>The connection in use\<close>

text \<open>\<open>ConnScope\<close>: entering answers the connection before, and leaving puts it back.\<close>

definition ConnScope_enter :: "tid \<Rightarrow> ptr \<Rightarrow> 'w statements \<Rightarrow> ptr \<times> 'w statements" where
  "ConnScope_enter t db X = (current_conn X t, X\<lparr>current_conn := (current_conn X)(t := db)\<rparr>)"

definition ConnScope_drop :: "tid \<Rightarrow> ptr \<Rightarrow> 'w statements \<Rightarrow> 'w statements" where
  "ConnScope_drop t prev X = X\<lparr>current_conn := (current_conn X)(t := prev)\<rparr>"

text \<open>The walk over a connection's live statements; \<^const>\<open>None\<close> is a walk that does not end.\<close>

partial_function (option) walk_stmts :: "(ptr \<Rightarrow> ptr) \<Rightarrow> ptr \<Rightarrow> ptr \<Rightarrow> bool option" where
  "walk_stmts nxt stmt cur =
     (if is_null cur then Some False else if cur = stmt then Some True else walk_stmts nxt stmt (nxt cur))"

definition is_live_stmt_of_current_conn :: "'w stmt_lib \<Rightarrow> tid \<Rightarrow> ptr \<Rightarrow> 'w statements \<Rightarrow> bool option" where
  "is_live_stmt_of_current_conn E t stmt X =
     (let db = current_conn X t in
      if is_null db \<or> is_null stmt then Some False
      else case orig_next_stmt E of
             None \<Rightarrow> Some False
           | Some next \<Rightarrow>
               let nxt = (\<lambda>cur. next db cur (world (shim_of X))) in walk_stmts nxt stmt (nxt 0))"

section \<open>Reset\<close>

text \<open>A call of SQLite's own function, if there is one.\<close>

definition call_orig :: "(ptr \<Rightarrow> 'w \<Rightarrow> int \<times> 'w) option \<Rightarrow> ptr \<Rightarrow> 'w statements \<Rightarrow> int \<times> 'w statements" where
  "call_orig f stmt X =
     (case f of
        None \<Rightarrow> (SQLITE_ERROR, X)
      | Some f \<Rightarrow> let (rc, w) = f stmt (world (shim_of X)) in (rc, set_shim ((shim_of X)\<lparr>world := w\<rparr>) X))"

definition reset_pg_stmt_locked :: "'w libpq \<Rightarrow> 'w stmt_lib \<Rightarrow> ptr \<Rightarrow> ptr \<Rightarrow> 'w statements \<Rightarrow> (int \<times> 'w statements) option" where
  "reset_pg_stmt_locked L E stmt p X =
     do {
       s \<leftarrow> hm_get (stmts X) p;
       (s, B) \<leftarrow> clear_dynamic_param_values (s\<lparr>in_step := 0\<rparr>) (c_heap X);
       X \<leftarrow> rust_stmt_clear_result L p ((put_stmt p s X)\<lparr>c_heap := B\<rparr>);
       if is_pg s \<noteq> 0 \<and> is_cached s = 0 then Some (SQLITE_OK, X)
       else if is_pg s = 2 then Some (SQLITE_OK, X)
       else Some (call_orig (orig_reset E) stmt X)
     }"

definition reset_impl :: "'w libpq \<Rightarrow> 'w stmt_lib \<Rightarrow> tid \<Rightarrow> ptr \<Rightarrow> 'w statements \<Rightarrow> (int \<times> 'w statements) option" where
  "reset_impl L E t stmt X =
     (let pg_stmt = rust_stmt_find_any t stmt X in
      if \<not> is_null pg_stmt then reset_pg_stmt_locked L E stmt pg_stmt X
      else let cached_stmt = rust_cached_stmt_find t stmt X in
        if \<not> is_null cached_stmt then reset_pg_stmt_locked L E stmt cached_stmt X
        else Some (call_orig (orig_reset E) stmt X))"

section \<open>Finalize\<close>

text \<open>The text at a pointer to a C string, if it is not null; a freed one is a fault.\<close>

definition c_text :: "ptr \<Rightarrow> 'w statements \<Rightarrow> string option option" where
  "c_text q X = (if is_null q then Some None else map_option Some (c_heap X q))"

definition final_sql :: "PgStmt \<Rightarrow> ptr" where
  "final_sql s = (if \<not> is_null (stmt_pg_sql s) then stmt_pg_sql s else stmt_sql s)"

definition finalize_registered :: "'w libpq \<Rightarrow> 'w stmt_lib \<Rightarrow> tid \<Rightarrow> ptr \<Rightarrow> ptr \<Rightarrow> 'w statements \<Rightarrow> 'w statements option" where
  "finalize_registered L E t stmt pg_stmt X =
     do {
       s \<leftarrow> hm_get (stmts X) pg_stmt;
       sql \<leftarrow> c_text (final_sql s) X;
       let X = remember_finalized_stmt E t stmt sql (is_pg s) X;
       let cached_stmt = rust_cached_stmt_find t stmt X;
       X \<leftarrow> (if cached_stmt = pg_stmt \<or> \<not> is_null cached_stmt then rust_cached_stmt_clear L t stmt X else Some X);
       rust_stmt_unref L pg_stmt (rust_stmt_unregister stmt X)
     }"

definition finalize_cached :: "'w libpq \<Rightarrow> 'w stmt_lib \<Rightarrow> tid \<Rightarrow> ptr \<Rightarrow> ptr \<Rightarrow> 'w statements \<Rightarrow> 'w statements option" where
  "finalize_cached L E t stmt cached_stmt X =
     do {
       s \<leftarrow> hm_get (stmts X) cached_stmt;
       sql \<leftarrow> c_text (final_sql s) X;
       let X = remember_finalized_stmt E t stmt sql (is_pg s) X;
       X \<leftarrow> rust_cached_stmt_clear L t stmt X;
       rust_stmt_unref L cached_stmt X
     }"

definition finalize_unknown :: "'w stmt_lib \<Rightarrow> tid \<Rightarrow> ptr \<Rightarrow> 'w statements \<Rightarrow> 'w statements" where
  "finalize_unknown E t stmt X =
     remember_finalized_stmt E t stmt (case orig_sql E of None \<Rightarrow> None | Some f \<Rightarrow> f stmt (world (shim_of X))) 0 X"

definition finalize_impl :: "'w libpq \<Rightarrow> 'w stmt_lib \<Rightarrow> tid \<Rightarrow> ptr \<Rightarrow> 'w statements \<Rightarrow> (int \<times> 'w statements) option" where
  "finalize_impl L E t stmt X =
     do {
       twice \<leftarrow> (if skip_clear_bindings_on_finalized X \<and> is_recently_finalized_stmt E stmt X
                 then map_option Not (is_live_stmt_of_current_conn E t stmt X) else Some False);
       if twice then Some (SQLITE_OK, clear_prepared_stmt stmt X)
       else do {
         X \<leftarrow> (let pg_stmt = rust_stmt_find stmt X in
               if \<not> is_null pg_stmt then finalize_registered L E t stmt pg_stmt X
               else let cached_stmt = rust_cached_stmt_find t stmt X in
                 if \<not> is_null cached_stmt then finalize_cached L E t stmt cached_stmt X
                 else Some (finalize_unknown E t stmt X));
         let (rc, X) = call_orig (orig_finalize E) stmt X;
         Some (rc, clear_prepared_stmt stmt X)
       }
     }"

section \<open>Clear bindings\<close>

definition clear_all_param_values :: "PgStmt \<Rightarrow> c_blocks \<Rightarrow> (PgStmt \<times> c_blocks) option" where
  "clear_all_param_values s B =
     do {
       (s, B) \<leftarrow> clear_dynamic_param_values s B;
       Some (s\<lparr>param_values := map (\<lambda>_. 0) (param_values s), param_lengths := map (\<lambda>_. 0) (param_lengths s),
               param_formats := map (\<lambda>_. 0) (param_formats s)\<rparr>, B)
     }"

definition clear_bindings_impl :: "'w libpq \<Rightarrow> 'w stmt_lib \<Rightarrow> tid \<Rightarrow> ptr \<Rightarrow> 'w statements \<Rightarrow> (int \<times> 'w statements) option" where
  "clear_bindings_impl L E t stmt X =
     (if skip_clear_bindings_on_finalized X \<and> is_recently_finalized_stmt E stmt X then Some (SQLITE_OK, X)
      else let pg_stmt = rust_stmt_find stmt X in
        if \<not> is_null pg_stmt
        then do {
          s \<leftarrow> hm_get (stmts X) pg_stmt;
          (s, B) \<leftarrow> clear_all_param_values s (c_heap X);
          let X = (put_stmt pg_stmt s X)\<lparr>c_heap := B\<rparr>;
          if is_pg s = 0 then Some (call_orig (orig_clear_bindings E) stmt X) else Some (SQLITE_OK, X)
        }
        else Some (call_orig (orig_clear_bindings E) stmt X))"

end
