(* ===== verification/Stmt_Account.thy ===== *)
theory Stmt_Account
  imports Stmt_Ops
begin

text \<open>
  Who has a reference to a statement object: the registry for every SQLite statement it is
  registered under, a thread's cache for every entry, and whoever created it until it is
  registered. \<open>extra\<close> counts the last kind. A statement answered from the cache is never
  registered: its creator's reference is given back when its SQLite statement is finalized,
  together with the one of the thread's cache.
\<close>

definition reg_refs :: "'w statements \<Rightarrow> ptr \<Rightarrow> nat" where
  "reg_refs X p = count_list (hm_values (forward X)) p"

definition tls_refs :: "'w statements \<Rightarrow> ptr \<Rightarrow> nat" where
  "tls_refs X p = hm_sum (\<lambda>es. count_list (map snd es) p) (tls_stmts X)"

definition account :: "(ptr \<Rightarrow> nat) \<Rightarrow> 'w statements \<Rightarrow> ptr \<Rightarrow> nat" where
  "account extra X p = reg_refs X p + tls_refs X p + extra p"

text \<open>The reverse table names only statements that are registered.\<close>

definition reverse_ok :: "'w statements \<Rightarrow> bool" where
  "reverse_ok X \<longleftrightarrow> (\<forall>p k. hm_get (reverse X) p = Some k \<longrightarrow> hm_get (forward X) k = Some p)"

definition procs_ok :: "(ptr \<Rightarrow> nat) \<Rightarrow> 'w statements \<Rightarrow> bool" where
  "procs_ok extra X \<longleftrightarrow> stmts_ok (account extra X) X \<and> hm_ok (forward X) \<and> hm_ok (tls_stmts X) \<and> reverse_ok X
     \<and> (\<forall>p. tls_refs X p \<le> extra p)"

lemma procs_okD:
  assumes "procs_ok extra X"
  shows "stmts_ok (account extra X) X" "hm_ok (forward X)" "hm_ok (tls_stmts X)" "reverse_ok X" "tls_refs X p \<le> extra p"
  using assms by (simp_all add: procs_ok_def)

section \<open>What the tables count\<close>

lemma reg_refs_sum: "reg_refs X p = hm_sum (\<lambda>q. of_bool (q = p)) (forward X)"
proof -
  have "count_list (map snd m) p = hm_sum (\<lambda>q. of_bool (q = p)) m" for m :: "(ptr, ptr) hmap"
    by (induction m) (auto simp: hm_sum_def)
  then show ?thesis by (simp add: reg_refs_def hm_values_def)
qed

lemma reg_refs_get: "hm_ok (forward X) \<Longrightarrow> hm_get (forward X) k = Some p \<Longrightarrow> 0 < reg_refs X p"
  by (simp add: reg_refs_sum hm_sum_get [of _ k p])

lemma hm_remove_none: "hm_get m k = None \<Longrightarrow> hm_remove k m = m"
  by (rule hm_remove_fresh) (simp add: hm_get_def map_of_eq_None_iff)

text \<open>A key taken out of a table, or given a new value.\<close>

lemma hm_sum_remove:
  fixes f :: "'v \<Rightarrow> nat"
  shows "hm_ok m \<Longrightarrow> hm_sum f (hm_remove k m) + (case hm_get m k of None \<Rightarrow> 0 | Some v \<Rightarrow> f v) = hm_sum f m"
  by (cases "hm_get m k") (simp_all add: hm_remove_none hm_sum_get [of m k])

lemma reg_refs_unregister:
  assumes "hm_ok (forward X)" "k \<noteq> 0"
  shows "reg_refs (rust_stmt_unregister k X) q + of_bool (hm_get (forward X) k = Some q) = reg_refs X q"
proof (cases "hm_get (forward X) k")
  case (Some p)
  then show ?thesis
    using hm_sum_remove [OF assms(1), of "\<lambda>v. of_bool (v = q)" k] assms(2)
    by (simp add: reg_refs_sum rust_stmt_unregister_def registry_unregister_def)
qed (use assms in \<open>simp add: rust_stmt_unregister_def registry_unregister_def\<close>)

lemma reg_refs_register:
  assumes "hm_ok (forward X)" "k \<noteq> 0" "p \<noteq> 0"
  shows "reg_refs (rust_stmt_register k p X) q + of_bool (hm_get (forward X) k = Some q) = reg_refs X q + of_bool (q = p)"
proof -
  have "reg_refs (rust_stmt_register k p X) q = of_bool (p = q) + hm_sum (\<lambda>v. of_bool (v = q)) (hm_remove k (forward X))"
    using assms by (simp add: reg_refs_sum rust_stmt_register_def registry_register_def Let_def hm_sum_insert)
  moreover have "hm_sum (\<lambda>v. of_bool (v = q)) (hm_remove k (forward X)) + of_bool (hm_get (forward X) k = Some q) = reg_refs X q"
    using hm_sum_remove [OF assms(1), of "\<lambda>v. of_bool (v = q)" k]
    by (cases "hm_get (forward X) k") (simp_all add: reg_refs_sum)
  ultimately show ?thesis by (auto simp: eq_commute)
qed

lemma tls_refs_set:
  assumes "hm_ok (tls_stmts X)"
  shows "tls_refs (set_tls t es X) q + count_list (map snd (tls_of t X)) q = tls_refs X q + count_list (map snd es) q"
proof -
  have "tls_refs (set_tls t es X) q = count_list (map snd es) q + hm_sum (\<lambda>es. count_list (map snd es) q) (hm_remove t (tls_stmts X))"
    using assms by (simp add: tls_refs_def set_tls_def hm_sum_insert)
  moreover have "hm_sum (\<lambda>es. count_list (map snd es) q) (hm_remove t (tls_stmts X)) + count_list (map snd (tls_of t X)) q = tls_refs X q"
    using hm_sum_remove [OF assms, of "\<lambda>es. count_list (map snd es) q" t]
    by (cases "hm_get (tls_stmts X) t") (simp_all add: tls_refs_def tls_of_def)
  ultimately show ?thesis by simp
qed

lemma count_remove_nth: "i < length xs \<Longrightarrow> count_list (map f (remove_nth i xs)) q + of_bool (f (xs ! i) = q) = count_list (map f xs) q"
proof -
  assume i: "i < length xs"
  have "count_list (map f xs) q = count_list (map f (take i xs @ xs ! i # drop (Suc i) xs)) q"
    using id_take_nth_drop [OF i] by simp
  then show ?thesis by (simp add: remove_nth_def)
qed

lemma find_append: "find P (xs @ ys) = (case find P xs of None \<Rightarrow> find P ys | Some x \<Rightarrow> Some x)"
  by (induction xs) auto

lemma find_upt_first: "find P [0..<n] = Some i \<Longrightarrow> i < n \<and> P i"
  by (auto simp: find_Some_iff)

lemma tls_pos_Some: "tls_pos k es = Some i \<Longrightarrow> i < length es \<and> fst (es ! i) = k"
  using find_upt_first by (fastforce simp: tls_pos_def)

lemma tls_find_pos: "tls_find k es = map_option (\<lambda>i. snd (es ! i)) (tls_pos k es)"
proof -
  have "find (\<lambda>e. fst e = k) es = map_option ((!) es) (find (\<lambda>i. fst (es ! i) = k) [0..<length es])"
  proof (induction es rule: rev_induct)
    case (snoc e es)
    have "find (\<lambda>i. fst ((es @ [e]) ! i) = k) [0..<length es] = find (\<lambda>i. fst (es ! i) = k) [0..<length es]"
      by (rule find_cong) (auto simp: nth_append)
    then show ?case using snoc
      by (cases "find (\<lambda>i. fst (es ! i) = k) [0..<length es]") (auto simp: find_append nth_append dest: find_upt_first)
  qed simp
  then show ?thesis by (simp add: tls_find_def tls_pos_def option.map_comp comp_def)
qed

section \<open>Moves of the account\<close>

lemma stmts_ok_tables:
  "stmt_host X' = stmt_host X \<Longrightarrow> stmts X' = stmts X \<Longrightarrow> c_heap X' = c_heap X \<Longrightarrow> stmts_ok R X' = stmts_ok R X"
  by (simp add: stmts_ok_def leak_enabled_def)

lemma account_cong: "forward X' = forward X \<Longrightarrow> tls_stmts X' = tls_stmts X \<Longrightarrow> account extra X' = account extra X"
  by (rule ext) (simp add: account_def reg_refs_def tls_refs_def)

lemma procs_ok_cong:
  "stmt_host X' = stmt_host X \<Longrightarrow> stmts X' = stmts X \<Longrightarrow> c_heap X' = c_heap X \<Longrightarrow> forward X' = forward X \<Longrightarrow> reverse X' = reverse X \<Longrightarrow>
     tls_stmts X' = tls_stmts X \<Longrightarrow> procs_ok extra X' = procs_ok extra X"
  unfolding procs_ok_def using stmts_ok_tables [of X' X] account_cong [of X' X extra]
  by (simp add: reverse_ok_def tls_refs_def)

text \<open>An operation on a statement, after which the tables are as before.\<close>

lemma procs_ok_stmt_rel:
  assumes "procs_ok extra X" "stmts_ok (account extra' X') X'" "tables_same X X'" "\<And>p. tls_refs X p \<le> extra' p"
  shows "procs_ok extra' X'"
  using assms by (simp add: procs_ok_def tables_same_def reverse_ok_def tls_refs_def)

lemma reverse_ok_unregister: "reverse_ok X \<Longrightarrow> reverse_ok (rust_stmt_unregister k X)"
  by (auto simp: reverse_ok_def rust_stmt_unregister_def registry_unregister_def split: option.splits)

lemma reverse_ok_register: "reverse_ok X \<Longrightarrow> reverse_ok (rust_stmt_register k p X)"
  by (fastforce simp: reverse_ok_def rust_stmt_register_def registry_register_def Let_def split: option.splits if_splits)

text \<open>What no operation on statements changes for the rest of the process.\<close>

definition proc_rel :: "'w statements \<Rightarrow> 'w statements \<Rightarrow> bool" where
  "proc_rel X X' \<longleftrightarrow> host_same (hold_of (stmts X')) (shim_of X) (shim_of X') \<and> qc_enabled X' = qc_enabled X
     \<and> finalized_ring X' = finalized_ring X \<and> finalized_idx X' = finalized_idx X \<and> prepared_ring X' = prepared_ring X
     \<and> prepared_idx X' = prepared_idx X \<and> current_conn X' = current_conn X"

lemma proc_rel_trans: "proc_rel X X' \<Longrightarrow> proc_rel X' X'' \<Longrightarrow> proc_rel X X''"
  by (auto simp: proc_rel_def elim: host_same_trans)

lemma proc_rel_refl: "procs_ok extra X \<Longrightarrow> proc_rel X X"
  by (simp add: proc_rel_def procs_ok_def stmts_ok_def host_same_refl)

lemma stmt_rel_proc: "stmt_rel P X X' \<Longrightarrow> proc_rel X X'"
  by (simp add: stmt_rel_def proc_rel_def tables_same_def)

lemma proc_rel_start: "stmt_host X1 = stmt_host X \<Longrightarrow> qc_enabled X1 = qc_enabled X \<Longrightarrow> finalized_ring X1 = finalized_ring X \<Longrightarrow>
    finalized_idx X1 = finalized_idx X \<Longrightarrow> prepared_ring X1 = prepared_ring X \<Longrightarrow> prepared_idx X1 = prepared_idx X \<Longrightarrow>
    current_conn X1 = current_conn X \<Longrightarrow> proc_rel X1 X' = proc_rel X X'"
  by (simp add: proc_rel_def)

text \<open>
  A reference that has left the tables or the creator's hands is given back: the account
  before, less that one, is the account after.
\<close>

lemma unref_settles:
  assumes fin: "streams_finite L" and ok: "stmts_ok R X" and p: "0 < R p"
    and acc: "account extra X = R(p := R p - 1)"
    and tabs: "hm_ok (forward X)" "hm_ok (tls_stmts X)" "reverse_ok X" "\<And>q. tls_refs X q \<le> extra q"
  shows "returns (rust_stmt_unref L p X) (\<lambda>X'. procs_ok extra X' \<and> stmt_rel {p} X X'
    \<and> c_heap X' = (if R p = 1 then without (c_heap X) (owned_blocks (the (hm_get (stmts X) p))) else c_heap X))"
proof (rule returns_weaken [OF stmt_unref_ok [OF fin ok p]], elim conjE, intro conjI)
  fix X'
  assume a: "stmts_ok (R(p := R p - 1)) X'" "stmt_rel {p} X X'"
  then have t: "tables_same X X'" by (simp add: stmt_rel_def)
  then have "account extra X' = R(p := R p - 1)" unfolding acc [symmetric] by (intro account_cong) (simp_all add: tables_same_def)
  then show "procs_ok extra X'" using a(1) t tabs by (simp add: procs_ok_def tables_same_def reverse_ok_def tls_refs_def)
qed

section \<open>The thread's cache\<close>

lemma tls_refs_ge: "hm_ok (tls_stmts X) \<Longrightarrow> count_list (map snd (tls_of t X)) q \<le> tls_refs X q"
  using tls_refs_set [of X t "[]" q] by simp

lemma tls_entry_refs: "hm_ok (tls_stmts X) \<Longrightarrow> i < length (tls_of t X) \<Longrightarrow> 0 < tls_refs X (snd (tls_of t X ! i))"
  using tls_refs_ge [of X t "snd (tls_of t X ! i)"] count_list_pos [of "map snd (tls_of t X)" "snd (tls_of t X ! i)"]
  by (metis gr0I in_set_conv_nth le_zero_eq length_map nth_map)

lemma set_tls_simps [simp]:
  "stmt_host (set_tls t es X) = stmt_host X" "stmts (set_tls t es X) = stmts X" "c_heap (set_tls t es X) = c_heap X"
  "forward (set_tls t es X) = forward X" "reverse (set_tls t es X) = reverse X" "qc_enabled (set_tls t es X) = qc_enabled X"
  "finalized_ring (set_tls t es X) = finalized_ring X" "finalized_idx (set_tls t es X) = finalized_idx X"
  "prepared_ring (set_tls t es X) = prepared_ring X" "prepared_idx (set_tls t es X) = prepared_idx X"
  "current_conn (set_tls t es X) = current_conn X" "reg_refs (set_tls t es X) = reg_refs X"
  "hm_ok (tls_stmts X) \<Longrightarrow> hm_ok (tls_stmts (set_tls t es X))" "reverse_ok (set_tls t es X) = reverse_ok X"
  "stmts_ok R (set_tls t es X) = stmts_ok R X"
  by (simp_all add: set_tls_def reg_refs_def fun_eq_iff reverse_ok_def stmts_ok_def leak_enabled_def)

lemma tls_refs_remove:
  assumes "hm_ok (tls_stmts X)" "i < length (tls_of t X)"
  shows "tls_refs (set_tls t (remove_nth i (tls_of t X)) X) q + of_bool (snd (tls_of t X ! i) = q) = tls_refs X q"
  using tls_refs_set [OF assms(1), of t "remove_nth i (tls_of t X)" q] count_remove_nth [OF assms(2), of snd q] by simp

text \<open>What the thread's cache answers is an entry of it.\<close>

lemma cached_find_entry:
  assumes "rust_cached_stmt_find t k X = p" "p \<noteq> 0"
  obtains i where "tls_pos k (tls_of t X) = Some i" "i < length (tls_of t X)" "snd (tls_of t X ! i) = p" "k \<noteq> 0" "\<not> stmt_cache_disabled X"
  using assms that tls_pos_Some
  by (cases "tls_pos k (tls_of t X)") (auto simp: rust_cached_stmt_find_def tls_find_pos unwrap_or_null_def split: if_splits)

lemma cached_clear_ok:
  assumes fin: "streams_finite L" and ok: "procs_ok extra X" and p_def: "p = rust_cached_stmt_find t k X"
  shows "returns (rust_cached_stmt_clear L t k X) (\<lambda>X'. procs_ok extra X' \<and> proc_rel X X' \<and> forward X' = forward X \<and> reverse X' = reverse X
    \<and> (\<forall>q. tls_refs X' q + of_bool (p = q \<and> q \<noteq> 0) = tls_refs X q) \<and> (\<forall>q. q \<noteq> p \<longrightarrow> hm_get (stmts X') q = hm_get (stmts X) q))"
proof -
  note D = procs_okD [OF ok]
  show ?thesis
  proof (cases "k = 0 \<or> stmt_cache_disabled X \<or> tls_pos k (tls_of t X) = None")
    case True
    then have "rust_cached_stmt_clear L t k X = Some X" "p = 0"
      by (auto simp: rust_cached_stmt_clear_def tls_clear_def p_def rust_cached_stmt_find_def tls_find_pos unwrap_or_null_def)
    then show ?thesis using ok proc_rel_refl [OF ok] by auto
  next
    case False
    then obtain i where i: "tls_pos k (tls_of t X) = Some i" by blast
    then have len: "i < length (tls_of t X)" using tls_pos_Some by blast
    have p: "p = snd (tls_of t X ! i)" using False i by (simp add: p_def rust_cached_stmt_find_def tls_find_pos unwrap_or_null_def)
    let ?X = "set_tls t (remove_nth i (tls_of t X)) X" and ?R = "account extra X"
    have refs: "tls_refs ?X q + of_bool (p = q) = tls_refs X q" for q using tls_refs_remove [OF D(3) len, of q] by (simp add: p)
    have pos: "0 < ?R p" using tls_entry_refs [OF D(3) len] by (simp add: account_def p)
    have nz: "p \<noteq> 0" using stmts_ok_get [OF D(1) pos] by blast
    have acc: "account extra ?X = ?R(p := ?R p - 1)"
    proof
      fix q
      show "account extra ?X q = (?R(p := ?R p - 1)) q" using refs [of q] by (auto simp: account_def split: if_splits)
    qed
    have le: "tls_refs ?X q \<le> extra q" for q using refs [of q] D(5) [of q] by linarith
    have "returns (rust_stmt_unref L p ?X) (\<lambda>X'. procs_ok extra X' \<and> stmt_rel {p} ?X X'
      \<and> c_heap X' = (if ?R p = 1 then without (c_heap ?X) (owned_blocks (the (hm_get (stmts ?X) p))) else c_heap ?X))"
      using D(1-4) le by (intro unref_settles [OF fin _ pos acc]) simp_all
    then have "returns (rust_stmt_unref L p ?X) (\<lambda>X'. procs_ok extra X' \<and> proc_rel X X' \<and> forward X' = forward X \<and> reverse X' = reverse X
      \<and> (\<forall>q. tls_refs X' q + of_bool (p = q \<and> q \<noteq> 0) = tls_refs X q) \<and> (\<forall>q. q \<noteq> p \<longrightarrow> hm_get (stmts X') q = hm_get (stmts X) q))"
    proof (elim returns_weaken conjE, intro conjI allI)
      fix X' q
      assume a: "procs_ok extra X'" "stmt_rel {p} ?X X'"
      show "procs_ok extra X'" by (rule a(1))
      show "proc_rel X X'" using stmt_rel_proc [OF a(2)] by (subst (asm) proc_rel_start [of _ X]) simp_all
      have tab: "tables_same ?X X'" using a(2) by (simp add: stmt_rel_def)
      then show "forward X' = forward X" "reverse X' = reverse X" by (simp_all add: tables_same_def)
      have "tls_refs X' q = tls_refs ?X q" using tab by (simp add: tables_same_def tls_refs_def)
      then show "tls_refs X' q + of_bool (p = q \<and> q \<noteq> 0) = tls_refs X q" using refs [of q] nz by auto
      show "q \<noteq> p \<longrightarrow> hm_get (stmts X') q = hm_get (stmts X) q" using a(2) by (simp add: stmt_rel_def)
    qed
    moreover have "rust_cached_stmt_clear L t k X = rust_stmt_unref L p ?X"
      using False i by (simp add: rust_cached_stmt_clear_def tls_clear_def p Let_def)
    ultimately show ?thesis by simp
  qed
qed

section \<open>Taking a statement off the registry\<close>

lemma unregister_simps [simp]:
  "stmt_host (rust_stmt_unregister k X) = stmt_host X" "stmts (rust_stmt_unregister k X) = stmts X" "c_heap (rust_stmt_unregister k X) = c_heap X"
  "tls_stmts (rust_stmt_unregister k X) = tls_stmts X" "qc_enabled (rust_stmt_unregister k X) = qc_enabled X"
  "finalized_ring (rust_stmt_unregister k X) = finalized_ring X" "finalized_idx (rust_stmt_unregister k X) = finalized_idx X"
  "prepared_ring (rust_stmt_unregister k X) = prepared_ring X" "prepared_idx (rust_stmt_unregister k X) = prepared_idx X"
  "current_conn (rust_stmt_unregister k X) = current_conn X"
  "hm_ok (forward X) \<Longrightarrow> hm_ok (forward (rust_stmt_unregister k X))"
  by (simp_all add: rust_stmt_unregister_def registry_unregister_def split: option.splits)

lemma forward_unregister: "k \<noteq> 0 \<Longrightarrow> forward (rust_stmt_unregister k X) = hm_remove k (forward X)"
  by (auto simp: rust_stmt_unregister_def registry_unregister_def hm_remove_none split: option.splits)

lemma unregister_unref_ok:
  assumes fin: "streams_finite L" and ok: "procs_ok extra X" and p: "hm_get (forward X) k = Some p" and k: "k \<noteq> 0"
  shows "returns (rust_stmt_unref L p (rust_stmt_unregister k X)) (\<lambda>X'. procs_ok extra X' \<and> proc_rel X X'
    \<and> forward X' = hm_remove k (forward X) \<and> tls_stmts X' = tls_stmts X \<and> (\<forall>q. q \<noteq> p \<longrightarrow> hm_get (stmts X') q = hm_get (stmts X) q)
    \<and> c_heap X' = (if account extra X p = 1 then without (c_heap X) (owned_blocks (the (hm_get (stmts X) p))) else c_heap X))"
proof -
  note D = procs_okD [OF ok]
  let ?X = "rust_stmt_unregister k X" and ?R = "account extra X"
  have pos: "0 < ?R p" using reg_refs_get [OF D(2) p] by (simp add: account_def)
  have tls: "tls_refs ?X = tls_refs X" by (simp add: tls_refs_def fun_eq_iff)
  have acc: "account extra ?X = ?R(p := ?R p - 1)"
  proof
    fix q
    show "account extra ?X q = (?R(p := ?R p - 1)) q"
      using reg_refs_unregister [OF D(2) k, of q] p by (auto simp: account_def tls split: if_splits)
  qed
  have ok': "stmts_ok ?R ?X" using D(1) stmts_ok_tables [of ?X X ?R] by simp
  show ?thesis
  proof (rule returns_weaken [OF unref_settles [OF fin ok' pos acc]])
    show "hm_ok (forward ?X)" "hm_ok (tls_stmts ?X)" "reverse_ok ?X" "tls_refs ?X q \<le> extra q" for q
      using D(2-5) by (simp_all add: reverse_ok_unregister tls)
  next
    fix X'
    assume a: "procs_ok extra X' \<and> stmt_rel {p} ?X X'
      \<and> c_heap X' = (if ?R p = 1 then without (c_heap ?X) (owned_blocks (the (hm_get (stmts ?X) p))) else c_heap ?X)"
    have "proc_rel ?X X'" using a stmt_rel_proc by blast
    then have "proc_rel X X'" by (simp add: proc_rel_def)
    then show "procs_ok extra X' \<and> proc_rel X X' \<and> forward X' = hm_remove k (forward X) \<and> tls_stmts X' = tls_stmts X
      \<and> (\<forall>q. q \<noteq> p \<longrightarrow> hm_get (stmts X') q = hm_get (stmts X) q)
      \<and> c_heap X' = (if ?R p = 1 then without (c_heap X) (owned_blocks (the (hm_get (stmts X) p))) else c_heap X)"
      using a by (simp add: stmt_rel_def tables_same_def forward_unregister [OF k])
  qed
qed

text \<open>The SQL of a live statement can be read.\<close>

lemma c_text_ok:
  assumes "stmts_ok R X" "hm_get (stmts X) p = Some s"
  shows "\<exists>r. c_text (final_sql s) X = Some r"
proof -
  have m: "hm_ok (stmts X)" using assms(1) by (rule stmts_okD)
  have "freeable (owned_blocks s) (c_heap X)"
    using covered_free(1) stmts_okD(2) [OF assms(1)] blocks_ok_get [OF m assms(2)] by blast
  moreover have "final_sql s = 0 \<or> final_sql s \<in> set (owned_blocks s)" by (auto simp: final_sql_def owned_blocks_def)
  ultimately show ?thesis by (auto simp: c_text_def freeable_def)
qed

section \<open>Finalize\<close>

lemma remembered_simps [simp]:
  "stmt_host (remember_finalized_stmt E t k sql pg X) = stmt_host X" "stmts (remember_finalized_stmt E t k sql pg X) = stmts X"
  "c_heap (remember_finalized_stmt E t k sql pg X) = c_heap X" "forward (remember_finalized_stmt E t k sql pg X) = forward X"
  "reverse (remember_finalized_stmt E t k sql pg X) = reverse X" "tls_stmts (remember_finalized_stmt E t k sql pg X) = tls_stmts X"
  by (simp_all add: remember_finalized_stmt_def Let_def)

lemma remembered_ok [simp]: "procs_ok extra (remember_finalized_stmt E t k sql pg X) = procs_ok extra X"
  by (rule procs_ok_cong) simp_all

lemma remember_find [simp]:
  "rust_cached_stmt_find u j (remember_finalized_stmt E t k sql pg X) = rust_cached_stmt_find u j X"
  "account extra (remember_finalized_stmt E t k sql pg X) = account extra X" "tls_refs (remember_finalized_stmt E t k sql pg X) = tls_refs X"
  by (simp_all add: rust_cached_stmt_find_def stmt_cache_disabled_def tls_of_def account_def reg_refs_def tls_refs_def fun_eq_iff)

text \<open>The rings apart, which a finalize writes.\<close>

abbreviation host_kept :: "'w statements \<Rightarrow> 'w statements \<Rightarrow> bool" where
  "host_kept X X' \<equiv> host_same (hold_of (stmts X')) (shim_of X) (shim_of X')"

lemma finalize_registered_ok:
  assumes fin: "streams_finite L" and ok: "procs_ok extra X" and p: "hm_get (forward X) k = Some p" and k: "k \<noteq> 0"
  shows "returns (finalize_registered L E t k p X) (\<lambda>X'. procs_ok extra X' \<and> host_kept X X' \<and> forward X' = hm_remove k (forward X)
    \<and> (\<forall>q. tls_refs X' q + of_bool (rust_cached_stmt_find t k X = q \<and> q \<noteq> 0) = tls_refs X q)
    \<and> (\<forall>q. q \<noteq> p \<longrightarrow> q \<noteq> rust_cached_stmt_find t k X \<longrightarrow> hm_get (stmts X') q = hm_get (stmts X) q))"
proof -
  note D = procs_okD [OF ok]
  obtain s where s: "hm_get (stmts X) p = Some s"
    using stmts_ok_get [OF D(1), of p] reg_refs_get [OF D(2) p] by (auto simp: account_def)
  obtain r where r: "c_text (final_sql s) X = Some r" using c_text_ok [OF D(1) s] by blast
  let ?X = "remember_finalized_stmt E t k r (is_pg s) X" and ?c = "rust_cached_stmt_find t k X"
  have ok1: "procs_ok extra ?X" using ok by simp
  have c: "?c = rust_cached_stmt_find t k ?X" by simp
  have clr: "returns (if ?c = p \<or> ?c \<noteq> 0 then rust_cached_stmt_clear L t k ?X else Some ?X)
    (\<lambda>X'. procs_ok extra X' \<and> proc_rel ?X X' \<and> forward X' = forward X
      \<and> (\<forall>q. tls_refs X' q + of_bool (?c = q \<and> q \<noteq> 0) = tls_refs X q) \<and> (\<forall>q. q \<noteq> ?c \<longrightarrow> hm_get (stmts X') q = hm_get (stmts X) q))"
  proof (cases "?c = p \<or> ?c \<noteq> 0")
    case True
    then show ?thesis using returns_weaken [OF cached_clear_ok [OF fin ok1 c]] by simp
  next
    case False
    then show ?thesis using ok1 proc_rel_refl [OF ok1] by auto
  qed
  have rest: "returns (rust_stmt_unref L p (rust_stmt_unregister k X1)) (\<lambda>X'. procs_ok extra X' \<and> host_kept X X' \<and> forward X' = hm_remove k (forward X)
      \<and> (\<forall>q. tls_refs X' q + of_bool (?c = q \<and> q \<noteq> 0) = tls_refs X q) \<and> (\<forall>q. q \<noteq> p \<longrightarrow> q \<noteq> ?c \<longrightarrow> hm_get (stmts X') q = hm_get (stmts X) q))"
    if a: "procs_ok extra X1 \<and> proc_rel ?X X1 \<and> forward X1 = forward X
      \<and> (\<forall>q. tls_refs X1 q + of_bool (?c = q \<and> q \<noteq> 0) = tls_refs X q) \<and> (\<forall>q. q \<noteq> ?c \<longrightarrow> hm_get (stmts X1) q = hm_get (stmts X) q)" for X1
  proof -
    have f: "hm_get (forward X1) k = Some p" and ok2: "procs_ok extra X1" using a p by simp_all
    show ?thesis
      by (rule returns_weaken [OF unregister_unref_ok [OF fin ok2 f k]])
        (use a in \<open>auto simp: proc_rel_def tls_refs_def elim: host_same_trans\<close>)
  qed
  have "finalize_registered L E t k p X = do {
      X1 \<leftarrow> (if ?c = p \<or> ?c \<noteq> 0 then rust_cached_stmt_clear L t k ?X else Some ?X);
      rust_stmt_unref L p (rust_stmt_unregister k X1) }"
    by (simp add: finalize_registered_def s r Let_def)
  then show ?thesis unfolding returns_bind by (simp only: returns_bind) (rule returns_weaken [OF clr rest])
qed

lemma finalize_cached_ok:
  assumes fin: "streams_finite L" and ok: "procs_ok extra X" and p: "rust_cached_stmt_find t k X = p" "p \<noteq> 0"
  shows "returns (finalize_cached L E t k p X) (\<lambda>X'. procs_ok (extra(p := extra p - 1)) X' \<and> host_kept X X' \<and> forward X' = forward X
    \<and> (\<forall>q. tls_refs X' q + of_bool (p = q) = tls_refs X q) \<and> (\<forall>q. q \<noteq> p \<longrightarrow> hm_get (stmts X') q = hm_get (stmts X) q))"
proof -
  note D = procs_okD [OF ok]
  obtain i where "i < length (tls_of t X)" "snd (tls_of t X ! i) = p" using cached_find_entry [OF p] by metis
  then have tls: "0 < tls_refs X p" using tls_entry_refs [OF D(3)] by auto
  then obtain s where s: "hm_get (stmts X) p = Some s" using stmts_ok_get [OF D(1), of p] by (auto simp: account_def)
  obtain r where r: "c_text (final_sql s) X = Some r" using c_text_ok [OF D(1) s] by blast
  let ?X = "remember_finalized_stmt E t k r (is_pg s) X" and ?extra = "extra(p := extra p - 1)"
  have ok1: "procs_ok extra ?X" using ok by simp
  have c: "p = rust_cached_stmt_find t k ?X" using p by simp
  have rest: "returns (rust_stmt_unref L p X1) (\<lambda>X'. procs_ok ?extra X' \<and> host_kept X X' \<and> forward X' = forward X
    \<and> (\<forall>q. tls_refs X' q + of_bool (p = q) = tls_refs X q) \<and> (\<forall>q. q \<noteq> p \<longrightarrow> hm_get (stmts X') q = hm_get (stmts X) q))"
    if a: "procs_ok extra X1 \<and> proc_rel ?X X1 \<and> forward X1 = forward ?X \<and> reverse X1 = reverse ?X
      \<and> (\<forall>q. tls_refs X1 q + of_bool (p = q \<and> q \<noteq> 0) = tls_refs ?X q) \<and> (\<forall>q. q \<noteq> p \<longrightarrow> hm_get (stmts X1) q = hm_get (stmts ?X) q)" for X1
  proof -
    have D1: "stmts_ok (account extra X1) X1" "hm_ok (forward X1)" "hm_ok (tls_stmts X1)" "reverse_ok X1"
      using a procs_okD [of extra X1] by blast+
    have refs: "tls_refs X1 q + of_bool (p = q) = tls_refs X q" for q
    proof -
      have "(p = q \<and> q \<noteq> 0) = (p = q)" using p(2) by auto
      moreover have "tls_refs X1 q + of_bool (p = q \<and> q \<noteq> 0) = tls_refs ?X q" using a by blast
      ultimately show ?thesis by simp
    qed
    have ex: "0 < extra p" using tls D(5) [of p] by linarith
    have acc: "account ?extra X1 = (account extra X1)(p := account extra X1 p - 1)" using ex by (auto simp: account_def fun_eq_iff)
    have le: "tls_refs X1 q \<le> ?extra q" for q using refs [of q] D(5) [of q] by (auto split: if_splits)
    have pos: "0 < account extra X1 p" using ex by (simp add: account_def)
    show ?thesis
    proof (rule returns_weaken [OF unref_settles [where extra = ?extra, OF fin D1(1) pos acc D1(2-4) le]], elim conjE, intro conjI allI)
      fix X' q
      assume b: "procs_ok ?extra X'" "stmt_rel {p} X1 X'"
      then show "procs_ok ?extra X'" by simp
      have tab: "tables_same X1 X'" using b(2) by (simp add: stmt_rel_def)
      then have "tls_refs X' = tls_refs X1" by (simp add: tables_same_def tls_refs_def fun_eq_iff)
      then show "tls_refs X' q + of_bool (p = q) = tls_refs X q" using refs by simp
      show "forward X' = forward X" using tab a by (simp add: tables_same_def)
      show "q \<noteq> p \<longrightarrow> hm_get (stmts X') q = hm_get (stmts X) q" using a b(2) by (simp add: stmt_rel_def)
      have "host_kept X X1" using a by (simp add: proc_rel_def)
      moreover have "host_kept X1 X'" using b(2) by (simp add: stmt_rel_def)
      ultimately show "host_kept X X'" by (rule host_same_trans)
    qed
  qed
  have "finalize_cached L E t k p X = do { X1 \<leftarrow> rust_cached_stmt_clear L t k ?X; rust_stmt_unref L p X1 }"
    by (simp add: finalize_cached_def s r Let_def)
  then show ?thesis by (simp only: returns_bind) (rule returns_weaken [OF cached_clear_ok [OF fin ok1 c] rest])
qed

section \<open>Reset and clear_bindings\<close>

lemma heap_params_cleared:
  assumes "param_values s' = map (\<lambda>(keep, p). if keep then p else 0) (marked_params s)" "param_buffers s' = param_buffers s"
  shows "set (heap_params s') \<subseteq> {0}" and "length (param_values s') = length (param_values s)"
proof -
  show len: "length (param_values s') = length (param_values s)" by (simp add: assms marked_params_def)
  have "param_values s' ! i = 0" if i: "i < length (param_values s)" "\<not> is_preallocated_buffer s' i" for i
  proof -
    have v: "param_values s' ! i = (if is_preallocated_buffer s i then param_values s ! i else 0)"
      using i(1) by (simp add: assms(1) marked_params_def)
    then show ?thesis using i len by (auto simp: is_preallocated_buffer_def assms(2) split: if_splits)
  qed
  then show "set (heap_params s') \<subseteq> {0}" by (auto simp: marked_params_def len)
qed

lemma nonnull_zeros: "set xs \<subseteq> {0} \<Longrightarrow> filter (\<lambda>p. p \<noteq> (0::nat)) xs = []"
  by (auto simp: filter_empty_conv)

text \<open>The heap-allocated parameters of a statement are freed, the rest of it stays.\<close>

definition params_cleared :: "PgStmt \<Rightarrow> PgStmt \<Rightarrow> bool" where
  "params_cleared s s' \<longleftrightarrow> s' = s\<lparr>in_step := 0, param_values := map (\<lambda>(keep, p). if keep then p else 0) (marked_params s)\<rparr>"

lemma params_cleared_owned:
  assumes "params_cleared s s'"
  shows "owned_mset s = mset (filter (\<lambda>p. p \<noteq> 0) (heap_params s)) + owned_mset s'" and "shape_ok s' = shape_ok s"
proof -
  have s': "s' = s\<lparr>in_step := 0, param_values := map (\<lambda>(keep, p). if keep then p else 0) (marked_params s)\<rparr>"
    using assms by (simp add: params_cleared_def)
  have z: "set (heap_params s') \<subseteq> {0}" and len: "length (param_values s') = length (param_values s)"
    using heap_params_cleared [of s' s] by (simp_all add: s')
  have n: "safe_param_count s' = safe_param_count s" using len by (simp add: safe_param_count_def s')
  have l: "lasting_blocks s' = lasting_blocks s" "result_blocks s' = result_blocks s" "buffer_cells s' = buffer_cells s" unfolding n by (simp_all add: s')
  show "owned_mset s = mset (filter (\<lambda>p. p \<noteq> 0) (heap_params s)) + owned_mset s'"
    unfolding owned_blocks_def l filter_append nonnull_zeros [OF z] mset_append by (simp add: ac_simps)
  show "shape_ok s' = shape_ok s" unfolding shape_ok_def n len by (simp add: s')
qed

lemma clear_dynamic_step:
  assumes ok: "stmts_ok R X" and p: "hm_get (stmts X) p = Some s"
  shows "returns (clear_dynamic_param_values (s\<lparr>in_step := 0\<rparr>) (c_heap X)) (\<lambda>(s', B). params_cleared s s'
    \<and> stmts_ok R ((put_stmt p s' X)\<lparr>c_heap := B\<rparr>) \<and> stmt_rel {p} X ((put_stmt p s' X)\<lparr>c_heap := B\<rparr>))"
proof -
  have m: "hm_ok (stmts X)" using ok by (rule stmts_okD)
  note A = stmts_ok_alive [OF ok p]
  let ?m = "hm_remove p (stmts X)"
  let ?s = "s\<lparr>in_step := 0, param_values := map (\<lambda>(keep, p). if keep then p else 0) (marked_params s)\<rparr>"
  have pc: "params_cleared s ?s" by (simp add: params_cleared_def)
  have "covered (owned_mset s + hm_sum owned_mset ?m) (c_heap X)" using stmts_okD(2) [OF ok] blocks_ok_get [OF m p] by simp
  then have cov: "covered (mset (filter (\<lambda>p. p \<noteq> 0) (heap_params s)) + (owned_mset ?s + hm_sum owned_mset ?m)) (c_heap X)"
    unfolding params_cleared_owned(1) [OF pc] by (simp add: ac_simps)
  have mp: "marked_params (s\<lparr>in_step := 0\<rparr>) = marked_params s" by (rule marked_params_cong) simp_all
  have run: "clear_dynamic_param_values (s\<lparr>in_step := 0\<rparr>) (c_heap X) = Some (?s, without (c_heap X) (heap_params s))"
    using free_unmarked_ok [OF covered_free(1) [OF cov]] by (simp add: clear_dynamic_param_values_def mp)
  let ?X = "(put_stmt p ?s X)\<lparr>c_heap := without (c_heap X) (heap_params s)\<rparr>"
  have "hold_with ?m ?s = hold_with ?m s" by (rule hold_with_cong) (simp add: same_holds_def)
  then have "host_same (hold_with ?m ?s) (shim_of X) (shim_of ?X)"
    using host_same_refl stmts_okD(3,4) [OF ok] hold_of_get [OF m p] by simp
  then have "stmts_ok (R(p := R p)) ?X \<and> stmt_rel {p} X ?X"
    using A covered_free(2) [OF cov] params_cleared_owned(2) [OF pc] by (intro stmts_ok_put [OF ok]) (simp_all add: tables_same_def)
  then show ?thesis using run pc by simp
qed

lemma result_cleared_owned:
  assumes "result_cleared s s'"
  shows "owned_mset s = mset (filter (\<lambda>p. p \<noteq> 0) (result_blocks s)) + owned_mset s'" and "shape_ok s \<Longrightarrow> shape_ok s'"
    and "stmt_refs s' = stmt_refs s" "is_pg s' = is_pg s" "is_cached s' = is_cached s" "param_values s' = param_values s"
proof -
  have s': "s' = (settled s)\<lparr>stmt_result := 0, cached_result := None, result_conn := 0, metadata_only_result := 0,
     current_row := -1, num_rows := 0, num_cols := 0, write_executed := 0, read_done := 0,
     decoded_blobs := replicate (length (decoded_blobs s)) 0, cached_text := replicate (length (cached_text s)) 0,
     cached_blob := replicate (length (cached_blob s)) 0, decoded_blob_lens := decoded_blob_lens s', cached_blob_len := cached_blob_len s',
     decoded_blob_row := -1, cached_row := -1, stmt_col_names := None, num_col_names := (if stmt_col_names s = None then num_col_names s else 0)\<rparr>"
    "length (decoded_blob_lens s') = length (decoded_blob_lens s)" "length (cached_blob_len s') = length (cached_blob_len s)"
    using assms unfolding result_cleared_def by blast+
  have same: "param_values s' = param_values s" "param_buffers s' = param_buffers s" "param_count s' = param_count s" "param_names s' = param_names s"
    "param_lengths s' = param_lengths s" "param_formats s' = param_formats s" "stmt_sql s' = stmt_sql s" "stmt_pg_sql s' = stmt_pg_sql s" "col_table_names s' = col_table_names s" "stmt_refs s' = stmt_refs s"
    "is_pg s' = is_pg s" "is_cached s' = is_cached s" "decoded_blobs s' = replicate (length (decoded_blobs s)) 0"
    "cached_text s' = replicate (length (cached_text s)) 0" "cached_blob s' = replicate (length (cached_blob s)) 0" "stmt_col_names s' = None"
    by (subst s'(1), simp add: settled_def)+
  then show "stmt_refs s' = stmt_refs s" "is_pg s' = is_pg s" "is_cached s' = is_cached s" "param_values s' = param_values s" by simp_all
  have n: "safe_param_count s' = safe_param_count s" by (simp add: safe_param_count_def same)
  have mp: "marked_params s' = marked_params s" by (rule marked_params_cong) (simp_all add: same)
  have l: "lasting_blocks s' = lasting_blocks s" "buffer_cells s' = buffer_cells s" unfolding n by (simp_all add: same)
  have z: "set (result_blocks s') \<subseteq> {0}" by (auto simp: same names_blocks_def)
  show "owned_mset s = mset (filter (\<lambda>p. p \<noteq> 0) (result_blocks s)) + owned_mset s'"
    unfolding owned_blocks_def l mp filter_append nonnull_zeros [OF z] mset_append
    using nonnull_zeros [OF z] by (simp add: ac_simps)
  show "shape_ok s \<Longrightarrow> shape_ok s'" unfolding shape_ok_def n by (simp add: same s'(2,3) names_fit_def)
qed

lemma clear_result_step:
  assumes fin: "streams_finite L" and ok: "stmts_ok R X" and p: "hm_get (stmts X) p = Some s"
  shows "returns (rust_stmt_clear_result L p X) (\<lambda>X'. stmts_ok R X' \<and> stmt_rel {p} X X' \<and> (\<exists>s'. hm_get (stmts X') p = Some s' \<and> result_cleared s s'))"
proof -
  have m: "hm_ok (stmts X)" using ok by (rule stmts_okD)
  note A = stmts_ok_alive [OF ok p]
  let ?m = "hm_remove p (stmts X)"
  have all: "covered (owned_mset s + hm_sum owned_mset ?m) (c_heap X)" using stmts_okD(2) [OF ok] blocks_ok_get [OF m p] by simp
  have cov: "covered (mset (filter (\<lambda>p. p \<noteq> 0) (result_blocks s)) + (owned_mset s' + hm_sum owned_mset ?m)) (c_heap X)"
    if "result_cleared s s'" for s' using all unfolding result_cleared_owned(1) [OF that] by (simp add: ac_simps)
  have own: "owned_mset s = mset (filter (\<lambda>p. p \<noteq> 0) (result_blocks s)) + mset (filter (\<lambda>p. p \<noteq> 0) (lasting_blocks s @ heap_params s @ buffer_cells s))"
    unfolding owned_blocks_def filter_append mset_append by (simp only: ac_simps)
  have "covered (mset (filter (\<lambda>p. p \<noteq> 0) (result_blocks s))
      + (mset (filter (\<lambda>p. p \<noteq> 0) (lasting_blocks s @ heap_params s @ buffer_cells s)) + hm_sum owned_mset ?m)) (c_heap X)"
    using all unfolding own by (simp only: ac_simps)
  then have free: "freeable (result_blocks s) (c_heap X)" by (rule covered_free(1))
  have A2: "p \<noteq> 0" "shape_ok s" using A by simp_all
  show ?thesis
  proof (rule returns_weaken [OF clear_result_ok [OF fin stmts_okD(3,4) [OF ok] m p A2 free]], elim exE conjE)
    fix X' s' S' Q
    assume c: "result_cleared s s'" and X': "X' = (set_shim S' (put_stmt p s' X))\<lparr>c_heap := without (c_heap X) (result_blocks s), qcaches := Q\<rparr>"
      and h: "host_same (hold_with ?m s') (shim_of X) S'"
    have "stmts_ok (R(p := R p)) X' \<and> stmt_rel {p} X X'"
      using A result_cleared_owned(2,3) [OF c] covered_free(2) [OF cov [OF c]] h
      by (intro stmts_ok_put [OF ok]) (simp_all add: X' tables_same_def)
    then show "stmts_ok R X' \<and> stmt_rel {p} X X' \<and> (\<exists>s'. hm_get (stmts X') p = Some s' \<and> result_cleared s s')"
      using c by (simp add: X')
  qed
qed

text \<open>SQLite's own functions act on their world only.\<close>

lemma call_orig_simps [simp]:
  "stmts (snd (call_orig f k X)) = stmts X" "c_heap (snd (call_orig f k X)) = c_heap X" "forward (snd (call_orig f k X)) = forward X"
  "reverse (snd (call_orig f k X)) = reverse X" "tls_stmts (snd (call_orig f k X)) = tls_stmts X"
  "finalized_ring (snd (call_orig f k X)) = finalized_ring X" "finalized_idx (snd (call_orig f k X)) = finalized_idx X"
  "prepared_ring (snd (call_orig f k X)) = prepared_ring X" "prepared_idx (snd (call_orig f k X)) = prepared_idx X"
  "current_conn (snd (call_orig f k X)) = current_conn X" "env (shim_of (snd (call_orig f k X))) = env (shim_of X)"
  "pool_ok hold (shim_of (snd (call_orig f k X))) = pool_ok hold (shim_of X)" "reg_ok (shim_of (snd (call_orig f k X))) = reg_ok (shim_of X)"
  "host_same hold S (shim_of (snd (call_orig f k X))) = host_same hold S (shim_of X)"
  by (simp_all add: call_orig_def split: option.splits prod.splits)

lemma call_orig_ok [simp]: "procs_ok extra (snd (call_orig f k X)) = procs_ok extra X" "stmts_ok R (snd (call_orig f k X)) = stmts_ok R X"
proof -
  have l: "leak_enabled (snd (call_orig f k X)) = leak_enabled X" by (rule leak_enabled_env) simp
  show s: "stmts_ok R (snd (call_orig f k X)) = stmts_ok R X" for R by (simp add: stmts_ok_def l)
  have "account extra (snd (call_orig f k X)) = account extra X" by (rule account_cong) simp_all
  then show "procs_ok extra (snd (call_orig f k X)) = procs_ok extra X" by (simp add: procs_ok_def s reverse_ok_def tls_refs_def)
qed

text \<open>
  A reset statement: its result is gone and with it the connection of the result, its
  heap-allocated parameters are freed and the preallocated ones stay, and what SQLite is told
  is as the source says.
\<close>

definition was_reset :: "PgStmt \<Rightarrow> PgStmt \<Rightarrow> bool" where
  "was_reset s s' \<longleftrightarrow> (\<exists>s1. params_cleared s s1 \<and> result_cleared s1 s')"

lemma reset_locked_ok:
  assumes fin: "streams_finite L" and ok: "procs_ok extra X" and p: "hm_get (stmts X) p = Some s"
  shows "returns (reset_pg_stmt_locked L E k p X) (\<lambda>(rc, X'). procs_ok extra X' \<and> host_kept X X' \<and> forward X' = forward X \<and> tls_stmts X' = tls_stmts X
    \<and> (\<exists>s'. hm_get (stmts X') p = Some s' \<and> was_reset s s') \<and> (\<forall>q. q \<noteq> p \<longrightarrow> hm_get (stmts X') q = hm_get (stmts X) q))"
proof -
  note D = procs_okD [OF ok]
  obtain s1 B where r1: "clear_dynamic_param_values (s\<lparr>in_step := 0\<rparr>) (c_heap X) = Some (s1, B)" "params_cleared s s1"
    and X1: "stmts_ok (account extra X) ((put_stmt p s1 X)\<lparr>c_heap := B\<rparr>)" "stmt_rel {p} X ((put_stmt p s1 X)\<lparr>c_heap := B\<rparr>)"
    using returnsD [OF clear_dynamic_step [OF D(1) p]] by auto
  let ?X = "(put_stmt p s1 X)\<lparr>c_heap := B\<rparr>"
  obtain X2 s2 where r2: "rust_stmt_clear_result L p ?X = Some X2" "stmts_ok (account extra X) X2" "stmt_rel {p} ?X X2"
      "hm_get (stmts X2) p = Some s2" "result_cleared s1 s2"
    using returnsD [OF clear_result_step [OF fin X1(1), of p s1]] by auto
  have rel: "stmt_rel {p} X X2" by (rule stmt_rel_trans [OF X1(2) r2(3)])
  then have tab: "tables_same X X2" by (simp add: stmt_rel_def)
  have "account extra X2 = account extra X" using tab by (intro account_cong) (simp_all add: tables_same_def)
  then have ok2: "procs_ok extra X2" using procs_ok_stmt_rel [OF ok _ tab] r2(2) D(5) by simp
  have "\<exists>rc f. reset_pg_stmt_locked L E k p X = Some (rc, X2) \<or> reset_pg_stmt_locked L E k p X = Some (call_orig f k X2)"
    using p r1(1) r2(1) by (auto simp: reset_pg_stmt_locked_def)
  then obtain rc X3 where r3: "reset_pg_stmt_locked L E k p X = Some (rc, X3)" "X3 = X2 \<or> (\<exists>f. X3 = snd (call_orig f k X2))"
    by (metis prod.collapse)
  have "was_reset s s2" using r1(2) r2(5) by (auto simp: was_reset_def)
  with r3 ok2 rel tab r2(4) show ?thesis by (auto simp: stmt_rel_def tables_same_def)
qed

lemma find_any_alive:
  assumes ok: "procs_ok extra X" and p: "rust_stmt_find_any t k X = p \<or> rust_cached_stmt_find t k X = p" "p \<noteq> 0"
  shows "\<exists>s. hm_get (stmts X) p = Some s"
proof -
  note D = procs_okD [OF ok]
  have "0 < account extra X p"
  proof (cases "hm_get (forward X) k = Some p")
    case True
    then show ?thesis using reg_refs_get [OF D(2)] by (simp add: account_def)
  next
    case False
    with p have "rust_cached_stmt_find t k X = p"
      by (auto simp: rust_stmt_find_any_def rust_cached_stmt_find_def unwrap_or_null_def split: if_splits option.splits)
    then obtain i where "i < length (tls_of t X)" "snd (tls_of t X ! i) = p" using cached_find_entry p(2) by metis
    then show ?thesis using tls_entry_refs [OF D(3)] by (auto simp: account_def)
  qed
  then show ?thesis using stmts_ok_get [OF D(1)] by blast
qed

lemma reset_ok:
  assumes fin: "streams_finite L" and ok: "procs_ok extra X"
  shows "returns (reset_impl L E t k X) (\<lambda>(rc, X'). procs_ok extra X' \<and> host_kept X X' \<and> forward X' = forward X \<and> tls_stmts X' = tls_stmts X
    \<and> (\<forall>q. q \<noteq> rust_stmt_find_any t k X \<longrightarrow> q \<noteq> rust_cached_stmt_find t k X \<longrightarrow> hm_get (stmts X') q = hm_get (stmts X) q))"
proof -
  have kept: "host_kept X X" using proc_rel_refl [OF ok] by (simp add: proc_rel_def)
  have lock: "returns (reset_pg_stmt_locked L E k p X) (\<lambda>(rc, X'). procs_ok extra X' \<and> host_kept X X' \<and> forward X' = forward X \<and> tls_stmts X' = tls_stmts X
    \<and> (\<forall>q. q \<noteq> p \<longrightarrow> hm_get (stmts X') q = hm_get (stmts X) q))"
    if p: "rust_stmt_find_any t k X = p \<or> rust_cached_stmt_find t k X = p" "p \<noteq> 0" for p
  proof -
    obtain s where s: "hm_get (stmts X) p = Some s" using find_any_alive [OF ok p] by blast
    show ?thesis by (rule returns_weaken [OF reset_locked_ok [OF fin ok s]]) auto
  qed
  have orig: "returns (Some (call_orig f k X)) (\<lambda>(rc, X'). procs_ok extra X' \<and> host_kept X X' \<and> forward X' = forward X \<and> tls_stmts X' = tls_stmts X
      \<and> (\<forall>q. Q q \<longrightarrow> hm_get (stmts X') q = hm_get (stmts X) q))" for f Q
    using ok kept by (simp add: case_prod_unfold)
  consider "rust_stmt_find_any t k X \<noteq> 0" | "rust_stmt_find_any t k X = 0" "rust_cached_stmt_find t k X \<noteq> 0"
    | "rust_stmt_find_any t k X = 0" "rust_cached_stmt_find t k X = 0" by blast
  then show ?thesis
  proof cases
    case 1
    then show ?thesis by (simp add: reset_impl_def) (rule returns_weaken [OF lock], auto)
  next
    case 2
    then show ?thesis by (simp add: reset_impl_def) (rule returns_weaken [OF lock], auto)
  next
    case 3
    then show ?thesis using orig by (simp add: reset_impl_def)
  qed
qed

end
