(* ===== verification/Stmt_Sessions.thy ===== *)
theory Stmt_Sessions
  imports Stmt_Account
begin

text \<open>
  Statements and connections together, under calls of many threads in any order: every
  operation on a statement returns and keeps the account of statement objects, of the C heap
  and of the connections, and so does every session of the process.
\<close>

section \<open>What the libraries promise\<close>

text \<open>
  \<open>sqlite3_next_stmt\<close> walks a finite list; \<open>Box::new\<close> hands out an address that is not null and
  not in use; an allocation with \<open>malloc\<close> may fail, and else is not in use either.
\<close>

definition stmt_lists_finite :: "'w stmt_lib \<Rightarrow> bool" where
  "stmt_lists_finite E \<longleftrightarrow> (\<forall>next db w. orig_next_stmt E = Some next \<longrightarrow>
     (\<exists>rank :: ptr \<Rightarrow> nat. \<forall>cur. cur \<noteq> 0 \<longrightarrow> next db cur w \<noteq> 0 \<longrightarrow> rank (next db cur w) < rank cur))"

definition allocs_fresh :: "'w stmt_lib \<Rightarrow> bool" where
  "allocs_fresh E \<longleftrightarrow> (\<forall>live w. finite live \<longrightarrow> fst (box_new E live w) \<noteq> 0 \<and> fst (box_new E live w) \<notin> live)
     \<and> (\<forall>live w. fst (c_malloc E live w) = 0 \<or> fst (c_malloc E live w) \<notin> live)
     \<and> (\<forall>n live w. finite live \<longrightarrow> fst (vec_new E n live w) \<noteq> 0 \<and> {fst (vec_new E n live w)..<fst (vec_new E n live w) + n} \<inter> live = {})"

definition libs_ok :: "'w libpq \<Rightarrow> 'w stmt_lib \<Rightarrow> bool" where
  "libs_ok L E \<longleftrightarrow> streams_finite L \<and> stmt_lists_finite E \<and> allocs_fresh E"

lemma walk_returns:
  assumes "\<forall>cur. cur \<noteq> 0 \<longrightarrow> nxt cur \<noteq> 0 \<longrightarrow> rank (nxt cur) < (rank cur :: nat)"
  shows "\<exists>b. walk_stmts nxt k cur = Some b"
proof (induction "rank cur" arbitrary: cur rule: less_induct)
  case less
  show ?case
  proof (cases "cur = 0 \<or> cur = k \<or> nxt cur = 0")
    case True
    then show ?thesis by (subst walk_stmts.simps, auto) (subst walk_stmts.simps, auto)
  next
    case False
    with assms have "rank (nxt cur) < rank cur" by blast
    from less [OF this] False show ?thesis by (subst walk_stmts.simps) auto
  qed
qed

lemma is_live_returns:
  assumes "stmt_lists_finite E"
  shows "\<exists>b. is_live_stmt_of_current_conn E t k X = Some b"
proof (cases "orig_next_stmt E")
  case None
  then show ?thesis by (auto simp: is_live_stmt_of_current_conn_def Let_def)
next
  case (Some nx)
  let ?nxt = "\<lambda>cur. nx (current_conn X t) cur (world (shim_of X))"
  obtain rank :: "ptr \<Rightarrow> nat" where "\<forall>cur. cur \<noteq> 0 \<longrightarrow> ?nxt cur \<noteq> 0 \<longrightarrow> rank (?nxt cur) < rank cur"
    using assms Some unfolding stmt_lists_finite_def by blast
  from walk_returns [OF this] show ?thesis using Some by (auto simp: is_live_stmt_of_current_conn_def Let_def)
qed

section \<open>Finalize\<close>

text \<open>Whether a finalize is taken for the second one of a freed statement, and skipped.\<close>

definition taken_twice :: "'w stmt_lib \<Rightarrow> tid \<Rightarrow> ptr \<Rightarrow> 'w statements \<Rightarrow> bool" where
  "taken_twice E t k X \<longleftrightarrow> skip_clear_bindings_on_finalized X \<and> is_recently_finalized_stmt E k X
     \<and> is_live_stmt_of_current_conn E t k X = Some False"

text \<open>The references a finalize gives back that no table has: the creator's of a cached statement.\<close>

definition finalize_extra :: "tid \<Rightarrow> ptr \<Rightarrow> 'w statements \<Rightarrow> (ptr \<Rightarrow> nat) \<Rightarrow> ptr \<Rightarrow> nat" where
  "finalize_extra t k X extra =
     (let p = rust_cached_stmt_find t k X in
      if rust_stmt_find k X = 0 \<and> p \<noteq> 0 then extra(p := extra p - 1) else extra)"

lemma prepared_simps [simp]:
  "stmt_host (clear_prepared_stmt k X) = stmt_host X" "stmts (clear_prepared_stmt k X) = stmts X" "c_heap (clear_prepared_stmt k X) = c_heap X"
  "forward (clear_prepared_stmt k X) = forward X" "reverse (clear_prepared_stmt k X) = reverse X" "tls_stmts (clear_prepared_stmt k X) = tls_stmts X"
  "finalized_ring (clear_prepared_stmt k X) = finalized_ring X" "finalized_idx (clear_prepared_stmt k X) = finalized_idx X"
  "current_conn (clear_prepared_stmt k X) = current_conn X"
  by (simp_all add: clear_prepared_stmt_def split: option.splits)

lemma prepared_ok [simp]: "procs_ok extra (clear_prepared_stmt k X) = procs_ok extra X"
  by (rule procs_ok_cong) simp_all

lemma finalize_eq:
  assumes "stmt_lists_finite E"
  shows "finalize_impl L E t k X =
    (if taken_twice E t k X then Some (SQLITE_OK, clear_prepared_stmt k X)
     else do {
       X1 \<leftarrow> (if rust_stmt_find k X \<noteq> 0 then finalize_registered L E t k (rust_stmt_find k X) X
              else if rust_cached_stmt_find t k X \<noteq> 0 then finalize_cached L E t k (rust_cached_stmt_find t k X) X
              else Some (finalize_unknown E t k X));
       Some (fst (call_orig (orig_finalize E) k X1), clear_prepared_stmt k (snd (call_orig (orig_finalize E) k X1)))
     })"
proof -
  obtain b where b: "is_live_stmt_of_current_conn E t k X = Some b" using is_live_returns [OF assms] by blast
  have "(if skip_clear_bindings_on_finalized X \<and> is_recently_finalized_stmt E k X
      then map_option Not (is_live_stmt_of_current_conn E t k X) else Some False) = Some (taken_twice E t k X)"
    using b by (auto simp: taken_twice_def)
  then show ?thesis by (simp add: finalize_impl_def Let_def case_prod_unfold)
qed

lemma finalize_ok:
  assumes lib: "libs_ok L E" and ok: "procs_ok extra X"
  shows "returns (finalize_impl L E t k X) (\<lambda>(rc, X'). procs_ok (if taken_twice E t k X then extra else finalize_extra t k X extra) X' \<and> host_kept X X'
    \<and> (\<forall>q. q \<noteq> rust_stmt_find k X \<longrightarrow> q \<noteq> rust_cached_stmt_find t k X \<longrightarrow> hm_get (stmts X') q = hm_get (stmts X) q))"
proof -
  have fin: "streams_finite L" and lists: "stmt_lists_finite E" using lib by (simp_all add: libs_ok_def)
  have kept: "host_kept X X" using proc_rel_refl [OF ok] by (simp add: proc_rel_def)
  let ?p = "rust_stmt_find k X" and ?c = "rust_cached_stmt_find t k X"
  have one: "returns (if ?p \<noteq> 0 then finalize_registered L E t k ?p X
        else if ?c \<noteq> 0 then finalize_cached L E t k ?c X else Some (finalize_unknown E t k X))
      (\<lambda>X'. procs_ok (finalize_extra t k X extra) X' \<and> host_kept X X' \<and> (\<forall>q. q \<noteq> ?p \<longrightarrow> q \<noteq> ?c \<longrightarrow> hm_get (stmts X') q = hm_get (stmts X) q))"
  proof (cases "?p = 0")
    case False
    then have f: "hm_get (forward X) k = Some ?p" "k \<noteq> 0"
      by (auto simp: rust_stmt_find_def unwrap_or_null_def split: if_splits option.splits)
    have "finalize_extra t k X extra = extra" using False by (simp add: finalize_extra_def)
    then show ?thesis
      unfolding if_P [OF False] by (intro returns_weaken [OF finalize_registered_ok [OF fin ok f]]) simp
  next
    case p: True
    show ?thesis
    proof (cases "?c = 0")
      case False
      have "finalize_extra t k X extra = extra(?c := extra ?c - 1)" using False p by (simp add: finalize_extra_def Let_def)
      then show ?thesis
        unfolding p if_P [OF False] by (simp only: simp_thms if_False, intro returns_weaken [OF finalize_cached_ok [OF fin ok refl False]]) simp
    next
      case True
      have "finalize_extra t k X extra = extra" using True by (simp add: finalize_extra_def)
      then show ?thesis using p True ok kept by (simp add: finalize_unknown_def)
    qed
  qed
  show ?thesis
  proof (cases "taken_twice E t k X")
    case True
    then show ?thesis using ok kept by (simp add: finalize_eq [OF lists])
  next
    case False
    then show ?thesis
      unfolding finalize_eq [OF lists] by (simp only: if_False returns_bind) (rule returns_weaken [OF one], simp)
  qed
qed

section \<open>Clear bindings\<close>

lemma clear_dynamic_plain:
  "clear_dynamic_param_values s B = map_option (\<lambda>(s', B). (s'\<lparr>in_step := in_step s\<rparr>, B)) (clear_dynamic_param_values (s\<lparr>in_step := 0\<rparr>) B)"
proof -
  have "marked_params (s\<lparr>in_step := 0\<rparr>) = marked_params s" by (rule marked_params_cong) simp_all
  then show ?thesis by (cases "free_unmarked (marked_params s) B") (auto simp: clear_dynamic_param_values_def)
qed

text \<open>All parameters null.\<close>

definition bindings_cleared :: "PgStmt \<Rightarrow> PgStmt \<Rightarrow> bool" where
  "bindings_cleared s s' \<longleftrightarrow> s' = s\<lparr>param_values := replicate (length (param_values s)) 0,
     param_lengths := replicate (length (param_lengths s)) 0, param_formats := replicate (length (param_formats s)) 0\<rparr>"

lemma bindings_cleared_owned:
  assumes "bindings_cleared s s'" "params_cleared s s1"
  shows "owned_mset s' = owned_mset s1" "shape_ok s' = shape_ok s" "same_holds s s'"
proof -
  have s': "s' = s\<lparr>param_values := replicate (length (param_values s)) 0, param_lengths := replicate (length (param_lengths s)) 0,
      param_formats := replicate (length (param_formats s)) 0\<rparr>"
    and s1: "s1 = s\<lparr>in_step := 0, param_values := map (\<lambda>(keep, p). if keep then p else 0) (marked_params s)\<rparr>"
    using assms by (simp_all add: bindings_cleared_def params_cleared_def)
  have z1: "set (heap_params s1) \<subseteq> {0}" and len: "length (param_values s1) = length (param_values s)"
    using heap_params_cleared [of s1 s] by (simp_all add: s1)
  have z: "set (heap_params s') \<subseteq> {0}" by (auto simp: marked_params_def s')
  have n: "safe_param_count s' = safe_param_count s1" using len by (simp add: safe_param_count_def s' s1)
  have l: "lasting_blocks s' = lasting_blocks s1" "result_blocks s' = result_blocks s1" "buffer_cells s' = buffer_cells s1" unfolding n by (simp_all add: s' s1)
  show "owned_mset s' = owned_mset s1" unfolding owned_blocks_def l filter_append nonnull_zeros [OF z] nonnull_zeros [OF z1] ..
  show "shape_ok s' = shape_ok s" by (simp add: shape_ok_def s' safe_param_count_def)
  show "same_holds s s'" by (simp add: same_holds_def s')
qed

lemma clear_all_step:
  assumes ok: "stmts_ok R X" and p: "hm_get (stmts X) p = Some s"
  shows "returns (clear_all_param_values s (c_heap X)) (\<lambda>(s', B). bindings_cleared s s'
    \<and> stmts_ok R ((put_stmt p s' X)\<lparr>c_heap := B\<rparr>) \<and> stmt_rel {p} X ((put_stmt p s' X)\<lparr>c_heap := B\<rparr>))"
proof -
  have m: "hm_ok (stmts X)" using ok by (rule stmts_okD)
  note A = stmts_ok_alive [OF ok p]
  let ?m = "hm_remove p (stmts X)"
  obtain s1 B where r: "clear_dynamic_param_values (s\<lparr>in_step := 0\<rparr>) (c_heap X) = Some (s1, B)" "params_cleared s s1"
      "stmts_ok R ((put_stmt p s1 X)\<lparr>c_heap := B\<rparr>)"
    using returnsD [OF clear_dynamic_step [OF ok p]] by auto
  have len: "length (param_values s1) = length (param_values s)" using r(2) by (simp add: params_cleared_def marked_params_def)
  let ?s = "s\<lparr>param_values := replicate (length (param_values s)) 0, param_lengths := replicate (length (param_lengths s)) 0,
    param_formats := replicate (length (param_formats s)) 0\<rparr>"
  have run: "clear_all_param_values s (c_heap X) = Some (?s, B)"
    using r(1,2) len by (subst clear_all_param_values_def, subst clear_dynamic_plain) (simp add: params_cleared_def map_replicate_const)
  have bc: "bindings_cleared s ?s" by (simp add: bindings_cleared_def)
  note O = bindings_cleared_owned [OF bc r(2)]
  have "covered (owned_mset s1 + hm_sum owned_mset ?m) B"
    using stmts_okD(2) [OF r(3)] blocks_ok_insert [OF m, of p s1] by simp
  moreover have "host_same (hold_with ?m ?s) (shim_of X) (shim_of X)"
    using host_same_refl stmts_okD(3,4) [OF ok] hold_of_get [OF m p] hold_with_cong [OF O(3), of ?m] by simp
  ultimately have "stmts_ok (R(p := R p)) ((put_stmt p ?s X)\<lparr>c_heap := B\<rparr>) \<and> stmt_rel {p} X ((put_stmt p ?s X)\<lparr>c_heap := B\<rparr>)"
    using A O(1,2) by (intro stmts_ok_put [OF ok]) (simp_all add: tables_same_def)
  then show ?thesis using run bc by simp
qed

lemma registered_alive:
  assumes "procs_ok extra X" "hm_get (forward X) k = Some p"
  shows "\<exists>s. hm_get (stmts X) p = Some s"
proof -
  have "0 < account extra X p" using reg_refs_get [OF procs_okD(2) [OF assms(1)] assms(2)] by (simp add: account_def)
  then show ?thesis using stmts_ok_get [OF procs_okD(1) [OF assms(1)]] by blast
qed

lemma clear_bindings_ok:
  assumes ok: "procs_ok extra X"
  shows "returns (clear_bindings_impl L E t k X) (\<lambda>(rc, X'). procs_ok extra X' \<and> host_kept X X'
    \<and> (\<forall>q. q \<noteq> rust_stmt_find k X \<longrightarrow> hm_get (stmts X') q = hm_get (stmts X) q))"
proof -
  note D = procs_okD [OF ok]
  have kept: "host_kept X X" using proc_rel_refl [OF ok] by (simp add: proc_rel_def)
  show ?thesis
  proof (cases "(skip_clear_bindings_on_finalized X \<and> is_recently_finalized_stmt E k X) \<or> rust_stmt_find k X = 0")
    case True
    then show ?thesis using ok kept by (auto simp: clear_bindings_impl_def Let_def case_prod_unfold)
  next
    case False
    let ?p = "rust_stmt_find k X"
    have "hm_get (forward X) k = Some ?p" using False by (auto simp: rust_stmt_find_def unwrap_or_null_def split: if_splits option.splits)
    then obtain s where s: "hm_get (stmts X) ?p = Some s" using registered_alive [OF ok] by blast
    obtain s' B where r: "clear_all_param_values s (c_heap X) = Some (s', B)" "stmts_ok (account extra X) ((put_stmt ?p s' X)\<lparr>c_heap := B\<rparr>)"
        "stmt_rel {?p} X ((put_stmt ?p s' X)\<lparr>c_heap := B\<rparr>)"
      using returnsD [OF clear_all_step [OF D(1) s]] by auto
    let ?X = "(put_stmt ?p s' X)\<lparr>c_heap := B\<rparr>"
    have tab: "tables_same X ?X" by (simp add: tables_same_def)
    have "account extra ?X = account extra X" by (rule account_cong) simp_all
    then have ok': "procs_ok extra ?X" using procs_ok_stmt_rel [OF ok _ tab] r(2) D(5) by simp
    have ns: "(skip_clear_bindings_on_finalized X \<and> is_recently_finalized_stmt E k X) = False" using False by simp
    have "clear_bindings_impl L E t k X = (if is_pg s' = 0 then Some (call_orig (orig_clear_bindings E) k ?X) else Some (SQLITE_OK, ?X))"
      using False s r(1) unfolding clear_bindings_impl_def ns by (simp add: Let_def)
    then show ?thesis using ok' r(3) by (auto simp: stmt_rel_def case_prod_unfold)
  qed
qed

section \<open>Creation\<close>

lemma covered_alloc:
  assumes "covered M B" "B q = None"
  shows "covered ({#q#} + M) (B(q \<mapsto> r))"
proof -
  have c: "count M b = (if B b = None then 0 else 1)" for b using assms(1) by (simp add: covered_def)
  have "count ({#q#} + M) b = (if (B(q \<mapsto> r)) b = None then 0 else 1)" for b
    using c [of b] assms(2) by (cases "b = q") simp_all
  then show "covered ({#q#} + M) (B(q \<mapsto> r))" unfolding covered_def by blast
qed

lemma c_strdup_ok:
  assumes "allocs_fresh E" "covered M B" "c_strdup E r B w = (q, w', B')"
  shows "covered (mset (filter (\<lambda>p. p \<noteq> 0) [q]) + M) B'" and "q = 0 \<or> B q = None"
proof -
  have m: "fst (c_malloc E (dom B) w) = q" "B' = (if q = 0 then B else B(q \<mapsto> r))"
    using assms(3) by (auto simp: c_strdup_def Let_def case_prod_unfold)
  have "fst (c_malloc E (dom B) w) = 0 \<or> fst (c_malloc E (dom B) w) \<notin> dom B" using assms(1) unfolding allocs_fresh_def by blast
  then show fresh: "q = 0 \<or> B q = None" unfolding m(1) by (simp add: domIff)
  show "covered (mset (filter (\<lambda>p. p \<noteq> 0) [q]) + M) B'"
    using fresh assms(2) covered_alloc [OF assms(2), of q r] by (cases "q = 0") (simp_all add: m(2))
qed

lemma create_ok:
  assumes lib: "allocs_fresh E" and ok: "procs_ok extra X" and conn: "conn = 0 \<or> heap (shim_of X) conn \<noteq> None"
  shows "returns (rust_stmt_create E conn sql shadow X) (\<lambda>(p, X'). hm_get (stmts X) p = None \<and> procs_ok (extra(p := Suc (extra p))) X' \<and> host_kept X X'
    \<and> forward X' = forward X \<and> tls_stmts X' = tls_stmts X \<and> finalized_ring X' = finalized_ring X
    \<and> (\<forall>q. q \<noteq> p \<longrightarrow> hm_get (stmts X') q = hm_get (stmts X) q) \<and> (\<exists>s. hm_get (stmts X') p = Some s \<and> stmt_conn s = conn \<and> stmt_pg_sql s = 0 \<and> stmt_refs s = 1))"
proof -
  note D = procs_okD [OF ok] and M = stmts_okD [OF procs_okD(1) [OF ok]]
  have h: "hold_with (stmts X) PgStmt_new = hold_of (stmts X)" by (rule hold_with_none) (simp_all add: PgStmt_new_def)
  obtain S where S: "set_conn conn PgStmt_new (shim_of X) = Some (PgStmt_new\<lparr>stmt_conn := conn\<rparr>, S)"
      "host_same (hold_with (stmts X) (PgStmt_new\<lparr>stmt_conn := conn\<rparr>)) (shim_of X) S"
    using returnsD [OF set_conn_ok(1) [of "stmts X" PgStmt_new "shim_of X" conn]] M(3,4) conn by (auto simp: h)
  obtain q w B where qB: "(case sql of None \<Rightarrow> (0, world S, c_heap X) | Some r \<Rightarrow> c_strdup E r (c_heap X) (world S)) = (q, w, B)" by (metis prod_cases3)
  have cov: "covered (mset (filter (\<lambda>p. p \<noteq> 0) [q]) + hm_sum owned_mset (stmts X)) B"
    using M(2) c_strdup_ok(1) [OF lib, of _ "c_heap X" _ "world S" q w B] qB by (cases sql) (auto simp: blocks_ok_def)
  obtain p w' where p: "box_new E (fst ` set (stmts X)) w = (p, w')" by (cases "box_new E (fst ` set (stmts X)) w")
  have "p \<noteq> 0" "p \<notin> fst ` set (stmts X)" using lib p unfolding allocs_fresh_def by (metis List.finite_set finite_imageI fst_conv)+
  then have fresh: "p \<noteq> 0" "hm_get (stmts X) p = None" by (simp_all add: hm_get_def map_of_eq_None_iff)
  let ?s = "PgStmt_new\<lparr>stmt_conn := conn, shadow_stmt := shadow, stmt_sql := q, stmt_refs := 1\<rparr>"
  let ?X = "put_stmt p ?s ((set_shim (S\<lparr>world := w'\<rparr>) X)\<lparr>c_heap := B\<rparr>)"
  have run: "rust_stmt_create E conn sql shadow X = Some (p, ?X)" using S(1) qB p by (simp add: rust_stmt_create_def)
  have acc0: "account extra X p = 0" using stmts_ok_none [OF D(1), of p] fresh by simp
  have "hold_with (stmts X) ?s = hold_with (stmts X) (PgStmt_new\<lparr>stmt_conn := conn\<rparr>)"
    by (rule ext) (simp add: hold_with_def stmt_uses_def)
  then have host: "host_same (hold_with (hm_remove p (stmts X)) ?s) (shim_of X) (shim_of ?X)"
    using S(2) by (simp add: hm_remove_none [OF fresh(2)])
  have own: "owned_mset ?s = mset (filter (\<lambda>p. p \<noteq> 0) [q])"
    by (simp add: owned_blocks_def PgStmt_new_def marked_params_def names_blocks_def)
  have blk: "covered (owned_mset ?s + hm_sum owned_mset (hm_remove p (stmts X))) (c_heap ?X)"
    using cov by (simp only: own hm_remove_none [OF fresh(2)]) simp
  have "shape_ok ?s" by (simp add: shape_ok_def PgStmt_new_def names_fit_def)
  then have "stmts_ok ((account extra X)(p := 1)) ?X \<and> stmt_rel {p} X ?X"
    by (intro stmts_ok_put [OF D(1) fresh(1) _ _ _ host blk]) (simp_all add: tables_same_def)
  moreover have "account (extra(p := Suc (extra p))) ?X = (account extra X)(p := 1)"
  proof
    fix r
    have "account (extra(p := Suc (extra p))) ?X r = account (extra(p := Suc (extra p))) X r" by (simp add: account_def reg_refs_def tls_refs_def)
    then show "account (extra(p := Suc (extra p))) ?X r = ((account extra X)(p := 1)) r" using acc0 by (auto simp: account_def)
  qed
  moreover have "tables_same X ?X" by (simp add: tables_same_def)
  ultimately have "procs_ok (extra(p := Suc (extra p))) ?X" "stmt_rel {p} X ?X"
    using procs_ok_stmt_rel [OF ok, of "extra(p := Suc (extra p))" ?X] D(5) by (auto simp: le_SucI)
  then show ?thesis using run fresh(2) by (simp add: stmt_rel_def PgStmt_new_def)
qed

section \<open>Registering\<close>

text \<open>The creator's reference becomes the registry's; what was registered there before loses its own.\<close>

definition register_extra :: "ptr \<Rightarrow> ptr \<Rightarrow> 'w statements \<Rightarrow> (ptr \<Rightarrow> nat) \<Rightarrow> ptr \<Rightarrow> nat" where
  "register_extra k p X extra q = extra q + of_bool (hm_get (forward X) k = Some q) - of_bool (q = p)"

lemma register_ok:
  assumes ok: "procs_ok extra X" and k: "k \<noteq> 0" "p \<noteq> 0" and free: "tls_refs X p < extra p"
  shows "procs_ok (register_extra k p X extra) (rust_stmt_register k p X)"
proof -
  note D = procs_okD [OF ok]
  let ?X = "rust_stmt_register k p X" and ?e = "register_extra k p X extra"
  have same: "stmt_host ?X = stmt_host X" "stmts ?X = stmts X" "c_heap ?X = c_heap X" "tls_stmts ?X = tls_stmts X" "hm_ok (forward ?X)"
    using D(2) by (simp_all add: rust_stmt_register_def registry_register_def Let_def)
  have "account ?e ?X = account extra X"
  proof
    fix q
    have "extra q + of_bool (hm_get (forward X) k = Some q) - of_bool (q = p) + of_bool (q = p) = extra q + of_bool (hm_get (forward X) k = Some q)"
      using free by (cases "q = p") auto
    then show "account ?e ?X q = account extra X q"
      using reg_refs_register [OF D(2) k, of q] by (simp add: account_def register_extra_def tls_refs_def same(4))
  qed
  moreover have "tls_refs ?X q \<le> ?e q" for q
    using D(5) [of q] free by (cases "q = p") (simp_all add: register_extra_def tls_refs_def same(4))
  ultimately show ?thesis
    using D(1,3,4) same reverse_ok_register [of X k p] stmts_ok_tables [OF same(1-3)] by (simp add: procs_ok_def)
qed

section \<open>The thread's cache\<close>

lemma stmts_alive: "procs_ok extra X \<Longrightarrow> hm_get (stmts X) p = Some s \<Longrightarrow> 0 < account extra X p"
  using stmts_ok_alive procs_okD(1) by blast

lemma tls_refs_append:
  "hm_ok (tls_stmts X) \<Longrightarrow> tls_refs (set_tls t (tls_of t X @ [(k, p)]) X) q = tls_refs X q + of_bool (p = q)"
  using tls_refs_set [of X t "tls_of t X @ [(k, p)]" q] by simp

lemma tls_refs_shift:
  assumes "hm_ok (tls_stmts X)" "0 < length (tls_of t X)"
  shows "tls_refs (set_tls t (remove_nth 0 (tls_of t X) @ [(k, p)]) X) q + of_bool (snd (tls_of t X ! 0) = q) = tls_refs X q + of_bool (p = q)"
  using tls_refs_set [OF assms(1), of t "remove_nth 0 (tls_of t X) @ [(k, p)]" q] count_remove_nth [OF assms(2), of snd q]
  by (cases "p = q"; cases "snd (tls_of t X ! 0) = q") simp_all

lemma tls_refs_update:
  assumes "hm_ok (tls_stmts X)" "i < length (tls_of t X)"
  shows "tls_refs (set_tls t ((tls_of t X)[i := (k, p)]) X) q + of_bool (snd (tls_of t X ! i) = q) = tls_refs X q + of_bool (p = q)"
  using tls_refs_set [OF assms(1), of t "(tls_of t X)[i := (k, p)]" q] count_list_update [of i "map snd (tls_of t X)" p q] assms(2)
  by (cases "p = q"; cases "snd (tls_of t X ! i) = q") (simp_all add: map_update)

text \<open>One entry of a thread's cache gives way to another: a reference each.\<close>

lemma account_move:
  assumes "forward X' = forward X" "\<And>q. tls_refs X' q + of_bool (old = q) = tls_refs X q + of_bool (p = q)" "old \<noteq> p" "0 < tls_refs X old"
  shows "account extra X' = (account extra X)(old := account extra X old - 1, p := account extra X p + 1)"
proof
  fix q
  show "account extra X' q = ((account extra X)(old := account extra X old - 1, p := account extra X p + 1)) q"
    using assms(1,3,4) assms(2) [of q] by (auto simp: account_def reg_refs_def)
qed

lemma procs_ok_tls:
  assumes ok: "procs_ok extra X" and rel: "tables_same X X2" and st: "stmts_ok (account extra X3) X2" and X3: "X3 = set_tls t es X2"
    and le: "\<And>q. tls_refs X3 q \<le> extra q"
  shows "procs_ok extra X3"
  using procs_okD [OF ok] rel st le by (simp add: procs_ok_def X3 tables_same_def reverse_ok_def)

lemma tls_set_same: "tables_same X X2 \<Longrightarrow> tls_refs (set_tls t es X2) = tls_refs (set_tls t es X)"
  by (simp add: tls_refs_def set_tls_def tables_same_def fun_eq_iff)

lemma tls_exchange:
  assumes fin: "streams_finite L" and ok: "procs_ok extra X" and s: "hm_get (stmts X) p = Some s" and fresh: "tls_refs X p = 0" "0 < extra p"
    and old: "0 < tls_refs X old" and move: "\<And>q. tls_refs (set_tls t es X) q + of_bool (old = q) = tls_refs X q + of_bool (p = q)"
  shows "returns (do { X1 \<leftarrow> rust_stmt_unref L old X; X2 \<leftarrow> rust_stmt_ref p X1; Some (set_tls t es X2) }) (\<lambda>X'. procs_ok extra X' \<and> host_kept X X' \<and> forward X' = forward X)"
    and "returns (do { X1 \<leftarrow> rust_stmt_ref p X; X2 \<leftarrow> rust_stmt_unref L old X1; Some (set_tls t es X2) }) (\<lambda>X'. procs_ok extra X' \<and> host_kept X X' \<and> forward X' = forward X)"
proof -
  note D = procs_okD [OF ok]
  let ?R = "account extra X"
  have neq: "old \<noteq> p" using old fresh(1) by auto
  have pos: "0 < ?R old" "0 < ?R p" using old fresh by (simp_all add: account_def)
  have fin_ok: "procs_ok extra (set_tls t es X2) \<and> host_kept X (set_tls t es X2) \<and> forward (set_tls t es X2) = forward X"
    if "tables_same X X2" "host_kept X X2" "stmts_ok (?R(old := ?R old - 1, p := ?R p + 1)) X2" for X2
  proof -
    let ?X3 = "set_tls t es X2"
    have f: "forward ?X3 = forward X" using that(1) by (simp add: tables_same_def)
    have m: "tls_refs ?X3 q + of_bool (old = q) = tls_refs X q + of_bool (p = q)" for q using move by (simp add: tls_set_same [OF that(1)])
    have acc: "account extra ?X3 = ?R(old := ?R old - 1, p := ?R p + 1)" by (rule account_move [OF f m neq old])
    have "tls_refs ?X3 q \<le> extra q" for q using m [of q] D(5) [of q] fresh by (cases "p = q") auto
    then have "procs_ok extra ?X3" using procs_ok_tls [OF ok that(1) _ refl] that(3) acc by simp
    with that(2) f show ?thesis by simp
  qed
  obtain X1 where X1: "rust_stmt_unref L old X = Some X1" "stmts_ok (?R(old := ?R old - 1)) X1" "stmt_rel {old} X X1"
    using returnsD [OF stmt_unref_ok [OF fin D(1) pos(1)]] by blast
  have pos2: "0 < (?R(old := ?R old - 1)) p" and val2: "(?R(old := ?R old - 1)) p = ?R p" using pos neq by simp_all
  obtain X2 where X2: "rust_stmt_ref p X1 = Some X2" "stmts_ok (?R(old := ?R old - 1, p := ?R p + 1)) X2" "stmt_rel {p} X1 X2"
    using returnsD [OF stmt_ref_ok [OF X1(2) pos2, unfolded val2]] by blast
  have "tables_same X X2" "host_kept X X2" using X1(3) X2(3) by (auto simp: stmt_rel_def tables_same_def elim: host_same_trans)
  from fin_ok [OF this X2(2)] X1(1) X2(1)
  show "returns (do { X1 \<leftarrow> rust_stmt_unref L old X; X2 \<leftarrow> rust_stmt_ref p X1; Some (set_tls t es X2) }) (\<lambda>X'. procs_ok extra X' \<and> host_kept X X' \<and> forward X' = forward X)"
    by simp
  obtain Y1 where Y1: "rust_stmt_ref p X = Some Y1" "stmts_ok (?R(p := ?R p + 1)) Y1" "stmt_rel {p} X Y1"
    using returnsD [OF stmt_ref_ok [OF D(1) pos(2)]] by blast
  have pos3: "0 < (?R(p := ?R p + 1)) old" and val3: "(?R(p := ?R p + 1)) old = ?R old" using pos neq by simp_all
  obtain Y2 where Y2: "rust_stmt_unref L old Y1 = Some Y2" "stmts_ok (?R(p := ?R p + 1, old := ?R old - 1)) Y2" "stmt_rel {old} Y1 Y2"
    using returnsD [OF stmt_unref_ok [OF fin Y1(2) pos3, unfolded val3]] by blast
  have "tables_same X Y2" "host_kept X Y2" using Y1(3) Y2(3) by (auto simp: stmt_rel_def tables_same_def elim: host_same_trans)
  from fin_ok [OF this] Y1(1) Y2(1,2) neq
  show "returns (do { X1 \<leftarrow> rust_stmt_ref p X; X2 \<leftarrow> rust_stmt_unref L old X1; Some (set_tls t es X2) }) (\<lambda>X'. procs_ok extra X' \<and> host_kept X X' \<and> forward X' = forward X)"
    by (simp add: fun_upd_twist)
qed

lemma tls_register_ok:
  assumes fin: "streams_finite L" and ok: "procs_ok extra X" and s: "hm_get (stmts X) p = Some s" and fresh: "tls_refs X p = 0" "0 < extra p"
  shows "returns (tls_register L t k p X) (\<lambda>X'. procs_ok extra X' \<and> host_kept X X' \<and> forward X' = forward X)"
proof (cases "tls_pos k (tls_of t X)")
  case (Some i)
  note D = procs_okD [OF ok]
  have len: "i < length (tls_of t X)" using tls_pos_Some [OF Some] by simp
  have old: "0 < tls_refs X (snd (tls_of t X ! i))" by (rule tls_entry_refs [OF D(3) len])
  then have "snd (tls_of t X ! i) \<noteq> p" using fresh(1) by auto
  then show ?thesis
    using tls_exchange(1) [OF fin ok s fresh old tls_refs_update [OF D(3) len]] Some by (simp add: tls_register_def Let_def)
next
  case None
  note D = procs_okD [OF ok]
  show ?thesis
  proof (cases "length (tls_of t X) < MAX_CACHED_STMTS_PER_THREAD")
    case False
    then have len: "0 < length (tls_of t X)" by (auto simp: MAX_CACHED_STMTS_PER_THREAD_def)
    show ?thesis
      using tls_exchange(2) [OF fin ok s fresh tls_entry_refs [OF D(3) len] tls_refs_shift [OF D(3) len]] None False
      by (simp add: tls_register_def Let_def)
  next
    case True
    have pos: "0 < account extra X p" using fresh by (simp add: account_def)
    obtain X1 where X1: "rust_stmt_ref p X = Some X1" "stmts_ok ((account extra X)(p := account extra X p + 1)) X1" "stmt_rel {p} X X1"
      using returnsD [OF stmt_ref_ok [OF D(1) pos]] by blast
    have tab: "tables_same X X1" using X1(3) by (simp add: stmt_rel_def)
    let ?X = "set_tls t (tls_of t X @ [(k, p)]) X1"
    have refs: "tls_refs ?X q = tls_refs X q + of_bool (p = q)" for q
      using tls_refs_append [OF D(3), of t k p q] by (simp add: tls_set_same [OF tab])
    have "account extra ?X = (account extra X)(p := account extra X p + 1)"
      using tab by (auto simp: account_def refs reg_refs_def tables_same_def fun_eq_iff)
    moreover have "tls_refs ?X q \<le> extra q" for q using refs [of q] D(5) [of q] fresh by (cases "p = q") auto
    ultimately have "procs_ok extra ?X" using procs_ok_tls [OF ok tab _ refl] X1(2) by simp
    then show ?thesis using None True X1(1,3) by (simp add: tls_register_def Let_def stmt_rel_def tables_same_def)
  qed
qed

section \<open>A statement put back\<close>

lemma put_in_place:
  assumes ok: "procs_ok extra X" and s: "hm_get (stmts X) p = Some s" and s': "stmt_refs s' = stmt_refs s" "shape_ok s'" "same_holds s s'"
    and blk: "covered (owned_mset s' + hm_sum owned_mset (hm_remove p (stmts X))) B"
  shows "procs_ok extra ((put_stmt p s' (set_shim ((shim_of X)\<lparr>world := w\<rparr>) X))\<lparr>c_heap := B\<rparr>)" (is "procs_ok _ ?X")
    and "stmt_rel {p} X ((put_stmt p s' (set_shim ((shim_of X)\<lparr>world := w\<rparr>) X))\<lparr>c_heap := B\<rparr>)"
proof -
  note D = procs_okD [OF ok] and M = stmts_okD [OF procs_okD(1) [OF ok]] and A = stmts_ok_alive [OF procs_okD(1) [OF ok] s]
  let ?m = "hm_remove p (stmts X)"
  have "host_same (hold_with ?m s') (shim_of X) (shim_of ?X)"
    using host_same_refl [OF M(3,4)] hold_of_get [OF M(1) s] hold_with_cong [OF s'(3), of ?m] by simp
  then have new: "stmts_ok ((account extra X)(p := account extra X p)) ?X \<and> stmt_rel {p} X ?X"
    using A s' blk by (intro stmts_ok_put [OF D(1)]) (simp_all add: tables_same_def)
  have "account extra ?X = account extra X" by (rule account_cong) simp_all
  then show "procs_ok extra ?X" "stmt_rel {p} X ?X"
    using new procs_ok_stmt_rel [OF ok, of extra ?X] D(5) by (auto simp: stmt_rel_def)
qed

lemma put_stmt_heap: "put_stmt p s (X\<lparr>c_heap := B\<rparr>) = (put_stmt p s X)\<lparr>c_heap := B\<rparr>"
  by (simp add: put_stmt_def)

end
