(* ===== verification/Stmt_Bind.thy ===== *)
theory Stmt_Bind
  imports Stmt_Sessions
begin

text \<open>
  SQLite's bind calls as the shim answers them (\<^verbatim>\<open>db_interpose_bind.rs\<close> and its modules
  \<^verbatim>\<open>support.rs\<close>, \<^verbatim>\<open>numeric_binds.rs\<close>, \<^verbatim>\<open>text_blob_binds.rs\<close>, \<^verbatim>\<open>value_binds.rs\<close>): the parameter a
  SQLite index stands for in the translation, the text PostgreSQL will be sent for the value,
  in the statement's own buffer or in a block of the C heap, and the answer given to the host.
  What is written to the log and counted by the telemetry is left out.
\<close>

definition SQLITE_MISUSE :: int where "SQLITE_MISUSE = 21"
definition SQLITE_RANGE :: int where "SQLITE_RANGE = 25"
definition SQLITE_INTEGER :: int where "SQLITE_INTEGER = 1"
definition SQLITE_FLOAT :: int where "SQLITE_FLOAT = 2"
definition SQLITE_TEXT :: int where "SQLITE_TEXT = 3"
definition SQLITE_BLOB :: int where "SQLITE_BLOB = 4"

section \<open>Bytes\<close>

text \<open>\<open>std::str::from_utf8\<close>: the length of a sequence by its first byte, and the bytes that may follow it.\<close>

definition is_continuation :: "char \<Rightarrow> bool" where
  "is_continuation c \<longleftrightarrow> 128 \<le> char_code c \<and> char_code c < 192"

definition utf8_follow :: "char \<Rightarrow> (nat \<times> nat \<times> nat) option" where
  "utf8_follow c =
     (let b = char_code c in
      if b < 128 then Some (0, 0, 0)
      else if b < 194 then None
      else if b < 224 then Some (1, 128, 191)
      else if b = 224 then Some (2, 160, 191)
      else if b = 237 then Some (2, 128, 159)
      else if b < 240 then Some (2, 128, 191)
      else if b = 240 then Some (3, 144, 191)
      else if b < 244 then Some (3, 128, 191)
      else if b = 244 then Some (3, 128, 143)
      else None)"

fun utf8_valid :: "string \<Rightarrow> bool" where
  "utf8_valid [] = True"
| "utf8_valid (c # cs) =
     (case utf8_follow c of
        None \<Rightarrow> False
      | Some (n, lo, hi) \<Rightarrow>
          n \<le> length cs \<and> (n = 0 \<or> lo \<le> char_code (hd cs) \<and> char_code (hd cs) \<le> hi)
          \<and> list_all is_continuation (take n cs) \<and> utf8_valid (drop n cs))"

definition contains_binary_bytes :: "string \<Rightarrow> bool" where
  "contains_binary_bytes data =
     (if data = [] then False
      else if 2 \<le> length data \<and> char_code (data ! 0) = 31 \<and> char_code (data ! 1) = 139 then True
      else if CHR 0x00 \<in> set data then True
      else \<not> utf8_valid data)"

definition hex_digit :: "nat \<Rightarrow> char" where
  "hex_digit n = ''0123456789abcdef'' ! n"

definition hex_byte :: "char \<Rightarrow> string" where
  "hex_byte c = [hex_digit (char_code c div 16), hex_digit (char_code c mod 16)]"

definition bytes_to_pg_hex :: "string \<Rightarrow> string" where
  "bytes_to_pg_hex data = (if data = [] then [] else CHR 0x5C # CHR ''x'' # concat (map hex_byte data))"

text \<open>
  The way back (\<open>rust_pg_decode_bytea\<close>): what is in hexadecimal is decoded, the rest is taken as
  it is. The decoder answers how many bytes it wrote, none when the text is not hexadecimal.
  The answer of \<open>pg_decode_bytea\<close> is \<^const>\<open>None\<close> for a failure, else the bytes and whether they
  were decoded; \<open>have_memory\<close> is whether the block for them can be had.
\<close>

definition hex_val :: "char \<Rightarrow> nat option" where
  "hex_val c =
     (let b = char_code c in
      if 48 \<le> b \<and> b \<le> 57 then Some (b - 48)
      else if 97 \<le> b \<and> b \<le> 102 then Some (b - 97 + 10)
      else if 65 \<le> b \<and> b \<le> 70 then Some (b - 65 + 10)
      else None)"

fun decode_pairs :: "string \<Rightarrow> string option" where
  "decode_pairs (a # b # cs) =
     do {
       hi \<leftarrow> hex_val a;
       lo \<leftarrow> hex_val b;
       ds \<leftarrow> decode_pairs cs;
       Some (char_of (16 * hi + lo) # ds)
     }"
| "decode_pairs _ = Some []"

definition rust_decode_hex_bytes :: "string \<Rightarrow> nat \<Rightarrow> nat \<times> string" where
  "rust_decode_hex_bytes hex out_len =
     (if hex = [] \<or> odd (length hex) then (0, [])
      else let expected = length hex div 2 in
        if out_len < expected then (0, [])
        else case decode_pairs hex of None \<Rightarrow> (0, []) | Some bs \<Rightarrow> (expected, bs))"

definition pg_decode_bytea :: "bool \<Rightarrow> string \<Rightarrow> (string \<times> bool) option" where
  "pg_decode_bytea have_memory bytes =
     (if length bytes < 2 \<or> bytes ! 0 \<noteq> CHR 0x5C \<or> bytes ! 1 \<noteq> CHR ''x'' then Some (bytes, False)
      else let hex = drop 2 bytes in
        if odd (length hex) then None
        else if \<not> have_memory then None
        else let (ok, bs) = rust_decode_hex_bytes hex (length hex div 2) in if ok = 0 then None else Some (bs, True))"

definition rust_env_truthy :: "string option \<Rightarrow> bool" where
  "rust_env_truthy v =
     (case v of None \<Rightarrow> False
      | Some s \<Rightarrow> utf8_valid s \<and> s \<noteq> [] \<and> hd s \<in> {CHR ''1'', CHR ''y'', CHR ''Y'', CHR ''t'', CHR ''T''})"

section \<open>The parameter an index stands for\<close>

text \<open>An element of an array of names, by its text; reading past the array is a fault.\<close>

definition name_at :: "ptr list \<Rightarrow> nat \<Rightarrow> 'w statements \<Rightarrow> string option option" where
  "name_at names i X = (if i < length names then c_text (names ! i) X else None)"

definition is_interposed_pg_stmt :: "ptr \<Rightarrow> 'w statements \<Rightarrow> bool option" where
  "is_interposed_pg_stmt p X = (if is_null p then Some False else do { s \<leftarrow> hm_get (stmts X) p; Some (is_pg s = 2) })"

definition bind_parameter_name_impl :: "'w stmt_lib \<Rightarrow> ptr \<Rightarrow> int \<Rightarrow> 'w statements \<Rightarrow> string option option" where
  "bind_parameter_name_impl E k idx X =
     (if is_null k then Some None
      else let p = rust_stmt_find k X in
        do {
          ours \<leftarrow> is_interposed_pg_stmt p X;
          if ours
          then do {
            s \<leftarrow> hm_get (stmts X) p;
            case param_names s of
              None \<Rightarrow> Some None
            | Some (_, names) \<Rightarrow> if 0 < idx \<and> idx \<le> param_count s then name_at names (nat (idx - 1)) X else Some None
          }
          else Some (case orig_parameter_name E of None \<Rightarrow> None | Some f \<Rightarrow> f k idx (world (shim_of X)))
        })"

text \<open>The loop over the first \<open>n\<close> names from the \<open>i\<close>th on, for one that is \<open>clean\<close>.\<close>

fun find_name :: "string \<Rightarrow> nat \<Rightarrow> nat \<Rightarrow> ptr list \<Rightarrow> 'w statements \<Rightarrow> int option" where
  "find_name clean i 0 names X = Some (-1)"
| "find_name clean i (Suc n) names X =
     do {
       cur \<leftarrow> name_at names i X;
       if cur = Some clean then Some (int i) else find_name clean (Suc i) n names X
     }"

definition pg_map_param_index :: "'w stmt_lib \<Rightarrow> ptr \<Rightarrow> ptr \<Rightarrow> int \<Rightarrow> 'w statements \<Rightarrow> int option" where
  "pg_map_param_index E p k sqlite_idx X =
     (if is_null p then Some (sqlite_idx - 1)
      else do {
        s \<leftarrow> hm_get (stmts X) p;
        case param_names s of
          None \<Rightarrow> Some (sqlite_idx - 1)
        | Some (_, names) \<Rightarrow>
            if param_count s \<le> 0 then Some (sqlite_idx - 1)
            else do {
              param_name \<leftarrow> (if is_pg s \<noteq> 0 \<and> is_cached s = 0 \<and> 0 < sqlite_idx \<and> sqlite_idx \<le> param_count s
                             then name_at names (nat (sqlite_idx - 1)) X
                             else bind_parameter_name_impl E k sqlite_idx X);
              case param_name of
                None \<Rightarrow> Some (sqlite_idx - 1)
              | Some name \<Rightarrow>
                  let clean_name = (case strip_prefix '':'' name of None \<Rightarrow> name | Some r \<Rightarrow> r)
                  in find_name clean_name 0 (nat (param_count s)) names X
            }
      })"

definition mapped_param_index :: "'w stmt_lib \<Rightarrow> ptr \<Rightarrow> ptr \<Rightarrow> int \<Rightarrow> 'w statements \<Rightarrow> nat option option" where
  "mapped_param_index E p k idx X =
     (if is_null p \<or> idx \<le> 0 then Some None
      else do {
        s \<leftarrow> hm_get (stmts X) p;
        let param_len = length (param_values s);
        if param_len = 0 then Some None
        else do {
          pg_idx \<leftarrow> pg_map_param_index E p k idx X;
          Some (if pg_idx < 0 \<or> int param_len \<le> pg_idx then None else Some (nat pg_idx))
        }
      })"

definition routed_bind_rc :: "'w stmt_lib \<Rightarrow> ptr \<Rightarrow> ptr \<Rightarrow> int \<Rightarrow> 'w statements \<Rightarrow> int option" where
  "routed_bind_rc E p k idx X =
     (if idx \<le> 0 then Some SQLITE_RANGE
      else do {
        m \<leftarrow> mapped_param_index E p k idx X;
        Some (case m of Some _ \<Rightarrow> SQLITE_OK | None \<Rightarrow> SQLITE_RANGE)
      })"

section \<open>Around every bind\<close>

definition bind_reset_disabled :: "'w statements \<Rightarrow> bool" where
  "bind_reset_disabled X = rust_env_truthy (env (shim_of X) ''PLEX_PG_DISABLE_BIND_RESET'')"

text \<open>The statement under a call, if there is one; \<open>sp\<close> below.\<close>

definition stmt_at :: "ptr \<Rightarrow> 'w statements \<Rightarrow> PgStmt option option" where
  "stmt_at p X = (if is_null p then Some None else map_option Some (hm_get (stmts X) p))"

definition should_reset_stmt :: "PgStmt option \<Rightarrow> 'w statements \<Rightarrow> bool" where
  "should_reset_stmt sp X =
     (if bind_reset_disabled X then False else case sp of None \<Rightarrow> False | Some s \<Rightarrow> is_pg s \<noteq> 0)"

definition is_pg_routed_noncached :: "PgStmt option \<Rightarrow> bool" where
  "is_pg_routed_noncached sp =
     (case sp of None \<Rightarrow> False | Some s \<Rightarrow> (is_pg s = 1 \<or> is_pg s = 2) \<and> is_cached s = 0)"

definition with_world :: "'w \<Rightarrow> 'w statements \<Rightarrow> 'w statements" where
  "with_world w X = set_shim ((shim_of X)\<lparr>world := w\<rparr>) X"

abbreviation world_of :: "'w statements \<Rightarrow> 'w" where
  "world_of X \<equiv> world (shim_of X)"

text \<open>\<open>SQLITE_STATIC\<close> is null and \<open>SQLITE_TRANSIENT\<close> is all ones.\<close>

definition invoke_destructor_if_custom :: "'w stmt_lib \<Rightarrow> bind_src \<Rightarrow> ptr \<Rightarrow> 'w statements \<Rightarrow> 'w statements" where
  "invoke_destructor_if_custom E val destructor X =
     (if is_null destructor \<or> destructor = 2 ^ 64 - 1 then X else with_world (run_destructor E destructor val (world_of X)) X)"

definition ensure_stmt_not_busy :: "'w stmt_lib \<Rightarrow> ptr \<Rightarrow> PgStmt option \<Rightarrow> 'w statements \<Rightarrow> 'w statements" where
  "ensure_stmt_not_busy E k sp X =
     (if should_reset_stmt sp X \<and> \<not> is_pg_routed_noncached sp then snd (call_orig (orig_reset E) k X) else X)"

definition wait_for_stmt_ready :: "'w stmt_lib \<Rightarrow> ptr \<Rightarrow> PgStmt option \<Rightarrow> 'w statements \<Rightarrow> 'w statements" where
  "wait_for_stmt_ready E k sp X =
     (let X = (if should_reset_stmt sp X \<and> \<not> is_pg_routed_noncached sp then snd (call_orig (orig_reset E) k X) else X)
      in with_world (bind_pause E (world_of X)) X)"

definition clear_metadata_result_if_needed :: "PgStmt \<Rightarrow> PgStmt" where
  "clear_metadata_result_if_needed s =
     (if metadata_only_result s \<noteq> 0 \<and> \<not> is_null (stmt_result s) then s\<lparr>metadata_only_result := 2\<rparr> else s)"

definition begin_bind :: "'w stmt_lib \<Rightarrow> tid \<Rightarrow> ptr \<Rightarrow> 'w statements \<Rightarrow> (ptr \<times> PgStmt option \<times> 'w statements) option" where
  "begin_bind E t k X =
     (let p = rust_stmt_find_any t k X in
      do {
        sp \<leftarrow> stmt_at p X;
        let sp = map_option clear_metadata_result_if_needed sp;
        let X = (case sp of None \<Rightarrow> X | Some s \<Rightarrow> put_stmt p s X);
        Some (p, sp, ensure_stmt_not_busy E k sp X)
      })"

text \<open>SQLite's own bind, and again while it answers \<open>SQLITE_MISUSE\<close>, three times at most.\<close>

definition call_bind :: "'w stmt_lib \<Rightarrow> bind_arg \<Rightarrow> ptr \<Rightarrow> int \<Rightarrow> 'w statements \<Rightarrow> int \<times> 'w statements" where
  "call_bind E a k idx X = call_orig (map_option (\<lambda>f k. f k idx) (orig_bind E a)) k X"

fun retry_bind :: "nat \<Rightarrow> 'w stmt_lib \<Rightarrow> bind_arg \<Rightarrow> ptr \<Rightarrow> int \<Rightarrow> PgStmt option \<Rightarrow> int \<times> 'w statements \<Rightarrow> int \<times> 'w statements" where
  "retry_bind 0 E a k idx sp (rc, X) = (rc, X)"
| "retry_bind (Suc n) E a k idx sp (rc, X) =
     (let (rc, X) = call_bind E a k idx (wait_for_stmt_ready E k sp X) in
      if rc = SQLITE_OK then (rc, X) else if rc \<noteq> SQLITE_MISUSE then (rc, X) else retry_bind n E a k idx sp (rc, X))"

definition retry_on_misuse :: "'w stmt_lib \<Rightarrow> bind_arg \<Rightarrow> ptr \<Rightarrow> int \<Rightarrow> PgStmt option \<Rightarrow> int \<times> 'w statements \<Rightarrow> int \<times> 'w statements" where
  "retry_on_misuse E a k idx sp r =
     (let (rc, X) = r in
      if rc \<noteq> SQLITE_MISUSE then (rc, X)
      else if is_pg_routed_noncached sp then (SQLITE_OK, X)
      else retry_bind 3 E a k idx sp (rc, X))"

text \<open>
  The answer of a bind, the same in all of them: a routed statement is not bound in SQLite, but
  a value with a destructor is disposed of for it.
\<close>

definition bind_answer ::
  "'w stmt_lib \<Rightarrow> bind_arg \<Rightarrow> ('w statements \<Rightarrow> 'w statements) \<Rightarrow> ptr \<Rightarrow> PgStmt option \<Rightarrow> ptr \<Rightarrow> int \<Rightarrow> 'w statements \<Rightarrow> (int \<times> 'w statements) option" where
  "bind_answer E a dispose p sp k idx X =
     (if is_pg_routed_noncached sp
      then let X = dispose X in do { rc \<leftarrow> routed_bind_rc E p k idx X; Some (rc, X) }
      else Some (retry_on_misuse E a k idx sp (call_bind E a k idx X)))"

section \<open>Storing a value\<close>

definition clear_param_value :: "nat \<Rightarrow> PgStmt \<Rightarrow> c_blocks \<Rightarrow> (PgStmt \<times> c_blocks) option" where
  "clear_param_value i s B =
     (if length (param_values s) \<le> i then Some (s, B)
      else do {
        B \<leftarrow> (if \<not> is_null (param_values s ! i) \<and> \<not> is_preallocated_buffer s i then c_free (param_values s ! i) B else Some B);
        Some (s\<lparr>param_values := (param_values s)[i := 0], param_lengths := (param_lengths s)[i := 0],
                param_formats := (param_formats s)[i := 0]\<rparr>, B)
      })"

text \<open>An element of a \<open>Vec\<close> written by index; out of range is a panic.\<close>

definition vec_set :: "nat \<Rightarrow> 'a \<Rightarrow> 'a list \<Rightarrow> 'a list option" where
  "vec_set i x xs = (if i < length xs then Some (xs[i := x]) else None)"

definition set_param :: "nat \<Rightarrow> ptr \<Rightarrow> PgStmt \<Rightarrow> PgStmt option" where
  "set_param i q s = do { vs \<leftarrow> vec_set i q (param_values s); Some (s\<lparr>param_values := vs\<rparr>) }"

type_synonym 'w store = "nat \<Rightarrow> PgStmt \<Rightarrow> c_blocks \<Rightarrow> 'w \<Rightarrow> (PgStmt \<times> c_blocks \<times> 'w) option"

text \<open>\<open>snprintf\<close> into the parameter's own buffer.\<close>

definition store_number :: "string \<Rightarrow> 'w store" where
  "store_number r i s B w =
     do {
       (s, B) \<leftarrow> clear_param_value i s B;
       if i < length (param_buffers s)
       then do {
         let b = param_buffers s ! i;
         let B = B(b \<mapsto> take (PARAM_BUF_LEN - 1) r);
         s \<leftarrow> set_param i b s;
         Some (s, B, w)
       }
       else None
     }"

text \<open>A block of the heap with the text, or null when there is no memory.\<close>

definition store_copy :: "'w stmt_lib \<Rightarrow> string \<Rightarrow> 'w store" where
  "store_copy E r i s B w = (let (q, w, B) = c_strdup E r B w in do { s \<leftarrow> set_param i q s; Some (s, B, w) })"

definition src_bytes :: "'w stmt_lib \<Rightarrow> bind_src \<Rightarrow> nat \<Rightarrow> 'w \<Rightarrow> string option" where
  "src_bytes E src n w =
     (if n = 0 then Some []
      else case src of Host p \<Rightarrow> host_bytes E p n w | Own r \<Rightarrow> if n \<le> length r then Some (take n r) else None)"

definition src_text :: "'w stmt_lib \<Rightarrow> bind_src \<Rightarrow> 'w \<Rightarrow> string option" where
  "src_text E src w = (case src of Host p \<Rightarrow> host_text E p w | Own r \<Rightarrow> None)"

definition store_text_param :: "'w stmt_lib \<Rightarrow> bind_src \<Rightarrow> nat \<Rightarrow> bool \<Rightarrow> 'w store" where
  "store_text_param E val actual_len duplicate_input i s B w =
     do {
       (s, B) \<leftarrow> clear_param_value i s B;
       data \<leftarrow> src_bytes E val actual_len w;
       if contains_binary_bytes data then store_copy E (bytes_to_pg_hex data) i s B w
       else if duplicate_input then do { r \<leftarrow> src_text E val w; store_copy E r i s B w }
       else store_copy E data i s B w
     }"

definition store_blob_hex_param :: "'w stmt_lib \<Rightarrow> ptr \<Rightarrow> nat \<Rightarrow> 'w store" where
  "store_blob_hex_param E val n_bytes i s B w =
     do {
       (s, B) \<leftarrow> clear_param_value i s B;
       data \<leftarrow> src_bytes E (Host val) n_bytes w;
       (s, B, w) \<leftarrow> store_copy E (bytes_to_pg_hex data) i s B w;
       ls \<leftarrow> vec_set i 0 (param_lengths s);
       fs \<leftarrow> vec_set i 0 (param_formats s);
       Some (s\<lparr>param_lengths := ls, param_formats := fs\<rparr>, B, w)
     }"

text \<open>What SQLite's accessors answer for a value (\<open>rust_my_sqlite3_value_type\<close> and the others).\<close>

record sqlite3_value =
  value_type :: int
  value_int64 :: int
  value_double :: u64
  value_text :: ptr
  value_bytes :: int
  value_blob :: ptr

definition store_sqlite_value_param :: "'w stmt_lib \<Rightarrow> sqlite3_value \<Rightarrow> 'w store" where
  "store_sqlite_value_param E v i s B w =
     do {
       (s, B) \<leftarrow> clear_param_value i s B;
       if value_type v = SQLITE_INTEGER then store_copy E (take 31 (show_int (value_int64 v))) i s B w
       else if value_type v = SQLITE_FLOAT then store_copy E (take 63 (format_g17 E (value_double v))) i s B w
       else if value_type v = SQLITE_TEXT
       then if is_null (value_text v) then Some (s, B, w)
            else do { r \<leftarrow> host_text E (value_text v) w; store_copy E r i s B w }
       else if value_type v = SQLITE_BLOB
       then if is_null (value_blob v) \<or> value_bytes v \<le> 0 then Some (s, B, w)
            else do {
              data \<leftarrow> host_bytes E (value_blob v) (nat (value_bytes v)) w;
              (s, B, w) \<leftarrow> store_copy E data i s B w;
              ls \<leftarrow> vec_set i (value_bytes v) (param_lengths s);
              fs \<leftarrow> vec_set i 1 (param_formats s);
              Some (s\<lparr>param_lengths := ls, param_formats := fs\<rparr>, B, w)
            }
       else Some (s, B, w)
     }"

definition store_null :: "'w store" where
  "store_null i s B w = do { (s, B) \<leftarrow> clear_param_value i s B; Some (s, B, w) }"

text \<open>The end of every bind: the parameter the index stands for, if there is one, gets the value.\<close>

definition store_param :: "'w stmt_lib \<Rightarrow> ptr \<Rightarrow> ptr \<Rightarrow> int \<Rightarrow> 'w store \<Rightarrow> 'w statements \<Rightarrow> 'w statements option" where
  "store_param E p k idx store X =
     do {
       m \<leftarrow> mapped_param_index E p k idx X;
       case m of
         None \<Rightarrow> Some X
       | Some i \<Rightarrow>
           do {
             s \<leftarrow> hm_get (stmts X) p;
             (s, B, w) \<leftarrow> store i s (c_heap X) (world_of X);
             Some ((put_stmt p s (with_world w X))\<lparr>c_heap := B\<rparr>)
           }
     }"

section \<open>The server's own identifier\<close>

text \<open>\<open>str::find\<close>, and a slice of a string, which panics off a character's boundary.\<close>

fun str_find :: "string \<Rightarrow> string \<Rightarrow> nat option" where
  "str_find needle [] = (if needle = [] then Some 0 else None)"
| "str_find needle (c # cs) = (if starts_with needle (c # cs) then Some 0 else map_option Suc (str_find needle cs))"

definition is_char_boundary :: "string \<Rightarrow> nat \<Rightarrow> bool" where
  "is_char_boundary s i \<longleftrightarrow> i \<le> length s \<and> (i = 0 \<or> i = length s \<or> \<not> is_continuation (s ! i))"

definition str_slice :: "string \<Rightarrow> nat \<Rightarrow> nat \<Rightarrow> string option" where
  "str_slice s a b = (if a \<le> b \<and> is_char_boundary s a \<and> is_char_boundary s b then Some (take (b - a) (drop a s)) else None)"

definition machine_identifier_key :: string where
  "machine_identifier_key = ''MachineIdentifier='' @ [CHR 0x22]"

definition parse_machine_identifier :: "string \<Rightarrow> string option option" where
  "parse_machine_identifier content =
     (case str_find machine_identifier_key content of
        None \<Rightarrow> Some None
      | Some pos \<Rightarrow>
          let start = pos + length machine_identifier_key in
          case str_find [CHR 0x22] (drop start content) of
            None \<Rightarrow> Some None
          | Some n \<Rightarrow>
              let hex = take n (drop start content) in
              if length hex = 32
              then do {
                a \<leftarrow> str_slice hex 0 8;
                b \<leftarrow> str_slice hex 8 12;
                c \<leftarrow> str_slice hex 12 16;
                d \<leftarrow> str_slice hex 16 20;
                e \<leftarrow> str_slice hex 20 32;
                Some (Some (a @ ''-'' @ b @ ''-'' @ c @ ''-'' @ d @ ''-'' @ e))
              }
              else Some None)"

definition get_machine_identifier :: "'w stmt_lib \<Rightarrow> 'w \<Rightarrow> string option" where
  "get_machine_identifier E w =
     (let default_uuid = ''53cfd87b-f8b2-4db2-af2d-6aaa373b2b34'' in
      case preferences E w of
        None \<Rightarrow> Some default_uuid
      | Some content \<Rightarrow> do { r \<leftarrow> parse_machine_identifier content; Some (case r of None \<Rightarrow> default_uuid | Some u \<Rightarrow> u) })"

text \<open>
  An empty text bound to the identifier of a device is replaced. The answer is the replacement,
  if there is to be one. (The lower case of these words has no other letters in it, so that
  lower case by ASCII finds them where \<open>to_lowercase\<close> does.)
\<close>

definition is_identifier_param :: "string option \<Rightarrow> string option \<Rightarrow> int \<Rightarrow> bool" where
  "is_identifier_param param_name sql idx =
     (case param_name of
        Some name \<Rightarrow> str_contains ''identifier'' (to_ascii_lowercase name)
      | None \<Rightarrow>
          let sql_str = (case sql of None \<Rightarrow> [] | Some r \<Rightarrow> to_ascii_lowercase r)
          in str_contains ''where identifier'' sql_str \<or> str_contains ''select'' sql_str \<and> idx = 1)"

definition intercept_uuid :: "'w stmt_lib \<Rightarrow> PgStmt option \<Rightarrow> ptr \<Rightarrow> int \<Rightarrow> ptr \<Rightarrow> nat option \<Rightarrow> 'w statements \<Rightarrow> string option option" where
  "intercept_uuid E sp k idx val n_bytes X =
     (case sp of
        None \<Rightarrow> Some None
      | Some s \<Rightarrow>
          if is_null val then Some None
          else do {
            sql \<leftarrow> c_text (stmt_sql s) X;
            let bypass = (case env (shim_of X) ''BYPASS_UUID_INTERCEPT'' of None \<Rightarrow> False | Some v \<Rightarrow> utf8_valid v);
            if \<not> bypass \<and> (case sql of None \<Rightarrow> False | Some r \<Rightarrow> str_contains ''devices'' r)
            then do {
              actual_len \<leftarrow> (case n_bytes of None \<Rightarrow> map_option length (host_text E val (world_of X)) | Some n \<Rightarrow> Some n);
              if actual_len = 0
              then do {
                param_name \<leftarrow> bind_parameter_name_impl E k idx X;
                if is_identifier_param param_name sql idx then map_option Some (get_machine_identifier E (world_of X)) else Some None
              }
              else Some None
            }
            else Some None
          })"

section \<open>The bind calls\<close>

definition bind_int_impl :: "'w stmt_lib \<Rightarrow> tid \<Rightarrow> ptr \<Rightarrow> int \<Rightarrow> int \<Rightarrow> 'w statements \<Rightarrow> (int \<times> 'w statements) option" where
  "bind_int_impl E t k idx val X =
     do {
       (p, sp, X) \<leftarrow> begin_bind E t k X;
       (rc, X) \<leftarrow> bind_answer E (BindInt val) id p sp k idx X;
       X \<leftarrow> store_param E p k idx (store_number (show_int val)) X;
       Some (rc, X)
     }"

definition bind_int64_impl :: "'w stmt_lib \<Rightarrow> tid \<Rightarrow> ptr \<Rightarrow> int \<Rightarrow> int \<Rightarrow> 'w statements \<Rightarrow> (int \<times> 'w statements) option" where
  "bind_int64_impl E t k idx val X =
     do {
       (p, sp, X) \<leftarrow> begin_bind E t k X;
       (rc, X) \<leftarrow> bind_answer E (BindInt64 val) id p sp k idx X;
       X \<leftarrow> store_param E p k idx (store_number (show_int val)) X;
       Some (rc, X)
     }"

definition bind_double_impl :: "'w stmt_lib \<Rightarrow> tid \<Rightarrow> ptr \<Rightarrow> int \<Rightarrow> u64 \<Rightarrow> 'w statements \<Rightarrow> (int \<times> 'w statements) option" where
  "bind_double_impl E t k idx val X =
     do {
       (p, sp, X) \<leftarrow> begin_bind E t k X;
       (rc, X) \<leftarrow> bind_answer E (BindDouble val) id p sp k idx X;
       X \<leftarrow> store_param E p k idx (store_number (format_g17 E val)) X;
       Some (rc, X)
     }"

text \<open>A null pointer binds null.\<close>

definition store_text :: "'w stmt_lib \<Rightarrow> bind_src \<Rightarrow> nat option \<Rightarrow> 'w store" where
  "store_text E val n_bytes i s B w =
     (if val = Host 0 then store_null i s B w
      else do {
        actual_len \<leftarrow> (case n_bytes of None \<Rightarrow> map_option length (src_text E val w) | Some n \<Rightarrow> Some n);
        store_text_param E val actual_len (n_bytes = None) i s B w
      })"

text \<open>What the log is given of a text bound in a statement on one of three tables: it is read for it.\<close>

definition log_bind_text :: "'w stmt_lib \<Rightarrow> PgStmt option \<Rightarrow> bind_src \<Rightarrow> nat option \<Rightarrow> 'w statements \<Rightarrow> string option" where
  "log_bind_text E sp val n_bytes X =
     (case sp of
        None \<Rightarrow> Some []
      | Some s \<Rightarrow>
          do {
            sql \<leftarrow> c_text (stmt_sql s) X;
            let sql = (case sql of None \<Rightarrow> [] | Some r \<Rightarrow> r);
            if str_contains ''devices'' sql \<or> str_contains ''library_sections'' sql \<or> str_contains ''plugins'' sql
            then if val = Host 0 then Some ''NULL''
                 else do {
                   actual_len \<leftarrow> (case n_bytes of None \<Rightarrow> map_option length (src_text E val (world_of X)) | Some n \<Rightarrow> Some n);
                   src_bytes E val (min actual_len 100) (world_of X)
                 }
            else Some []
          })"

definition dispose_of :: "'w stmt_lib \<Rightarrow> bind_src \<Rightarrow> ptr \<Rightarrow> 'w statements \<Rightarrow> 'w statements" where
  "dispose_of E val destructor X = (if val = Host 0 then X else invoke_destructor_if_custom E val destructor X)"

definition text_len :: "int \<Rightarrow> nat option" where
  "text_len n_bytes = (if n_bytes < 0 then None else Some (nat n_bytes))"

definition text_len64 :: "u64 \<Rightarrow> nat option" where
  "text_len64 n_bytes = (if n_bytes = -1 then None else Some (unat n_bytes))"

definition bind_text_impl ::
  "'w stmt_lib \<Rightarrow> tid \<Rightarrow> ptr \<Rightarrow> int \<Rightarrow> ptr \<Rightarrow> int \<Rightarrow> ptr \<Rightarrow> 'w statements \<Rightarrow> (int \<times> 'w statements) option" where
  "bind_text_impl E t k idx val n_bytes destructor X =
     do {
       (p, sp, X) \<leftarrow> begin_bind E t k X;
       uuid \<leftarrow> intercept_uuid E sp k idx val (text_len n_bytes) X;
       let (src, n_bytes) = (case uuid of None \<Rightarrow> (Host val, n_bytes) | Some u \<Rightarrow> (Own u, int (length u)));
       _ \<leftarrow> log_bind_text E sp src (text_len n_bytes) X;
       (rc, X) \<leftarrow> bind_answer E (BindText src n_bytes destructor) (dispose_of E src destructor) p sp k idx X;
       X \<leftarrow> store_param E p k idx (store_text E src (text_len n_bytes)) X;
       Some (rc, X)
     }"

definition bind_text64_impl ::
  "'w stmt_lib \<Rightarrow> tid \<Rightarrow> ptr \<Rightarrow> int \<Rightarrow> ptr \<Rightarrow> u64 \<Rightarrow> ptr \<Rightarrow> nat \<Rightarrow> 'w statements \<Rightarrow> (int \<times> 'w statements) option" where
  "bind_text64_impl E t k idx val n_bytes destructor encoding X =
     do {
       (p, sp, X) \<leftarrow> begin_bind E t k X;
       uuid \<leftarrow> intercept_uuid E sp k idx val (text_len64 n_bytes) X;
       let (src, n_bytes) = (case uuid of None \<Rightarrow> (Host val, n_bytes) | Some u \<Rightarrow> (Own u, of_nat (length u)));
       (rc, X) \<leftarrow> bind_answer E (BindText64 src n_bytes destructor encoding) (dispose_of E src destructor) p sp k idx X;
       X \<leftarrow> store_param E p k idx (store_text E src (text_len64 n_bytes)) X;
       Some (rc, X)
     }"

text \<open>\<open>n_bytes as usize\<close>: a negative length wraps.\<close>

definition as_usize :: "int \<Rightarrow> nat" where
  "as_usize n = nat (n mod 2 ^ 64)"

definition store_blob :: "'w stmt_lib \<Rightarrow> ptr \<Rightarrow> nat \<Rightarrow> 'w store" where
  "store_blob E val n_bytes = (if is_null val then store_null else store_blob_hex_param E val n_bytes)"

definition bind_blob_impl ::
  "'w stmt_lib \<Rightarrow> tid \<Rightarrow> ptr \<Rightarrow> int \<Rightarrow> ptr \<Rightarrow> int \<Rightarrow> ptr \<Rightarrow> 'w statements \<Rightarrow> (int \<times> 'w statements) option" where
  "bind_blob_impl E t k idx val n_bytes destructor X =
     do {
       (p, sp, X) \<leftarrow> begin_bind E t k X;
       (rc, X) \<leftarrow> bind_answer E (BindBlob val n_bytes destructor) (dispose_of E (Host val) destructor) p sp k idx X;
       X \<leftarrow> store_param E p k idx (store_blob E val (as_usize n_bytes)) X;
       Some (rc, X)
     }"

definition bind_blob64_impl ::
  "'w stmt_lib \<Rightarrow> tid \<Rightarrow> ptr \<Rightarrow> int \<Rightarrow> ptr \<Rightarrow> u64 \<Rightarrow> ptr \<Rightarrow> 'w statements \<Rightarrow> (int \<times> 'w statements) option" where
  "bind_blob64_impl E t k idx val n_bytes destructor X =
     do {
       (p, sp, X) \<leftarrow> begin_bind E t k X;
       (rc, X) \<leftarrow> bind_answer E (BindBlob64 val n_bytes destructor) (dispose_of E (Host val) destructor) p sp k idx X;
       X \<leftarrow> store_param E p k idx (store_blob E val (unat n_bytes)) X;
       Some (rc, X)
     }"

definition bind_value_impl ::
  "'w stmt_lib \<Rightarrow> tid \<Rightarrow> ptr \<Rightarrow> int \<Rightarrow> ptr \<Rightarrow> sqlite3_value \<Rightarrow> 'w statements \<Rightarrow> (int \<times> 'w statements) option" where
  "bind_value_impl E t k idx p_value v X =
     do {
       (p, sp, X) \<leftarrow> begin_bind E t k X;
       (rc, X) \<leftarrow> bind_answer E (BindValue p_value) id p sp k idx X;
       X \<leftarrow> (if is_null p_value then Some X else store_param E p k idx (store_sqlite_value_param E v) X);
       Some (rc, X)
     }"

definition bind_null_impl :: "'w stmt_lib \<Rightarrow> tid \<Rightarrow> ptr \<Rightarrow> int \<Rightarrow> 'w statements \<Rightarrow> (int \<times> 'w statements) option" where
  "bind_null_impl E t k idx X =
     do {
       (p, sp, X) \<leftarrow> begin_bind E t k X;
       (rc, X) \<leftarrow> bind_answer E BindNull id p sp k idx X;
       X \<leftarrow> store_param E p k idx store_null X;
       Some (rc, X)
     }"

text \<open>The nine entry points (\<open>rust_my_sqlite3_bind_int\<close> and the others) as one, by what they are called with.\<close>

datatype bind_request =
    RInt int | RInt64 int | RDouble u64 | RText ptr int ptr | RText64 ptr u64 ptr nat
  | RBlob ptr int ptr | RBlob64 ptr u64 ptr | RValue ptr sqlite3_value | RNull

fun sqlite3_bind :: "'w stmt_lib \<Rightarrow> tid \<Rightarrow> ptr \<Rightarrow> int \<Rightarrow> bind_request \<Rightarrow> 'w statements \<Rightarrow> (int \<times> 'w statements) option" where
  "sqlite3_bind E t k idx (RInt v) X = bind_int_impl E t k idx v X"
| "sqlite3_bind E t k idx (RInt64 v) X = bind_int64_impl E t k idx v X"
| "sqlite3_bind E t k idx (RDouble v) X = bind_double_impl E t k idx v X"
| "sqlite3_bind E t k idx (RText v n d) X = bind_text_impl E t k idx v n d X"
| "sqlite3_bind E t k idx (RText64 v n d enc) X = bind_text64_impl E t k idx v n d enc X"
| "sqlite3_bind E t k idx (RBlob v n d) X = bind_blob_impl E t k idx v n d X"
| "sqlite3_bind E t k idx (RBlob64 v n d) X = bind_blob64_impl E t k idx v n d X"
| "sqlite3_bind E t k idx (RValue v a) X = bind_value_impl E t k idx v a X"
| "sqlite3_bind E t k idx RNull X = bind_null_impl E t k idx X"

end
