(* ===== verification/Bind_Memory.thy ===== *)
theory Bind_Memory
  imports Stmt_Bind
begin

text \<open>
  The memory of a statement's parameters. Each parameter has a territory: its own buffer and
  the block of the heap it points to, if any. Territories of different parameters are apart, so
  that a bind frees and writes nothing but its own parameter's.
\<close>

section \<open>Territories\<close>

abbreviation nonnull :: "ptr list \<Rightarrow> ptr multiset" where
  "nonnull ps \<equiv> mset (filter (\<lambda>p. p \<noteq> 0) ps)"

definition param_slot :: "PgStmt \<Rightarrow> nat \<Rightarrow> ptr" where
  "param_slot s i = (if is_preallocated_buffer s i then 0 else param_values s ! i)"

definition territory :: "PgStmt \<Rightarrow> nat \<Rightarrow> ptr set" where
  "territory s i = ({param_slot s i} - {0}) \<union> {param_buffers s ! i..<param_buffers s ! i + PARAM_BUF_LEN}"

lemma nonnull_unmarked:
  "filter (\<lambda>p. p \<noteq> 0) (map snd (filter (\<lambda>(keep, p). \<not> keep) (map (\<lambda>i. (P i, v i)) xs))) = filter (\<lambda>p. p \<noteq> 0) (map (\<lambda>i. if P i then 0 else v i) xs)"
  by (induction xs) auto

lemma heap_params_slots: "filter (\<lambda>p. p \<noteq> 0) (heap_params s) = filter (\<lambda>p. p \<noteq> 0) (map (param_slot s) [0..<length (param_values s)])"
  unfolding marked_params_def nonnull_unmarked param_slot_def [abs_def] ..

lemma owned_slots:
  "owned_mset s = nonnull (map (param_slot s) [0..<length (param_values s)]) + nonnull (buffer_cells s) + nonnull (lasting_blocks s @ result_blocks s)"
  unfolding owned_blocks_def filter_append heap_params_slots mset_append by (simp only: ac_simps)

lemma covered_distinct: "covered (nonnull ps + M) B \<Longrightarrow> distinct (filter (\<lambda>p. p \<noteq> 0) ps)"
  using covered_free(1) by (auto simp: freeable_def)

lemma covered_dom: "covered (nonnull ps + M) B \<Longrightarrow> p \<in> set ps \<Longrightarrow> p \<noteq> 0 \<Longrightarrow> B p \<noteq> None"
  using covered_free(1) [of ps M B] by (auto simp: freeable_def)

lemma nonnull_cells: "0 \<notin> set bs \<Longrightarrow> filter (\<lambda>p. p \<noteq> 0) (concat (map (\<lambda>b. [b..<b + PARAM_BUF_LEN]) bs)) = concat (map (\<lambda>b. [b..<b + PARAM_BUF_LEN]) bs)"
  by (auto simp: filter_id_conv) (metis gr0I le_zero_eq)

lemma value_in_territory: "param_values s ! j \<noteq> 0 \<Longrightarrow> param_values s ! j \<in> territory s j"
  by (auto simp: territory_def param_slot_def is_preallocated_buffer_def)

lemma slot_in:
  assumes "i < length (param_values s)" "param_slot s i \<noteq> 0"
  shows "param_slot s i \<in> set (filter (\<lambda>p. p \<noteq> 0) (map (param_slot s) [0..<length (param_values s)]))"
  using assms by auto

lemma cell_in:
  assumes "i < length (param_buffers s)" "a \<in> {param_buffers s ! i..<param_buffers s ! i + PARAM_BUF_LEN}"
  shows "a \<in> set (buffer_cells s)"
  using assms nth_mem by fastforce

lemma distinct_concat_apart:
  assumes "distinct (concat xss)" "i < length xss" "j < length xss" "i \<noteq> j"
  shows "set (xss ! i) \<inter> set (xss ! j) = {}"
  using assms
proof (induction xss arbitrary: i j)
  case (Cons xs xss)
  have apart: "set xs \<inter> set (xss ! n) = {}" if "n < length xss" for n using Cons.prems(1) nth_mem [OF that] by auto
  show ?case
  proof (cases i; cases j)
    fix a b assume "i = Suc a" "j = Suc b"
    then show ?thesis using Cons by simp
  qed (use Cons.prems apart in auto)
qed simp

lemma distinct_filter_apart:
  assumes "distinct (filter P xs)" "i < length xs" "j < length xs" "i \<noteq> j" "P (xs ! i)"
  shows "xs ! i \<noteq> xs ! j"
proof
  assume eq: "xs ! i = xs ! j"
  have two: "a < b \<Longrightarrow> b < length xs \<Longrightarrow> xs ! a = xs ! b \<Longrightarrow> P (xs ! a) \<Longrightarrow> \<not> distinct (filter P xs)" for a b
  proof -
    assume ab: "a < b" "b < length xs" "xs ! a = xs ! b" "P (xs ! a)"
    have "xs = take b xs @ xs ! b # drop (Suc b) xs" by (rule id_take_nth_drop [OF ab(2)])
    moreover have "xs ! a \<in> set (filter P (take b xs))" using ab by (auto simp: in_set_conv_nth)
    ultimately have "filter P xs = filter P (take b xs) @ xs ! b # filter P (drop (Suc b) xs)" "xs ! b \<in> set (filter P (take b xs))"
      using ab by (metis filter.simps(2) filter_append, simp)
    then show ?thesis by simp
  qed
  show False using two [of i j] two [of j i] assms eq by (cases "i < j") auto
qed

lemma territories_apart:
  assumes cov: "covered (owned_mset s + M) B" and shape: "shape_ok s" and ij: "i < length (param_values s)" "j < length (param_values s)" "i \<noteq> j"
  shows "territory s i \<inter> territory s j = {}"
proof -
  let ?slots = "map (param_slot s) [0..<length (param_values s)]"
  have len: "length (param_buffers s) = length (param_values s)" and nz: "0 \<notin> set (param_buffers s)" using shape by (simp_all add: shape_ok_def)
  have "covered (nonnull (?slots @ buffer_cells s) + (nonnull (lasting_blocks s @ result_blocks s) + M)) B"
    using cov unfolding owned_slots filter_append mset_append by (simp only: ac_simps)
  from covered_distinct [OF this] have d: "distinct (filter (\<lambda>p. p \<noteq> 0) ?slots)" "distinct (buffer_cells s)"
      "set (filter (\<lambda>p. p \<noteq> 0) ?slots) \<inter> set (buffer_cells s) = {}"
    unfolding filter_append nonnull_cells [OF nz] by (simp_all only: distinct_append)
  have slots: "param_slot s i \<noteq> param_slot s j" if "param_slot s i \<noteq> 0"
    using distinct_filter_apart [OF d(1), of i j] ij that by simp
  have cells: "{param_buffers s ! i..<param_buffers s ! i + PARAM_BUF_LEN} \<inter> {param_buffers s ! j..<param_buffers s ! j + PARAM_BUF_LEN} = {}"
    using distinct_concat_apart [OF d(2), of i j] ij len by simp
  have mixed: "param_slot s a \<notin> {param_buffers s ! b..<param_buffers s ! b + PARAM_BUF_LEN}"
    if "param_slot s a \<noteq> 0" "a < length (param_values s)" "b < length (param_values s)" for a b
  proof
    assume "param_slot s a \<in> {param_buffers s ! b..<param_buffers s ! b + PARAM_BUF_LEN}"
    then have "param_slot s a \<in> set (buffer_cells s)" using that(3) len by (intro cell_in [of b]) simp_all
    from IntI [OF slot_in [OF that(2,1)] this] show False unfolding d(3) by simp
  qed
  show ?thesis using slots cells mixed [of i j] mixed [of j i] ij by (fastforce simp: territory_def)
qed

lemma territory_dom:
  assumes cov: "covered (owned_mset s + M) B" and shape: "shape_ok s" and i: "i < length (param_values s)" and a: "a \<in> territory s i"
  shows "B a \<noteq> None"
proof -
  let ?slots = "map (param_slot s) [0..<length (param_values s)]"
  have len: "length (param_buffers s) = length (param_values s)" and nz: "0 \<notin> set (param_buffers s)" using shape by (simp_all add: shape_ok_def)
  have c: "covered (nonnull (?slots @ buffer_cells s) + (nonnull (lasting_blocks s @ result_blocks s) + M)) B"
    using cov unfolding owned_slots filter_append mset_append by (simp only: ac_simps)
  have "param_buffers s ! i \<noteq> 0" using nz nth_mem [of i "param_buffers s"] i len by (metis)
  then have "a \<noteq> 0" using a by (auto simp: territory_def)
  moreover have "a \<in> set (?slots @ buffer_cells s)"
    using a slot_in [OF i] cell_in [of i s a] i len unfolding territory_def by auto
  ultimately show ?thesis using covered_dom [OF c] by blast
qed

section \<open>One parameter changed\<close>

text \<open>Only parameter \<open>i\<close> is other than it was.\<close>

definition param_only :: "nat \<Rightarrow> PgStmt \<Rightarrow> PgStmt \<Rightarrow> bool" where
  "param_only i s s' \<longleftrightarrow> (\<exists>v l f. s' = s\<lparr>param_values := (param_values s)[i := v], param_lengths := (param_lengths s)[i := l],
     param_formats := (param_formats s)[i := f]\<rparr>)"

lemma param_onlyI:
  "s' = s\<lparr>param_values := (param_values s)[i := v], param_lengths := (param_lengths s)[i := l], param_formats := (param_formats s)[i := f]\<rparr> \<Longrightarrow> param_only i s s'"
  unfolding param_only_def by (intro exI)

lemma param_only_trans: "param_only i s s' \<Longrightarrow> param_only i s' s'' \<Longrightarrow> param_only i s s''"
  unfolding param_only_def by (elim exE, intro exI, simp)

lemma param_onlyD:
  assumes "param_only i s s'"
  shows "shape_ok s' = shape_ok s" "same_holds s s'" "length (param_values s') = length (param_values s)" "param_buffers s' = param_buffers s"
    "length (param_lengths s') = length (param_lengths s)" "length (param_formats s') = length (param_formats s)"
    "j \<noteq> i \<Longrightarrow> param_values s' ! j = param_values s ! j" "j \<noteq> i \<Longrightarrow> territory s' j = territory s j"
    "stmt_refs s' = stmt_refs s" "is_pg s' = is_pg s" "is_cached s' = is_cached s" "param_names s' = param_names s" "param_count s' = param_count s"
    "stmt_sql s' = stmt_sql s" "stmt_result s' = stmt_result s"
proof -
  obtain v l f where s': "s' = s\<lparr>param_values := (param_values s)[i := v], param_lengths := (param_lengths s)[i := l], param_formats := (param_formats s)[i := f]\<rparr>"
    using assms unfolding param_only_def by (elim exE)
  have n: "safe_param_count s' = safe_param_count s" by (simp add: s' safe_param_count_def)
  show "shape_ok s' = shape_ok s" unfolding shape_ok_def n by (simp add: s')
  show "j \<noteq> i \<Longrightarrow> territory s' j = territory s j" by (simp add: s' territory_def param_slot_def is_preallocated_buffer_def)
qed (use assms in \<open>auto simp: param_only_def same_holds_def\<close>)

lemma nonnull_update:
  assumes "i < length xs"
  shows "nonnull (xs[i := q]) + nonnull [xs ! i] = nonnull xs + nonnull [q]"
proof -
  have "nonnull xs = nonnull (take i xs @ [xs ! i] @ drop (Suc i) xs)" using id_take_nth_drop [OF assms] by simp
  then show ?thesis unfolding upd_conv_take_nth_drop [OF assms] by simp
qed

lemma multiset_swap: "a + x = b + y \<Longrightarrow> a + c + r + x = b + c + r + (y :: 'a multiset)"
  by (metis add.assoc add.commute)

lemma owned_update:
  assumes only: "param_only i s s'" and i: "i < length (param_values s)"
  shows "owned_mset s' + nonnull [param_slot s i] = owned_mset s + nonnull [param_slot s' i]"
proof -
  note P = param_onlyD [OF only]
  have slot: "param_slot s' j = param_slot s j" if "j \<noteq> i" for j
    using P(7) [OF that] P(3,4) by (simp add: param_slot_def is_preallocated_buffer_def)
  let ?n = "length (param_values s)"
  have "map (param_slot s') [0..<?n] = (map (param_slot s) [0..<?n])[i := param_slot s' i]"
    by (rule nth_equalityI) (use i in \<open>auto simp: nth_list_update slot\<close>)
  then have swap: "nonnull (map (param_slot s') [0..<?n]) + nonnull [param_slot s i] = nonnull (map (param_slot s) [0..<?n]) + nonnull [param_slot s' i]"
    using nonnull_update [of i "map (param_slot s) [0..<?n]" "param_slot s' i"] i by simp
  have n: "safe_param_count s' = safe_param_count s" using P by (simp add: safe_param_count_def)
  have rest: "lasting_blocks s' = lasting_blocks s" "result_blocks s' = result_blocks s" "buffer_cells s' = buffer_cells s"
    using only unfolding n by (auto simp: param_only_def)
  show ?thesis unfolding owned_slots P(3) rest by (rule multiset_swap [OF swap])
qed

text \<open>What PostgreSQL is sent for a parameter: null, or the text at its pointer.\<close>

definition param_text :: "PgStmt \<Rightarrow> c_blocks \<Rightarrow> nat \<Rightarrow> string option" where
  "param_text s B i = (if param_values s ! i = 0 then None else B (param_values s ! i))"

lemma param_text_other:
  assumes cov: "covered (owned_mset s + M) B" and shape: "shape_ok s" and ij: "i < length (param_values s)" "j < length (param_values s)" "j \<noteq> i"
    and only: "param_only i s s'" and B: "\<And>a. a \<notin> territory s i \<Longrightarrow> B a \<noteq> None \<Longrightarrow> B' a = B a"
  shows "param_text s' B' j = param_text s B j"
proof (cases "param_values s ! j = 0")
  case False
  have v: "param_values s ! j \<in> territory s j" by (rule value_in_territory [OF False])
  then have "param_values s ! j \<notin> territory s i" using territories_apart [OF cov shape ij(2,1,3)] by blast
  then show ?thesis using B territory_dom [OF cov shape ij(2) v] param_onlyD(7) [OF only ij(3)] False by (simp add: param_text_def)
qed (use param_onlyD(7) [OF only ij(3)] in \<open>simp add: param_text_def\<close>)

lemma clear_param_ok:
  assumes cov: "covered (owned_mset s + M) B" and i: "i < length (param_values s)"
  shows "\<exists>s' B'. clear_param_value i s B = Some (s', B') \<and> param_only i s s' \<and> covered (owned_mset s' + M) B'
    \<and> param_values s' ! i = 0 \<and> B' = without B [param_slot s i] \<and> param_lengths s' = (param_lengths s)[i := 0] \<and> param_formats s' = (param_formats s)[i := 0]"
proof -
  let ?s = "s\<lparr>param_values := (param_values s)[i := 0], param_lengths := (param_lengths s)[i := 0], param_formats := (param_formats s)[i := 0]\<rparr>"
  have only: "param_only i s ?s" by (rule param_onlyI) (rule refl)
  have "param_slot ?s i = 0" using i by (simp add: param_slot_def)
  then have own: "owned_mset s = nonnull [param_slot s i] + owned_mset ?s" using owned_update [OF only i] by (simp add: ac_simps)
  have c: "covered (nonnull [param_slot s i] + (owned_mset ?s + M)) B" using cov unfolding own by (simp only: ac_simps)
  have "c_free (param_slot s i) B = Some (without B [param_slot s i])" by (rule c_free_ok [OF covered_free(1) [OF c]])
  moreover have "without B [0] = B" by (rule ext) (simp add: without_def)
  ultimately have "clear_param_value i s B = Some (?s, without B [param_slot s i])"
    using i by (auto simp: clear_param_value_def param_slot_def is_preallocated_buffer_def)
  then show ?thesis using only covered_free(2) [OF c] i by auto
qed

section \<open>What a store may do\<close>

text \<open>Only parameter \<open>i\<close> is changed, every block still has its one owner, and no memory but the parameter's is touched.\<close>

definition store_ok :: "nat \<Rightarrow> PgStmt \<Rightarrow> c_blocks \<Rightarrow> PgStmt \<Rightarrow> c_blocks \<Rightarrow> ptr multiset \<Rightarrow> bool" where
  "store_ok i s B s' B' M \<longleftrightarrow> param_only i s s' \<and> covered (owned_mset s' + M) B' \<and> (\<forall>a. a \<notin> territory s i \<longrightarrow> B a \<noteq> None \<longrightarrow> B' a = B a)"

definition has_memory :: "'w stmt_lib \<Rightarrow> bool" where
  "has_memory E \<longleftrightarrow> (\<forall>live w. finite live \<longrightarrow> fst (c_malloc E live w) \<noteq> 0)"

lemma covered_finite: "covered M B \<Longrightarrow> finite (dom B)"
proof -
  assume c: "covered M B"
  have "dom B = set_mset M" using c by (auto simp: covered_def set_mset_def dom_def split: if_splits)
  then show ?thesis by simp
qed

lemma clear_keeps:
  assumes "covered (owned_mset s + M) B" "i < length (param_values s)"
  shows "\<exists>s1 B1. clear_param_value i s B = Some (s1, B1) \<and> store_ok i s B s1 B1 M \<and> param_values s1 ! i = 0
    \<and> param_lengths s1 = (param_lengths s)[i := 0] \<and> param_formats s1 = (param_formats s)[i := 0]"
proof -
  obtain s1 B1 where s1: "clear_param_value i s B = Some (s1, B1)" "param_only i s s1" "covered (owned_mset s1 + M) B1"
      "param_values s1 ! i = 0" "B1 = without B [param_slot s i]" "param_lengths s1 = (param_lengths s)[i := 0]" "param_formats s1 = (param_formats s)[i := 0]"
    using clear_param_ok [OF assms] by blast
  have "B1 a = B a" if "a \<notin> territory s i" for a using that by (auto simp: s1(5) without_def territory_def restrict_map_def)
  then show ?thesis using s1 by (simp add: store_ok_def)
qed

text \<open>A value put in a parameter that is null: a buffer's, or one of a new block.\<close>

lemma put_value:
  assumes ok: "store_ok i s B s1 B1 M" and shape: "shape_ok s" and i: "i < length (param_values s)" and null: "param_values s1 ! i = 0"
    and s2: "s2 = s1\<lparr>param_values := (param_values s1)[i := q]\<rparr>"
    and cov: "covered (nonnull [param_slot s2 i] + (owned_mset s1 + M)) B2"
    and B2: "\<And>a. a \<noteq> param_buffers s ! i \<Longrightarrow> B1 a \<noteq> None \<Longrightarrow> B2 a = B1 a"
  shows "store_ok i s B s2 B2 M"
proof -
  have only1: "param_only i s s1" using ok by (simp add: store_ok_def)
  note P = param_onlyD [OF only1]
  have "s2 = s1\<lparr>param_values := (param_values s1)[i := q], param_lengths := (param_lengths s1)[i := param_lengths s1 ! i], param_formats := (param_formats s1)[i := param_formats s1 ! i]\<rparr>"
    by (simp add: s2)
  then have only2: "param_only i s1 s2" by (rule param_onlyI)
  have "param_slot s1 i = 0" using null by (simp add: param_slot_def)
  then have "owned_mset s2 = owned_mset s1 + nonnull [param_slot s2 i]" using owned_update [OF only2] i P(3) by simp
  then have "covered (owned_mset s2 + M) B2" using cov by (simp add: add_ac)
  moreover have "B2 a = B a" if "a \<notin> territory s i" "B a \<noteq> None" for a
  proof -
    have "B1 a = B a" using ok that by (simp add: store_ok_def)
    moreover have "a \<noteq> param_buffers s ! i" using that(1) by (auto simp: territory_def PARAM_BUF_LEN_def)
    ultimately show ?thesis using B2 that(2) by simp
  qed
  ultimately show ?thesis using param_only_trans [OF only1 only2] by (simp add: store_ok_def)
qed

lemma copy_keeps:
  assumes lib: "allocs_fresh E" and ok: "store_ok i s B s1 B1 M" and shape: "shape_ok s" and i: "i < length (param_values s)" and null: "param_values s1 ! i = 0"
  shows "\<exists>s2 B2 w2. store_copy E r i s1 B1 w = Some (s2, B2, w2) \<and> store_ok i s B s2 B2 M \<and> (has_memory E \<longrightarrow> param_text s2 B2 i = Some r)
    \<and> param_lengths s2 = param_lengths s1 \<and> param_formats s2 = param_formats s1"
proof -
  have cov1: "covered (owned_mset s1 + M) B1" and only1: "param_only i s s1" using ok by (simp_all add: store_ok_def)
  note P = param_onlyD [OF only1]
  obtain q w2 B2 where q: "c_strdup E r B1 w = (q, w2, B2)" by (metis prod_cases3)
  let ?s = "s1\<lparr>param_values := (param_values s1)[i := q]\<rparr>"
  have run: "store_copy E r i s1 B1 w = Some (?s, B2, w2)" using i P(3) by (simp add: store_copy_def q set_param_def vec_set_def)
  have B2: "B2 = (if q = 0 then B1 else B1(q \<mapsto> r))" and qm: "q = fst (c_malloc E (dom B1) w)"
    using q by (auto simp: c_strdup_def Let_def case_prod_unfold)
  have fresh: "q = 0 \<or> B1 q = None" by (rule c_strdup_ok(2) [OF lib cov1 q])
  have keep: "B2 a = B1 a" if "B1 a \<noteq> None" for a using fresh that by (auto simp: B2)
  have "param_slot ?s i = q"
  proof (cases "q = 0")
    case False
    have shape1: "shape_ok s1" using shape P(1) by simp
    have "q \<notin> territory s1 i" using territory_dom [OF cov1 shape1, of i q] fresh False i P(3) by auto
    then show ?thesis using i P(3) by (simp add: param_slot_def is_preallocated_buffer_def territory_def)
  qed (use i P(3) in \<open>simp add: param_slot_def\<close>)
  then have "store_ok i s B ?s B2 M"
    using c_strdup_ok(1) [OF lib cov1 q] keep by (intro put_value [OF ok shape i null refl]) simp_all
  moreover have "param_text ?s B2 i = Some r" if "has_memory E"
  proof -
    have "q \<noteq> 0" using that covered_finite [OF cov1] unfolding qm has_memory_def by blast
    then show ?thesis using i P(3) by (simp add: param_text_def B2)
  qed
  ultimately show ?thesis using run by simp
qed

lemma lens_keeps:
  assumes ok: "store_ok i s B s1 B1 M" and i: "i < length (param_values s)"
    and s2: "s2 = s1\<lparr>param_lengths := (param_lengths s1)[i := l], param_formats := (param_formats s1)[i := f]\<rparr>"
  shows "store_ok i s B s2 B1 M" "param_text s2 B1 = param_text s1 B1"
proof -
  have only1: "param_only i s s1" using ok by (simp add: store_ok_def)
  have "s2 = s1\<lparr>param_values := (param_values s1)[i := param_values s1 ! i], param_lengths := (param_lengths s1)[i := l], param_formats := (param_formats s1)[i := f]\<rparr>"
    by (simp add: s2)
  then have only2: "param_only i s1 s2" by (rule param_onlyI)
  have "param_slot s2 i = param_slot s1 i" by (simp add: s2 param_slot_def is_preallocated_buffer_def)
  then have "owned_mset s2 = owned_mset s1" using owned_update [OF only2] i param_onlyD(3) [OF only1] by simp
  then show "store_ok i s B s2 B1 M" using ok param_only_trans [OF only1 only2] by (simp add: store_ok_def)
  show "param_text s2 B1 = param_text s1 B1" by (rule ext) (simp add: s2 param_text_def)
qed

section \<open>The contract of a store\<close>

text \<open>
  The binds differ in how they store the value. What each of them relies on is the same: the
  store returns where the value can be read, keeps the account of the memory, and leaves in the
  parameter what it is to send. Everything about a bind is proved from this.
\<close>

locale param_store =
  fixes E :: "'w stmt_lib" and store :: "'w store" and readable :: "'w \<Rightarrow> bool" and sends :: "'w \<Rightarrow> string option"
  assumes store_returns: "allocs_fresh E \<Longrightarrow> covered (owned_mset s + M) B \<Longrightarrow> shape_ok s \<Longrightarrow> i < length (param_values s) \<Longrightarrow>
      readable w \<Longrightarrow> store i s B w \<noteq> None"
    and store_keeps: "allocs_fresh E \<Longrightarrow> covered (owned_mset s + M) B \<Longrightarrow> shape_ok s \<Longrightarrow> i < length (param_values s) \<Longrightarrow>
      store i s B w = Some (s', B', w') \<Longrightarrow> store_ok i s B s' B' M \<and> (has_memory E \<longrightarrow> param_text s' B' i = sends w)"

lemma number_keeps:
  assumes cov: "covered (owned_mset s + M) B" and shape: "shape_ok s" and i: "i < length (param_values s)"
  shows "\<exists>s' B'. store_number r i s B w = Some (s', B', w) \<and> store_ok i s B s' B' M \<and> param_text s' B' i = Some (take (PARAM_BUF_LEN - 1) r)"
proof -
  obtain s1 B1 where s1: "clear_param_value i s B = Some (s1, B1)" "store_ok i s B s1 B1 M" "param_values s1 ! i = 0"
    using clear_keeps [OF cov i] by blast
  have cov1: "covered (owned_mset s1 + M) B1" and only1: "param_only i s s1" using s1(2) by (simp_all add: store_ok_def)
  note P = param_onlyD [OF only1]
  have len: "length (param_buffers s) = length (param_values s)" and nz: "0 \<notin> set (param_buffers s)" using shape by (simp_all add: shape_ok_def)
  let ?b = "param_buffers s ! i" and ?r = "take (PARAM_BUF_LEN - 1) r"
  let ?s = "s1\<lparr>param_values := (param_values s1)[i := ?b]\<rparr>" and ?B = "B1(?b \<mapsto> ?r)"
  have b: "?b \<noteq> 0" using nz nth_mem [of i "param_buffers s"] i len by metis
  have "?b \<in> territory s1 i" using P(4) by (simp add: territory_def PARAM_BUF_LEN_def)
  then have "B1 ?b \<noteq> None" using territory_dom [OF cov1] shape P(1,3) i by simp
  then have cov2: "covered (owned_mset s1 + M) ?B" using cov1 by (auto simp: covered_def)
  have "param_slot ?s i = 0" using b i len P(3,4) by (simp add: param_slot_def is_preallocated_buffer_def PARAM_BUF_LEN_def)
  then have "store_ok i s B ?s ?B M" using cov2 by (intro put_value [OF s1(2) shape i s1(3) refl]) simp_all
  moreover have "param_text ?s ?B i = Some ?r" using b i P(3) by (simp add: param_text_def)
  moreover have "store_number r i s B w = Some (?s, ?B, w)"
    using i len P(3,4) by (simp add: store_number_def s1(1) set_param_def vec_set_def Let_def)
  ultimately show ?thesis by blast
qed

interpretation number: param_store E "store_number r" "\<lambda>_. True" "\<lambda>_. Some (take (PARAM_BUF_LEN - 1) r)" for E r
proof
  show "store_number r i s B w \<noteq> None" if "covered (owned_mset s + M) B" "shape_ok s" "i < length (param_values s)" for i s B w M
    using number_keeps [OF that, of r w] by auto
  show "store_ok i s B s' B' M \<and> (has_memory E \<longrightarrow> param_text s' B' i = Some (take (PARAM_BUF_LEN - 1) r))"
    if "covered (owned_mset s + M) B" "shape_ok s" "i < length (param_values s)" "store_number r i s B w = Some (s', B', w')" for i s B w s' B' w' M
    using number_keeps [OF that(1-3), of r w] that(4) by auto
qed

lemma null_keeps:
  assumes "covered (owned_mset s + M) B" "i < length (param_values s)"
  shows "\<exists>s' B'. store_null i s B w = Some (s', B', w) \<and> store_ok i s B s' B' M \<and> param_text s' B' i = None"
proof -
  obtain s1 B1 where "clear_param_value i s B = Some (s1, B1)" "store_ok i s B s1 B1 M" "param_values s1 ! i = 0"
    using clear_keeps [OF assms] by blast
  then show ?thesis by (intro exI [of _ s1] exI [of _ B1]) (simp add: store_null_def param_text_def)
qed

interpretation null: param_store E store_null "\<lambda>_. True" "\<lambda>_. None" for E
proof
  show "store_null i s B w \<noteq> None" if "covered (owned_mset s + M) B" "i < length (param_values s)" for i s B w M
    using null_keeps [OF that, of w] by auto
  show "store_ok i s B s' B' M \<and> (has_memory E \<longrightarrow> param_text s' B' i = None)"
    if "covered (owned_mset s + M) B" "i < length (param_values s)" "store_null i s B w = Some (s', B', w')" for i s B w s' B' w' M
    using null_keeps [OF that(1,2), of w] that(3) by auto
qed

text \<open>Text is sent as it is, unless it is bytes.\<close>

definition text_sent :: "'w stmt_lib \<Rightarrow> bind_src \<Rightarrow> nat option \<Rightarrow> 'w \<Rightarrow> string option" where
  "text_sent E val n_bytes w =
     (if val = Host 0 then None
      else do {
        n \<leftarrow> (case n_bytes of None \<Rightarrow> map_option length (src_text E val w) | Some n \<Rightarrow> Some n);
        data \<leftarrow> src_bytes E val n w;
        if contains_binary_bytes data then Some (bytes_to_pg_hex data)
        else if n_bytes = None then src_text E val w else Some data
      })"

definition text_readable :: "'w stmt_lib \<Rightarrow> bind_src \<Rightarrow> nat option \<Rightarrow> 'w \<Rightarrow> bool" where
  "text_readable E val n_bytes w \<longleftrightarrow> val = Host 0 \<or>
     (case n_bytes of
        None \<Rightarrow> (case src_text E val w of None \<Rightarrow> False | Some r \<Rightarrow> src_bytes E val (length r) w \<noteq> None)
      | Some n \<Rightarrow> src_bytes E val n w \<noteq> None)"

lemma text_keeps:
  assumes lib: "allocs_fresh E" and cov: "covered (owned_mset s + M) B" and shape: "shape_ok s" and i: "i < length (param_values s)" and rd: "text_readable E val n w"
  shows "\<exists>s' B' w'. store_text E val n i s B w = Some (s', B', w') \<and> store_ok i s B s' B' M \<and> (has_memory E \<longrightarrow> param_text s' B' i = text_sent E val n w)"
proof (cases "val = Host 0")
  case True
  then show ?thesis using null_keeps [OF cov i, of w] by (auto simp: store_text_def text_sent_def)
next
  case False
  obtain s1 B1 where s1: "clear_param_value i s B = Some (s1, B1)" "store_ok i s B s1 B1 M" "param_values s1 ! i = 0"
    using clear_keeps [OF cov i] by blast
  obtain m data where m: "(case n of None \<Rightarrow> map_option length (src_text E val w) | Some n \<Rightarrow> Some n) = Some m" "src_bytes E val m w = Some data"
      and dup: "n = None \<Longrightarrow> src_text E val w \<noteq> None"
    using rd False by (auto simp: text_readable_def split: option.splits)
  define r where "r = (if contains_binary_bytes data then bytes_to_pg_hex data else if n = None then the (src_text E val w) else data)"
  have "store_text E val n i s B w = store_copy E r i s1 B1 w"
    using False m dup s1(1) by (auto simp: store_text_def store_text_param_def r_def)
  moreover have "text_sent E val n w = Some r" using False m dup by (auto simp: text_sent_def r_def)
  ultimately show ?thesis using copy_keeps [OF lib s1(2) shape i s1(3), of r w] by auto
qed

lemma text_reads: "store_text E val n i s B w = Some r \<Longrightarrow> i < length (param_values s) \<Longrightarrow> text_readable E val n w"
  by (auto simp: store_text_def store_text_param_def text_readable_def split: option.splits if_splits bind_splits)

interpretation text_bind: param_store E "store_text E val n" "text_readable E val n" "text_sent E val n" for E val n
proof
  show "store_text E val n i s B w \<noteq> None"
    if "allocs_fresh E" "covered (owned_mset s + M) B" "shape_ok s" "i < length (param_values s)" "text_readable E val n w" for i s B w M
    using text_keeps [OF that] by auto
  show "store_ok i s B s' B' M \<and> (has_memory E \<longrightarrow> param_text s' B' i = text_sent E val n w)"
    if "allocs_fresh E" "covered (owned_mset s + M) B" "shape_ok s" "i < length (param_values s)" "store_text E val n i s B w = Some (s', B', w')" for i s B w s' B' w' M
    using text_keeps [OF that(1-4) text_reads [OF that(5,4)]] that(5) by auto
qed

text \<open>Bytes are sent in hexadecimal.\<close>

definition blob_sent :: "'w stmt_lib \<Rightarrow> ptr \<Rightarrow> nat \<Rightarrow> 'w \<Rightarrow> string option" where
  "blob_sent E val n w = (if val = 0 then None else map_option bytes_to_pg_hex (src_bytes E (Host val) n w))"

definition blob_readable :: "'w stmt_lib \<Rightarrow> ptr \<Rightarrow> nat \<Rightarrow> 'w \<Rightarrow> bool" where
  "blob_readable E val n w \<longleftrightarrow> val = 0 \<or> src_bytes E (Host val) n w \<noteq> None"

lemma vec_set_ok: "i < length xs \<Longrightarrow> vec_set i x xs = Some (xs[i := x])"
  by (simp add: vec_set_def)

lemma blob_keeps:
  assumes lib: "allocs_fresh E" and cov: "covered (owned_mset s + M) B" and shape: "shape_ok s" and i: "i < length (param_values s)" and rd: "blob_readable E val n w"
  shows "\<exists>s' B' w'. store_blob E val n i s B w = Some (s', B', w') \<and> store_ok i s B s' B' M \<and> (has_memory E \<longrightarrow> param_text s' B' i = blob_sent E val n w)"
proof (cases "val = 0")
  case True
  then show ?thesis using null_keeps [OF cov i, of w] by (auto simp: store_blob_def blob_sent_def)
next
  case False
  obtain s1 B1 where s1: "clear_param_value i s B = Some (s1, B1)" "store_ok i s B s1 B1 M" "param_values s1 ! i = 0"
    using clear_keeps [OF cov i] by blast
  obtain data where data: "src_bytes E (Host val) n w = Some data" using rd False by (auto simp: blob_readable_def)
  obtain s2 B2 w2 where s2: "store_copy E (bytes_to_pg_hex data) i s1 B1 w = Some (s2, B2, w2)" "store_ok i s B s2 B2 M"
      "has_memory E \<longrightarrow> param_text s2 B2 i = Some (bytes_to_pg_hex data)"
    using copy_keeps [OF lib s1(2) shape i s1(3), of "bytes_to_pg_hex data" w] by blast
  have "i < length (param_lengths s2)" "i < length (param_formats s2)"
    using param_onlyD(5,6) [of i s s2] s2(2) shape i by (simp_all add: store_ok_def shape_ok_def)
  then show ?thesis
    using False s1(1) data s2(1,3) lens_keeps [OF s2(2) i refl, of 0 0]
    by (simp add: store_blob_def store_blob_hex_param_def vec_set_ok blob_sent_def)
qed

lemma blob_reads: "store_blob E val n i s B w = Some r \<Longrightarrow> blob_readable E val n w"
  by (auto simp: store_blob_def store_blob_hex_param_def blob_readable_def split: if_splits bind_splits)

interpretation blob_bind: param_store E "store_blob E val n" "blob_readable E val n" "blob_sent E val n" for E val n
proof
  show "store_blob E val n i s B w \<noteq> None"
    if "allocs_fresh E" "covered (owned_mset s + M) B" "shape_ok s" "i < length (param_values s)" "blob_readable E val n w" for i s B w M
    using blob_keeps [OF that] by auto
  show "store_ok i s B s' B' M \<and> (has_memory E \<longrightarrow> param_text s' B' i = blob_sent E val n w)"
    if "allocs_fresh E" "covered (owned_mset s + M) B" "shape_ok s" "i < length (param_values s)" "store_blob E val n i s B w = Some (s', B', w')" for i s B w s' B' w' M
    using blob_keeps [OF that(1-4) blob_reads [OF that(5)]] that(5) by auto
qed

text \<open>A value of SQLite's is sent by its type.\<close>

definition value_sent :: "'w stmt_lib \<Rightarrow> sqlite3_value \<Rightarrow> 'w \<Rightarrow> string option" where
  "value_sent E v w =
     (if value_type v = SQLITE_INTEGER then Some (take 31 (show_int (value_int64 v)))
      else if value_type v = SQLITE_FLOAT then Some (take 63 (format_g17 E (value_double v)))
      else if value_type v = SQLITE_TEXT then (if value_text v = 0 then None else host_text E (value_text v) w)
      else if value_type v = SQLITE_BLOB then (if value_blob v = 0 \<or> value_bytes v \<le> 0 then None else host_bytes E (value_blob v) (nat (value_bytes v)) w)
      else None)"

definition value_readable :: "'w stmt_lib \<Rightarrow> sqlite3_value \<Rightarrow> 'w \<Rightarrow> bool" where
  "value_readable E v w \<longleftrightarrow>
     (value_type v = SQLITE_TEXT \<and> value_text v \<noteq> 0 \<longrightarrow> host_text E (value_text v) w \<noteq> None)
     \<and> (value_type v = SQLITE_BLOB \<and> value_blob v \<noteq> 0 \<and> 0 < value_bytes v \<longrightarrow> host_bytes E (value_blob v) (nat (value_bytes v)) w \<noteq> None)"

lemma value_keeps:
  assumes lib: "allocs_fresh E" and cov: "covered (owned_mset s + M) B" and shape: "shape_ok s" and i: "i < length (param_values s)" and rd: "value_readable E v w"
  shows "\<exists>s' B' w'. store_sqlite_value_param E v i s B w = Some (s', B', w') \<and> store_ok i s B s' B' M \<and> (has_memory E \<longrightarrow> param_text s' B' i = value_sent E v w)"
proof -
  obtain s1 B1 where s1: "clear_param_value i s B = Some (s1, B1)" "store_ok i s B s1 B1 M" "param_values s1 ! i = 0"
    using clear_keeps [OF cov i] by blast
  note copy = copy_keeps [OF lib s1(2) shape i s1(3), of _ w]
  have null: "param_text s1 B1 i = None" using s1(3) by (simp add: param_text_def)
  have types: "SQLITE_INTEGER \<noteq> SQLITE_TEXT" "SQLITE_INTEGER \<noteq> SQLITE_FLOAT" "SQLITE_INTEGER \<noteq> SQLITE_BLOB" "SQLITE_FLOAT \<noteq> SQLITE_TEXT"
      "SQLITE_FLOAT \<noteq> SQLITE_BLOB" "SQLITE_TEXT \<noteq> SQLITE_BLOB"
    by (simp_all add: SQLITE_INTEGER_def SQLITE_FLOAT_def SQLITE_TEXT_def SQLITE_BLOB_def)
  show ?thesis
  proof (cases "value_type v = SQLITE_BLOB \<and> value_blob v \<noteq> 0 \<and> 0 < value_bytes v")
    case False
    have "(\<exists>r. store_sqlite_value_param E v i s B w = store_copy E r i s1 B1 w \<and> value_sent E v w = Some r)
        \<or> store_sqlite_value_param E v i s B w = Some (s1, B1, w) \<and> value_sent E v w = None"
      using s1(1) rd types False by (auto simp: store_sqlite_value_param_def value_sent_def value_readable_def not_less)
    then show ?thesis using copy s1(2) null by fastforce
  next
    case True
    then obtain data where data: "host_bytes E (value_blob v) (nat (value_bytes v)) w = Some data" using rd by (auto simp: value_readable_def)
    obtain s2 B2 w2 where s2: "store_copy E data i s1 B1 w = Some (s2, B2, w2)" "store_ok i s B s2 B2 M" "has_memory E \<longrightarrow> param_text s2 B2 i = Some data"
      using copy [of data] by blast
    have "i < length (param_lengths s2)" "i < length (param_formats s2)"
      using param_onlyD(5,6) [of i s s2] s2(2) shape i by (simp_all add: store_ok_def shape_ok_def)
    then show ?thesis
      using True data types s1(1) s2(1,3) lens_keeps [OF s2(2) i refl, of 1 "value_bytes v"]
      by (simp add: store_sqlite_value_param_def value_sent_def vec_set_ok)
  qed
qed

lemma value_reads: "store_sqlite_value_param E v i s B w = Some r \<Longrightarrow> value_readable E v w"
  unfolding store_sqlite_value_param_def value_readable_def SQLITE_INTEGER_def SQLITE_FLOAT_def SQLITE_TEXT_def SQLITE_BLOB_def
  by (auto split: if_splits bind_splits)

interpretation value_bind: param_store E "store_sqlite_value_param E v" "value_readable E v" "value_sent E v" for E v
proof
  show "store_sqlite_value_param E v i s B w \<noteq> None"
    if "allocs_fresh E" "covered (owned_mset s + M) B" "shape_ok s" "i < length (param_values s)" "value_readable E v w" for i s B w M
    using value_keeps [OF that] by auto
  show "store_ok i s B s' B' M \<and> (has_memory E \<longrightarrow> param_text s' B' i = value_sent E v w)"
    if "allocs_fresh E" "covered (owned_mset s + M) B" "shape_ok s" "i < length (param_values s)" "store_sqlite_value_param E v i s B w = Some (s', B', w')" for i s B w s' B' w' M
    using value_keeps [OF that(1-4) value_reads [OF that(5)]] that(5) by auto
qed

end
