(* ===== verification/Bind_Sound.thy ===== *)
theory Bind_Sound
  imports Bind_Memory
begin

text \<open>
  Every bind, from the contract of its store: it returns, keeps the account of the statements
  and of the memory, changes nothing but the parameter its index stands for, and leaves there
  what the value is sent as.
\<close>

section \<open>Calls that change only the world\<close>

lemma with_world_simps [simp]:
  "stmts (with_world w X) = stmts X" "c_heap (with_world w X) = c_heap X" "forward (with_world w X) = forward X" "reverse (with_world w X) = reverse X"
  "tls_stmts (with_world w X) = tls_stmts X" "env (shim_of (with_world w X)) = env (shim_of X)" "world_of (with_world w X) = w"
  "tables_same Y (with_world w X) = tables_same Y X"
  "pool_ok hold (shim_of (with_world w X)) = pool_ok hold (shim_of X)" "reg_ok (shim_of (with_world w X)) = reg_ok (shim_of X)"
  "host_same hold S (shim_of (with_world w X)) = host_same hold S (shim_of X)"
  by (simp_all add: with_world_def tables_same_def)

lemma with_world_twice [simp]: "with_world v (with_world w X) = with_world v X" "with_world (world_of X) X = X"
  by (simp_all add: with_world_def set_shim_def)

lemma with_world_ok [simp]: "procs_ok extra (with_world w X) = procs_ok extra X"
proof -
  have l: "leak_enabled (with_world w X) = leak_enabled X" by (rule leak_enabled_env) simp
  have s: "stmts_ok R (with_world w X) = stmts_ok R X" for R by (simp add: stmts_ok_def l)
  have "account extra (with_world w X) = account extra X" by (rule account_cong) simp_all
  then show ?thesis by (simp add: procs_ok_def s reverse_ok_def tls_refs_def)
qed

lemma stmt_rel_world [simp]: "stmt_rel P X (with_world w Y) = stmt_rel P X Y"
  by (simp add: stmt_rel_def)

lemma stmt_rel_from_world [simp]: "stmt_rel P (with_world w X) Y = stmt_rel P X Y"
  by (simp add: stmt_rel_def tables_same_def with_world_def host_same_def host_rel_def)

lemma call_orig_world: "\<exists>rc w. call_orig f k X = (rc, with_world w X)"
proof (cases f)
  case None
  then show ?thesis by (intro exI [of _ SQLITE_ERROR] exI [of _ "world_of X"]) (simp add: call_orig_def)
qed (auto simp: call_orig_def with_world_def case_prod_unfold Let_def)

lemma wait_world: "\<exists>w. wait_for_stmt_ready E k sp X = with_world w X"
  using call_orig_world [of "orig_reset E" k X] by (auto simp: wait_for_stmt_ready_def Let_def)

lemma retry_world: "\<exists>rc w. retry_bind n E a k idx sp (rc0, X) = (rc, with_world w X)"
proof (induction n arbitrary: rc0 X)
  case 0
  then show ?case by (intro exI [of _ rc0] exI [of _ "world_of X"]) simp
next
  case (Suc n)
  obtain w1 where w1: "wait_for_stmt_ready E k sp X = with_world w1 X" using wait_world [of E k sp X] by (elim exE)
  obtain rc2 w2 where c: "call_bind E a k idx (with_world w1 X) = (rc2, with_world w2 X)"
    using call_orig_world [of "map_option (\<lambda>f k. f k idx) (orig_bind E a)" k "with_world w1 X"] by (auto simp: call_bind_def)
  obtain rc3 w3 where "retry_bind n E a k idx sp (rc2, with_world w2 X) = (rc3, with_world w3 X)"
    using Suc.IH [of rc2 "with_world w2 X"] by auto
  then show ?case using w1 c by (cases "rc2 = SQLITE_OK"; cases "rc2 = SQLITE_MISUSE") auto
qed

section \<open>The parameter's name\<close>

lemma name_at_cong: "c_heap X' = c_heap X \<Longrightarrow> name_at names i X' = name_at names i X"
  by (simp add: name_at_def c_text_def)

lemma find_name_cong: "c_heap X' = c_heap X \<Longrightarrow> find_name c i n names X' = find_name c i n names X"
  by (induction n arbitrary: i) (simp_all add: name_at_cong [of X' X] cong: if_cong)

lemma param_name_read:
  assumes ok: "procs_ok extra X" and s: "hm_get (stmts X) p = Some s" and ns: "param_names s = Some (arr, ns)" and i: "i < nat (param_count s)"
  shows "\<exists>r. name_at ns i X = Some r"
proof -
  note M = stmts_okD [OF procs_okD(1) [OF ok]] and A = stmts_ok_alive [OF procs_okD(1) [OF ok] s]
  have n: "safe_param_count s = nat (param_count s)" "nat (param_count s) \<le> length ns"
    using A ns by (auto simp: shape_ok_def safe_param_count_def names_fit_def)
  have "ns ! i \<in> set (names_blocks (safe_param_count s) (param_names s))"
    using n i nth_mem [of i "take (nat (param_count s)) ns"] by (simp add: names_blocks_def ns)
  then have "ns ! i \<in> set (owned_blocks s)" by (simp add: owned_blocks_def)
  moreover have "covered (owned_mset s + hm_sum owned_mset (hm_remove p (stmts X))) (c_heap X)" using M(2) blocks_ok_get [OF M(1) s] by simp
  ultimately have "ns ! i = 0 \<or> c_heap X (ns ! i) \<noteq> None" using covered_dom by blast
  then show ?thesis using n(2) i by (auto simp: name_at_def c_text_def)
qed

lemma find_name_returns:
  assumes "\<And>j. j < n \<Longrightarrow> \<exists>r. name_at names (i + j) X = Some r"
  shows "\<exists>r. find_name c i n names X = Some r"
  using assms
proof (induction n arbitrary: i)
  case (Suc n)
  obtain r where "name_at names i X = Some r" using Suc.prems [of 0] by auto
  moreover have "\<exists>r. find_name c (Suc i) n names X = Some r" using Suc.IH [of "Suc i"] Suc.prems [of "Suc _"] by simp
  ultimately show ?case by auto
qed simp

lemma parameter_name_returns:
  assumes ok: "procs_ok extra X"
  shows "\<exists>r. bind_parameter_name_impl E k idx X = Some r"
proof (cases "k = 0 \<or> rust_stmt_find k X = 0")
  case True
  then show ?thesis by (auto simp: bind_parameter_name_impl_def is_interposed_pg_stmt_def)
next
  case False
  let ?p = "rust_stmt_find k X"
  have "hm_get (forward X) k = Some ?p" using False by (auto simp: rust_stmt_find_def unwrap_or_null_def split: if_splits option.splits)
  then obtain s where s: "hm_get (stmts X) ?p = Some s" using registered_alive [OF ok] by blast
  have "\<exists>r. name_at ns (nat (idx - 1)) X = Some r" if "param_names s = Some (arr, ns)" "0 < idx" "idx \<le> param_count s" for arr ns
    using param_name_read [OF ok s that(1)] that(2,3) by simp
  then show ?thesis using False s by (auto simp: bind_parameter_name_impl_def is_interposed_pg_stmt_def Let_def split: option.splits)
qed

lemma mapped_returns:
  assumes ok: "procs_ok extra X" and p: "p = 0 \<or> hm_get (stmts X) p \<noteq> None"
  shows "\<exists>m. mapped_param_index E p k idx X = Some m"
proof (cases "p = 0 \<or> idx \<le> 0")
  case True
  then show ?thesis by (auto simp: mapped_param_index_def)
next
  case False
  with p obtain s where s: "hm_get (stmts X) p = Some s" by auto
  have "\<exists>r. pg_map_param_index E p k idx X = Some r"
  proof (cases "param_names s = None \<or> param_count s \<le> 0")
    case True
    then show ?thesis using False s by (cases "param_names s") (auto simp: pg_map_param_index_def)
  next
    case names: False
    then obtain arr ns where ns: "param_names s = Some (arr, ns)" by auto
    have nm: "\<exists>r. name_at ns j X = Some r" if "j < nat (param_count s)" for j by (rule param_name_read [OF ok s ns that])
    have fn: "\<exists>r. find_name c 0 (nat (param_count s)) ns X = Some r" for c using find_name_returns [of "nat (param_count s)" ns 0 X c] nm by simp
    obtain r where "(if is_pg s \<noteq> 0 \<and> is_cached s = 0 \<and> 0 < idx \<and> idx \<le> param_count s
        then name_at ns (nat (idx - 1)) X else bind_parameter_name_impl E k idx X) = Some r"
      using nm [of "nat (idx - 1)"] parameter_name_returns [OF ok, of E k idx]
      by (cases "is_pg s \<noteq> 0 \<and> is_cached s = 0 \<and> 0 < idx \<and> idx \<le> param_count s") auto
    then show ?thesis using False s ns names fn by (simp add: pg_map_param_index_def Let_def split: option.split)
  qed
  then show ?thesis using False s by (auto simp: mapped_param_index_def)
qed

lemma mapped_index: "mapped_param_index E p k idx X = Some (Some i) \<Longrightarrow> \<exists>s. hm_get (stmts X) p = Some s \<and> i < length (param_values s) \<and> p \<noteq> 0 \<and> 0 < idx"
  by (auto simp: mapped_param_index_def Let_def split: if_splits bind_splits)

lemma mapped_positive: "0 < idx \<Longrightarrow> routed_bind_rc E p k idx X = map_option (\<lambda>m. case m of Some _ \<Rightarrow> SQLITE_OK | None \<Rightarrow> SQLITE_RANGE) (mapped_param_index E p k idx X)"
  by (cases "mapped_param_index E p k idx X") (simp_all add: routed_bind_rc_def)

section \<open>Before the value\<close>

lemma clear_metadata_fields [simp]:
  "owned_blocks (clear_metadata_result_if_needed s) = owned_blocks s" "shape_ok (clear_metadata_result_if_needed s) = shape_ok s"
  "same_holds s (clear_metadata_result_if_needed s)" "stmt_refs (clear_metadata_result_if_needed s) = stmt_refs s"
  "param_values (clear_metadata_result_if_needed s) = param_values s" "param_names (clear_metadata_result_if_needed s) = param_names s"
  "param_count (clear_metadata_result_if_needed s) = param_count s" "is_pg (clear_metadata_result_if_needed s) = is_pg s"
  "is_cached (clear_metadata_result_if_needed s) = is_cached s" "stmt_sql (clear_metadata_result_if_needed s) = stmt_sql s"
  by (simp_all add: clear_metadata_result_if_needed_def owned_blocks_def shape_ok_def same_holds_def marked_params_def safe_param_count_def is_preallocated_buffer_def)

text \<open>The state in which a bind stores its value: that of the call, but for the mark on a metadata-only result and the world.\<close>

definition bind_begun :: "ptr \<Rightarrow> PgStmt option \<Rightarrow> 'w statements \<Rightarrow> 'w statements \<Rightarrow> bool" where
  "bind_begun p sp X X1 \<longleftrightarrow> c_heap X1 = c_heap X \<and> forward X1 = forward X \<and> stmt_rel {p} X X1
     \<and> (if p = 0 then sp = None \<and> stmts X1 = stmts X
        else \<exists>s. hm_get (stmts X) p = Some s \<and> sp = Some (clear_metadata_result_if_needed s) \<and> hm_get (stmts X1) p = sp)"

lemma bind_begun_world [simp]: "bind_begun p sp X (with_world w X1) = bind_begun p sp X X1"
  by (simp add: bind_begun_def)

lemma begun_alive: "bind_begun p sp X X1 \<Longrightarrow> p = 0 \<or> hm_get (stmts X1) p \<noteq> None"
  by (cases "p = 0") (auto simp: bind_begun_def)

lemma begin_ok:
  assumes ok: "procs_ok extra X"
  shows "\<exists>sp X1. begin_bind E t k X = Some (rust_stmt_find_any t k X, sp, X1) \<and> procs_ok extra X1 \<and> bind_begun (rust_stmt_find_any t k X) sp X X1"
proof -
  let ?p = "rust_stmt_find_any t k X"
  have busy: "\<exists>w. ensure_stmt_not_busy E k sp Y = with_world w Y" for sp Y
  proof (cases "should_reset_stmt sp Y \<and> \<not> is_pg_routed_noncached sp")
    case True
    obtain rc w where "call_orig (orig_reset E) k Y = (rc, with_world w Y)" using call_orig_world [of "orig_reset E" k Y] by blast
    then show ?thesis using True by (auto simp: ensure_stmt_not_busy_def)
  next
    case False
    then show ?thesis by (intro exI [of _ "world_of Y"]) (auto simp: ensure_stmt_not_busy_def)
  qed
  show ?thesis
  proof (cases "?p = 0")
    case True
    obtain w where w: "ensure_stmt_not_busy E k None X = with_world w X" using busy by blast
    have "begin_bind E t k X = Some (?p, None, with_world w X)" using True w by (simp add: begin_bind_def stmt_at_def)
    then show ?thesis using True ok stmt_rel_refl [OF procs_okD(1) [OF ok]] by (simp add: bind_begun_def)
  next
    case False
    then obtain s where s: "hm_get (stmts X) ?p = Some s" using find_any_alive [OF ok, of t k ?p] by auto
    note M = stmts_okD [OF procs_okD(1) [OF ok]] and A = stmts_ok_alive [OF procs_okD(1) [OF ok] s]
    let ?s = "clear_metadata_result_if_needed s"
    have "covered (owned_mset ?s + hm_sum owned_mset (hm_remove ?p (stmts X))) (c_heap X)" using M(2) blocks_ok_get [OF M(1) s] by simp
    from put_in_place [OF ok s _ _ _ this, of "world_of X"] A
    have put: "procs_ok extra (put_stmt ?p ?s X)" "stmt_rel {?p} X (put_stmt ?p ?s X)" by (simp_all add: put_stmt_def set_shim_def)
    obtain w where w: "ensure_stmt_not_busy E k (Some ?s) (put_stmt ?p ?s X) = with_world w (put_stmt ?p ?s X)" using busy by blast
    have "begin_bind E t k X = Some (?p, Some ?s, with_world w (put_stmt ?p ?s X))"
      using False s w by (simp add: begin_bind_def stmt_at_def Let_def)
    then show ?thesis using False s put M(1) by (simp add: bind_begun_def put_stmt_def)
  qed
qed

lemma answer_ok:
  assumes ok: "procs_ok extra X1" and p: "p = 0 \<or> hm_get (stmts X1) p \<noteq> None" and dispose: "\<And>Y. \<exists>w. dispose Y = with_world w Y"
  shows "\<exists>rc w. bind_answer E a dispose p sp k idx X1 = Some (rc, with_world w X1) \<and> (is_pg_routed_noncached sp \<longrightarrow> with_world w X1 = dispose X1
    \<and> rc = (case mapped_param_index E p k idx (with_world w X1) of Some (Some _) \<Rightarrow> SQLITE_OK | _ \<Rightarrow> SQLITE_RANGE))"
proof (cases "is_pg_routed_noncached sp")
  case True
  obtain w where w: "dispose X1 = with_world w X1" using dispose by blast
  obtain m where m: "mapped_param_index E p k idx (with_world w X1) = Some m"
    using mapped_returns [of extra "with_world w X1" p E k idx] ok p by auto
  show ?thesis
  proof (cases "idx \<le> 0")
    case pos: True
    then have "m = None" using m mapped_index [of E p k idx "with_world w X1"] by (cases m) auto
    then show ?thesis
      using True w m pos by (intro exI [of _ SQLITE_RANGE] exI [of _ w]) (simp add: bind_answer_def routed_bind_rc_def)
  next
    case False
    then show ?thesis
      using True w m by (intro exI [of _ "case m of Some _ \<Rightarrow> SQLITE_OK | None \<Rightarrow> SQLITE_RANGE"] exI [of _ w]) (simp add: bind_answer_def mapped_positive)
  qed
next
  case False
  obtain rc w where c: "call_bind E a k idx X1 = (rc, with_world w X1)"
    using call_orig_world [of "map_option (\<lambda>f k. f k idx) (orig_bind E a)" k X1] by (auto simp: call_bind_def)
  obtain rc' w' where "retry_bind 3 E a k idx sp (rc, with_world w X1) = (rc', with_world w' X1)"
    using retry_world [of 3 E a k idx sp rc "with_world w X1"] by auto
  then show ?thesis using False c by (cases "rc = SQLITE_MISUSE") (auto simp: bind_answer_def retry_on_misuse_def)
qed

section \<open>What a bind does to its parameter\<close>

text \<open>
  From the state a bind began with to the one it leaves: if the index stands for parameter \<open>i\<close>,
  that parameter alone is changed, and it is sent as \<open>r\<close> when there was memory for it; if not, nothing is.
\<close>

definition param_bound :: "'w stmt_lib \<Rightarrow> ptr \<Rightarrow> nat option \<Rightarrow> string option \<Rightarrow> 'w statements \<Rightarrow> 'w statements \<Rightarrow> bool" where
  "param_bound E p m r X1 X' \<longleftrightarrow>
     (case m of
        None \<Rightarrow> X' = X1
      | Some i \<Rightarrow> \<exists>s s'. hm_get (stmts X1) p = Some s \<and> hm_get (stmts X') p = Some s' \<and> i < length (param_values s) \<and> param_only i s s'
          \<and> (has_memory E \<longrightarrow> param_text s' (c_heap X') i = r)
          \<and> (\<forall>j < length (param_values s). j \<noteq> i \<longrightarrow> param_text s' (c_heap X') j = param_text s (c_heap X1) j))"

definition bind_rest ::
  "'w stmt_lib \<Rightarrow> bind_arg \<Rightarrow> ('w statements \<Rightarrow> 'w statements) \<Rightarrow> 'w store \<Rightarrow> ptr \<Rightarrow> PgStmt option \<Rightarrow> ptr \<Rightarrow> int \<Rightarrow> 'w statements \<Rightarrow> (int \<times> 'w statements) option" where
  "bind_rest E a dispose store p sp k idx X =
     do {
       (rc, X) \<leftarrow> bind_answer E a dispose p sp k idx X;
       X \<leftarrow> store_param E p k idx store X;
       Some (rc, X)
     }"

context param_store
begin

lemma store_param_keeps:
  assumes lib: "allocs_fresh E" and ok: "procs_ok extra X" and m: "mapped_param_index E p k idx X = Some m" and run: "store_param E p k idx store X = Some X'"
  shows "procs_ok extra X' \<and> stmt_rel {p} X X' \<and> param_bound E p m (sends (world_of X)) X X'"
proof (cases m)
  case None
  then show ?thesis using m run ok stmt_rel_refl [OF procs_okD(1) [OF ok]] by (simp add: store_param_def param_bound_def)
next
  case (Some i)
  then obtain s where s: "hm_get (stmts X) p = Some s" "i < length (param_values s)" using mapped_index m by blast
  note M = stmts_okD [OF procs_okD(1) [OF ok]] and A = stmts_ok_alive [OF procs_okD(1) [OF ok] s(1)]
  let ?M = "hm_sum owned_mset (hm_remove p (stmts X))"
  have cov: "covered (owned_mset s + ?M) (c_heap X)" using M(2) blocks_ok_get [OF M(1) s(1)] by simp
  have shape: "shape_ok s" using A by simp
  obtain s' B' w' where r: "store i s (c_heap X) (world_of X) = Some (s', B', w')" "X' = (put_stmt p s' (with_world w' X))\<lparr>c_heap := B'\<rparr>"
    using run m Some s(1) by (auto simp: store_param_def split: bind_splits)
  have st: "store_ok i s (c_heap X) s' B' ?M" and sent: "has_memory E \<longrightarrow> param_text s' B' i = sends (world_of X)"
    using store_keeps [OF lib cov shape s(2) r(1)] by blast+
  then have only: "param_only i s s'" and cov': "covered (owned_mset s' + ?M) B'"
      and far: "\<And>a. a \<notin> territory s i \<Longrightarrow> c_heap X a \<noteq> None \<Longrightarrow> B' a = c_heap X a" by (auto simp: store_ok_def)
  note P = param_onlyD [OF only]
  have "procs_ok extra X'" "stmt_rel {p} X X'"
    using put_in_place [OF ok s(1) P(9) _ P(2) cov', of w'] P(1) shape by (simp_all add: r(2) with_world_def)
  moreover have "param_text s' B' j = param_text s (c_heap X) j" if "j < length (param_values s)" "j \<noteq> i" for j
    by (rule param_text_other [OF cov shape s(2) that only far])
  ultimately show ?thesis using Some s only sent M(1) by (auto simp: param_bound_def r(2) put_stmt_def)
qed

lemma store_param_returns:
  assumes lib: "allocs_fresh E" and ok: "procs_ok extra X" and m: "mapped_param_index E p k idx X = Some m" and rd: "readable (world_of X)"
  shows "\<exists>X'. store_param E p k idx store X = Some X'"
proof (cases m)
  case None
  then show ?thesis using m by (simp add: store_param_def)
next
  case (Some i)
  then obtain s where s: "hm_get (stmts X) p = Some s" "i < length (param_values s)" using mapped_index m by blast
  note M = stmts_okD [OF procs_okD(1) [OF ok]] and A = stmts_ok_alive [OF procs_okD(1) [OF ok] s(1)]
  have "covered (owned_mset s + hm_sum owned_mset (hm_remove p (stmts X))) (c_heap X)" using M(2) blocks_ok_get [OF M(1) s(1)] by simp
  then have "store i s (c_heap X) (world_of X) \<noteq> None" using store_returns [OF lib _ _ s(2) rd] A by blast
  then show ?thesis using m Some s(1) by (auto simp: store_param_def)
qed

text \<open>The answer and the store, after which a bind is done.\<close>

lemma rest_keeps:
  assumes lib: "allocs_fresh E" and ok: "procs_ok extra X1" and p: "p = 0 \<or> hm_get (stmts X1) p \<noteq> None" and dispose: "\<And>Y. \<exists>w. dispose Y = with_world w Y"
    and run: "bind_rest E a dispose store p sp k idx X1 = Some (rc, X')"
  shows "procs_ok extra X' \<and> stmt_rel {p} X1 X'
    \<and> (is_pg_routed_noncached sp \<longrightarrow> (\<exists>m. mapped_param_index E p k idx (dispose X1) = Some m
         \<and> rc = (if m = None then SQLITE_RANGE else SQLITE_OK) \<and> param_bound E p m (sends (world_of (dispose X1))) (dispose X1) X'))"
proof -
  obtain rc1 w where ans: "bind_answer E a dispose p sp k idx X1 = Some (rc1, with_world w X1)"
      "is_pg_routed_noncached sp \<longrightarrow> with_world w X1 = dispose X1
        \<and> rc1 = (case mapped_param_index E p k idx (with_world w X1) of Some (Some _) \<Rightarrow> SQLITE_OK | _ \<Rightarrow> SQLITE_RANGE)"
    using answer_ok [OF ok p dispose, of E a sp k idx] by blast
  have ok2: "procs_ok extra (with_world w X1)" using ok by simp
  obtain m where m: "mapped_param_index E p k idx (with_world w X1) = Some m"
    using mapped_returns [OF ok2, of p E k idx] p by auto
  have run2: "store_param E p k idx store (with_world w X1) = Some X'" "rc = rc1"
    using run ans(1) by (auto simp: bind_rest_def split: bind_splits)
  note K = store_param_keeps [OF lib ok2 m run2(1)]
  have "\<exists>m. mapped_param_index E p k idx (dispose X1) = Some m \<and> rc = (if m = None then SQLITE_RANGE else SQLITE_OK)
      \<and> param_bound E p m (sends (world_of (dispose X1))) (dispose X1) X'" if "is_pg_routed_noncached sp"
  proof -
    have d: "dispose X1 = with_world w X1" using ans(2) that by simp
    show ?thesis using K ans(2) m run2(2) that unfolding d by (intro exI [of _ m]) (auto split: option.splits)
  qed
  then show ?thesis using K by simp
qed

lemma rest_returns:
  assumes lib: "allocs_fresh E" and ok: "procs_ok extra X1" and p: "p = 0 \<or> hm_get (stmts X1) p \<noteq> None" and dispose: "\<And>Y. \<exists>w. dispose Y = with_world w Y"
    and rd: "\<And>w. readable w"
  shows "\<exists>rc X'. bind_rest E a dispose store p sp k idx X1 = Some (rc, X')"
proof -
  obtain rc1 w where ans: "bind_answer E a dispose p sp k idx X1 = Some (rc1, with_world w X1)"
    using answer_ok [OF ok p dispose, of E a sp k idx] by blast
  have ok2: "procs_ok extra (with_world w X1)" using ok by simp
  obtain m where m: "mapped_param_index E p k idx (with_world w X1) = Some m"
    using mapped_returns [OF ok2, of p E k idx] p by auto
  show ?thesis using store_param_returns [OF lib ok2 m rd] ans by (auto simp: bind_rest_def)
qed

end

section \<open>The nine binds\<close>

fun bind_tail :: "'w stmt_lib \<Rightarrow> ptr \<Rightarrow> PgStmt option \<Rightarrow> ptr \<Rightarrow> int \<Rightarrow> bind_request \<Rightarrow> 'w statements \<Rightarrow> (int \<times> 'w statements) option" where
  "bind_tail E p sp k idx (RInt v) X = bind_rest E (BindInt v) id (store_number (show_int v)) p sp k idx X"
| "bind_tail E p sp k idx (RInt64 v) X = bind_rest E (BindInt64 v) id (store_number (show_int v)) p sp k idx X"
| "bind_tail E p sp k idx (RDouble v) X = bind_rest E (BindDouble v) id (store_number (format_g17 E v)) p sp k idx X"
| "bind_tail E p sp k idx (RText v n d) X =
     do {
       u \<leftarrow> intercept_uuid E sp k idx v (text_len n) X;
       let src = (case u of None \<Rightarrow> Host v | Some r \<Rightarrow> Own r);
       let n = (case u of None \<Rightarrow> n | Some r \<Rightarrow> int (length r));
       _ \<leftarrow> log_bind_text E sp src (text_len n) X;
       bind_rest E (BindText src n d) (dispose_of E src d) (store_text E src (text_len n)) p sp k idx X
     }"
| "bind_tail E p sp k idx (RText64 v n d enc) X =
     do {
       u \<leftarrow> intercept_uuid E sp k idx v (text_len64 n) X;
       let src = (case u of None \<Rightarrow> Host v | Some r \<Rightarrow> Own r);
       let n = (case u of None \<Rightarrow> n | Some r \<Rightarrow> of_nat (length r));
       bind_rest E (BindText64 src n d enc) (dispose_of E src d) (store_text E src (text_len64 n)) p sp k idx X
     }"
| "bind_tail E p sp k idx (RBlob v n d) X = bind_rest E (BindBlob v n d) (dispose_of E (Host v) d) (store_blob E v (as_usize n)) p sp k idx X"
| "bind_tail E p sp k idx (RBlob64 v n d) X = bind_rest E (BindBlob64 v n d) (dispose_of E (Host v) d) (store_blob E v (unat n)) p sp k idx X"
| "bind_tail E p sp k idx (RValue v a) X =
     (if v = 0 then bind_answer E (BindValue v) id p sp k idx X else bind_rest E (BindValue v) id (store_sqlite_value_param E a) p sp k idx X)"
| "bind_tail E p sp k idx RNull X = bind_rest E BindNull id store_null p sp k idx X"

lemma bind_same: "(m \<bind> (\<lambda>r. Some r)) = m"
  by (cases m) simp_all

lemma sqlite3_bind_tail: "sqlite3_bind E t k idx r X = do { (p, sp, X) \<leftarrow> begin_bind E t k X; bind_tail E p sp k idx r X }"
proof -
  have split: "(case u of None \<Rightarrow> (a, b) | Some r \<Rightarrow> (f r, g r)) = (case u of None \<Rightarrow> a | Some r \<Rightarrow> f r, case u of None \<Rightarrow> b | Some r \<Rightarrow> g r)" for u a b f g
    by (cases u) simp_all
  show ?thesis
  proof (cases r)
    case (RValue v a)
    then show ?thesis by (cases "v = 0") (simp_all add: bind_value_impl_def bind_rest_def bind_same case_prod_unfold)
  qed (simp_all add: bind_int_impl_def bind_int64_impl_def bind_double_impl_def bind_text_impl_def bind_text64_impl_def bind_blob_impl_def
      bind_blob64_impl_def bind_null_impl_def bind_rest_def split Let_def case_prod_unfold)
qed

lemma id_world: "\<exists>w. id Y = with_world w Y"
  by (intro exI [of _ "world_of Y"]) simp

lemma dispose_world: "\<exists>w. dispose_of E src d Y = with_world w Y"
proof (cases "src = Host 0 \<or> d = 0 \<or> d = 2 ^ 64 - 1")
  case True
  then show ?thesis by (intro exI [of _ "world_of Y"]) (auto simp: dispose_of_def invoke_destructor_if_custom_def)
qed (auto simp: dispose_of_def invoke_destructor_if_custom_def)

lemma tail_keeps:
  assumes lib: "allocs_fresh E" and ok: "procs_ok extra X1" and p: "p = 0 \<or> hm_get (stmts X1) p \<noteq> None" and run: "bind_tail E p sp k idx r X1 = Some (rc, X')"
  shows "procs_ok extra X' \<and> stmt_rel {p} X1 X'"
proof (cases r)
  case (RText v n d)
  then show ?thesis using run text_bind.rest_keeps [OF lib ok p dispose_world] by (auto simp: Let_def split: bind_splits)
next
  case (RText64 v n d enc)
  then show ?thesis using run text_bind.rest_keeps [OF lib ok p dispose_world] by (auto simp: Let_def split: bind_splits)
next
  case (RValue v a)
  show ?thesis
  proof (cases "v = 0")
    case True
    then have a: "bind_answer E (BindValue v) id p sp k idx X1 = Some (rc, X')" using run RValue by simp
    obtain rc1 w where "bind_answer E (BindValue v) id p sp k idx X1 = Some (rc1, with_world w X1)"
      using answer_ok [OF ok p id_world, of E "BindValue v" sp k idx] by blast
    with a have "X' = with_world w X1" by simp
    then show ?thesis using ok stmt_rel_refl [OF procs_okD(1) [OF ok]] by simp
  next
    case False
    then have "bind_rest E (BindValue v) id (store_sqlite_value_param E a) p sp k idx X1 = Some (rc, X')" using run RValue by simp
    from value_bind.rest_keeps [OF lib ok p id_world this] show ?thesis by blast
  qed
next
  case RNull
  with run have "bind_rest E BindNull id store_null p sp k idx X1 = Some (rc, X')" by (simp only: bind_tail.simps)
  from null.rest_keeps [OF lib ok p id_world this] show ?thesis by blast
next
  case (RBlob v n d)
  then show ?thesis using run blob_bind.rest_keeps [OF lib ok p dispose_world] by auto
next
  case (RBlob64 v n d)
  then show ?thesis using run blob_bind.rest_keeps [OF lib ok p dispose_world] by auto
next
  case (RInt v)
  with run have "bind_rest E (BindInt v) id (store_number (show_int v)) p sp k idx X1 = Some (rc, X')" by (simp only: bind_tail.simps)
  from number.rest_keeps [OF lib ok p id_world this] show ?thesis by blast
next
  case (RInt64 v)
  with run have "bind_rest E (BindInt64 v) id (store_number (show_int v)) p sp k idx X1 = Some (rc, X')" by (simp only: bind_tail.simps)
  from number.rest_keeps [OF lib ok p id_world this] show ?thesis by blast
next
  case (RDouble v)
  with run have "bind_rest E (BindDouble v) id (store_number (format_g17 E v)) p sp k idx X1 = Some (rc, X')" by (simp only: bind_tail.simps)
  from number.rest_keeps [OF lib ok p id_world this] show ?thesis by blast
qed

lemma bind_keeps:
  assumes lib: "allocs_fresh E" and ok: "procs_ok extra X" and run: "sqlite3_bind E t k idx r X = Some (rc, X')"
  shows "procs_ok extra X' \<and> host_kept X X' \<and> tables_same X X' \<and> (\<forall>q. q \<noteq> rust_stmt_find_any t k X \<longrightarrow> hm_get (stmts X') q = hm_get (stmts X) q)"
proof -
  let ?p = "rust_stmt_find_any t k X"
  obtain sp X1 where b: "begin_bind E t k X = Some (?p, sp, X1)" "procs_ok extra X1" "bind_begun ?p sp X X1" using begin_ok [OF ok] by blast
  have p: "?p = 0 \<or> hm_get (stmts X1) ?p \<noteq> None" by (rule begun_alive [OF b(3)])
  have "bind_tail E ?p sp k idx r X1 = Some (rc, X')" using run b(1) by (simp add: sqlite3_bind_tail)
  from tail_keeps [OF lib b(2) p this] have t: "procs_ok extra X'" "stmt_rel {?p} X1 X'" by simp_all
  have "stmt_rel {?p} X X1" using b(3) by (simp add: bind_begun_def)
  then have "stmt_rel {?p} X X'" using t(2) by (auto simp: stmt_rel_def tables_same_def elim: host_same_trans)
  then show ?thesis using t(1) by (simp add: stmt_rel_def)
qed

end
