(* ===== verification/Stmt_Process.thy ===== *)
theory Stmt_Process
  imports Bind_Sound
begin

text \<open>
  The process as a whole: the statements, the connections under them and the handles of SQLite,
  under calls of many threads in any order. A step relation has one rule per entry point; in
  every state it reaches, each statement object has exactly the references the tables and the
  callers hold, each block of the C heap at most one owner, and each connection exactly the
  references of the pool, the registry and the statements.
\<close>

section \<open>Giving back many references\<close>

lemma unref_all_ok:
  assumes "streams_finite L" "stmts_ok R X" "\<And>p. count_list ps p \<le> R p"
  shows "returns (unref_all L ps X) (\<lambda>X'. stmts_ok (\<lambda>p. R p - count_list ps p) X' \<and> tables_same X X' \<and> host_kept X X')"
  using assms(2,3)
proof (induction ps arbitrary: R X)
  case Nil
  then show ?case using host_same_refl stmts_okD(3,4) [OF Nil(1)] by (simp add: tables_same_def)
next
  case (Cons p ps)
  have p: "0 < R p" using Cons.prems(2) [of p] by simp
  obtain X1 where X1: "rust_stmt_unref L p X = Some X1" "stmts_ok (R(p := R p - 1)) X1" "stmt_rel {p} X X1"
    using returnsD [OF stmt_unref_ok [OF assms(1) Cons.prems(1) p]] by blast
  have le: "count_list ps q \<le> (R(p := R p - 1)) q" for q using Cons.prems(2) [of q] by (auto split: if_splits)
  obtain X2 where X2: "unref_all L ps X1 = Some X2" "stmts_ok (\<lambda>q. (R(p := R p - 1)) q - count_list ps q) X2" "tables_same X1 X2" "host_kept X1 X2"
    using returnsD [OF Cons.IH [OF X1(2) le]] by blast
  have "(\<lambda>q. (R(p := R p - 1)) q - count_list ps q) = (\<lambda>q. R q - count_list (p # ps) q)" by (auto simp: fun_eq_iff)
  moreover have "tables_same X X2" using X1(3) X2(3) by (simp add: stmt_rel_def tables_same_def)
  moreover have "host_kept X X2" using X1(3) X2(4) by (auto simp: stmt_rel_def elim: host_same_trans)
  ultimately show ?case using X1(1) X2(1,2) by simp
qed

text \<open>A thread's end: its cache gives its references back, unless the cache is switched off.\<close>

definition thread_exit_extra :: "tid \<Rightarrow> 'w statements \<Rightarrow> (ptr \<Rightarrow> nat) \<Rightarrow> ptr \<Rightarrow> nat" where
  "thread_exit_extra t X extra p = (if stmt_cache_disabled X then extra p + count_list (map snd (tls_of t X)) p else extra p)"

lemma thread_exit_ok:
  assumes fin: "streams_finite L" and ok: "procs_ok extra X"
  shows "returns (ThreadCachedStmts_drop L t X) (\<lambda>X'. procs_ok (thread_exit_extra t X extra) X' \<and> host_kept X X')"
proof -
  note D = procs_okD [OF ok]
  let ?X = "set_tls t [] X" and ?n = "\<lambda>p. count_list (map snd (tls_of t X)) p"
  have refs: "tls_refs ?X p + ?n p = tls_refs X p" for p using tls_refs_set [OF D(3), of t "[]" p] by simp
  have st: "stmts_ok (account extra X) ?X" using D(1) stmts_ok_tables [of ?X X] by simp
  have off: "stmt_cache_disabled ?X = stmt_cache_disabled X" by (simp add: stmt_cache_disabled_def)
  show ?thesis
  proof (cases "stmt_cache_disabled X")
    case True
    let ?e = "thread_exit_extra t X extra"
    have "account ?e ?X = account extra X" using refs True by (auto simp: account_def thread_exit_extra_def reg_refs_def fun_eq_iff)
    moreover have "tls_refs ?X q \<le> ?e q" for q using refs [of q] D(5) [of q] by (simp add: thread_exit_extra_def)
    ultimately have "procs_ok ?e ?X" using st D(2-4) by (simp add: procs_ok_def reverse_ok_def)
    then show ?thesis using True off host_same_refl stmts_okD(3,4) [OF D(1)] by (simp add: ThreadCachedStmts_drop_def Let_def)
  next
    case False
    have "?n q \<le> account extra X q" for q using refs [of q] by (simp add: account_def)
    from returnsD [OF unref_all_ok [OF fin st this]]
    obtain X' where X': "unref_all L (map snd (tls_of t X)) ?X = Some X'" "stmts_ok (\<lambda>p. account extra X p - ?n p) X'" "tables_same ?X X'" "host_kept ?X X'"
      by blast
    have "account extra X q - ?n q = account extra X' q" for q
      using refs [of q] X'(3) by (simp add: account_def reg_refs_def tls_refs_def tables_same_def)
    moreover have "tls_refs X' q \<le> extra q" for q using refs [of q] D(5) [of q] X'(3) by (simp add: tls_refs_def tables_same_def)
    ultimately have "procs_ok extra X'" using X'(2,3) D(2-4) by (simp add: procs_ok_def tables_same_def reverse_ok_def)
    moreover have "thread_exit_extra t X extra = extra" using False by (simp add: thread_exit_extra_def fun_eq_iff)
    ultimately show ?thesis using X'(1,4) False off by (simp add: ThreadCachedStmts_drop_def Let_def)
  qed
qed

lemma registry_cleanup_ok:
  assumes fin: "streams_finite L" and ok: "procs_ok extra X"
  shows "returns (rust_stmt_registry_cleanup L X) (\<lambda>X'. procs_ok extra X' \<and> host_kept X X' \<and> forward X' = [])"
proof -
  note D = procs_okD [OF ok]
  let ?X = "X\<lparr>forward := [], reverse := []\<rparr>"
  have st: "stmts_ok (account extra X) ?X" using D(1) stmts_ok_tables [of ?X X] by simp
  have "count_list (hm_values (forward X)) q \<le> account extra X q" for q by (simp add: account_def reg_refs_def)
  from returnsD [OF unref_all_ok [OF fin st this]]
  obtain X' where X': "unref_all L (hm_values (forward X)) ?X = Some X'"
      "stmts_ok (\<lambda>p. account extra X p - count_list (hm_values (forward X)) p) X'" "tables_same ?X X'" "host_kept ?X X'"
    by blast
  have "account extra X q - count_list (hm_values (forward X)) q = account extra X' q" for q
    using X'(3) by (simp add: account_def reg_refs_def tls_refs_def tables_same_def hm_values_def)
  moreover have "tls_refs X' q \<le> extra q" for q using D(5) [of q] X'(3) by (simp add: tls_refs_def tables_same_def)
  ultimately have "procs_ok extra X'" using X'(2,3) D(2-4) by (simp add: procs_ok_def tables_same_def reverse_ok_def)
  then show ?thesis using X' by (simp add: rust_stmt_registry_cleanup_def tables_same_def)
qed

section \<open>A statement and its connections\<close>

text \<open>A call of one of the three setters on a statement object (\<open>(*stmt).set_conn(c)\<close> and the like).\<close>

definition call_setter ::
  "(ptr \<Rightarrow> PgStmt \<Rightarrow> 'w shim \<Rightarrow> (PgStmt \<times> 'w shim) option) \<Rightarrow> ptr \<Rightarrow> ptr \<Rightarrow> 'w statements \<Rightarrow> 'w statements option" where
  "call_setter f p c X = do { s \<leftarrow> hm_get (stmts X) p; (s, S) \<leftarrow> f c s (shim_of X); Some (put_stmt p s (set_shim S X)) }"

lemma call_setter_ok:
  assumes ok: "procs_ok extra X" and s: "hm_get (stmts X) p = Some s" and c: "c = 0 \<or> heap (shim_of X) c \<noteq> None"
    and f: "f \<in> {set_conn, set_result_conn, set_streaming_conn}"
  shows "returns (call_setter f p c X) (\<lambda>X'. procs_ok extra X' \<and> host_kept X X' \<and> tables_same X X')"
proof -
  note D = procs_okD [OF ok] and M = stmts_okD [OF procs_okD(1) [OF ok]] and A = stmts_ok_alive [OF procs_okD(1) [OF ok] s]
  let ?m = "hm_remove p (stmts X)"
  have host: "pool_ok (hold_with ?m s) (shim_of X)" using M(3) hold_of_get [OF M(1) s] by simp
  obtain s' S where run: "f c s (shim_of X) = Some (s', S)" "host_same (hold_with ?m s') (shim_of X) S"
      and upd: "s' \<in> {s\<lparr>stmt_conn := c\<rparr>, s\<lparr>result_conn := c\<rparr>, s\<lparr>streaming_conn := c\<rparr>}"
    using f returnsD [OF set_conn_ok(1) [OF host M(4) c]] returnsD [OF set_conn_ok(2) [OF host M(4) c]] returnsD [OF set_conn_ok(3) [OF host M(4) c]] by auto
  have same: "stmt_refs s' = stmt_refs s" "shape_ok s' = shape_ok s" "owned_blocks s' = owned_blocks s"
    using upd by (auto simp: shape_ok_def owned_blocks_def marked_params_def safe_param_count_def is_preallocated_buffer_def)
  let ?X = "put_stmt p s' (set_shim S X)"
  have blk: "covered (owned_mset s' + hm_sum owned_mset ?m) (c_heap ?X)" using M(2) blocks_ok_get [OF M(1) s] by (simp add: same)
  have "stmts_ok ((account extra X)(p := account extra X p)) ?X \<and> stmt_rel {p} X ?X"
    using A run(2) blk by (intro stmts_ok_put [OF D(1)]) (simp_all add: same tables_same_def)
  moreover have "account extra ?X = account extra X" by (rule account_cong) simp_all
  ultimately have "procs_ok extra ?X" "stmt_rel {p} X ?X"
    using procs_ok_stmt_rel [OF ok, of extra ?X] D(5) by (auto simp: stmt_rel_def)
  then show ?thesis using s run(1) by (simp add: call_setter_def stmt_rel_def)
qed

section \<open>A statement answered from the cache\<close>

lemma translated_text:
  assumes ok: "procs_ok extra X" and s: "hm_get (stmts X) p = Some s" "stmt_pg_sql s = 0" and lib: "allocs_fresh E"
    and q: "c_strdup E r (c_heap X) w = (q, w', B)" and s': "s' = s\<lparr>stmt_pg_sql := q, is_pg := 2, is_cached := 1\<rparr>"
  shows "covered (owned_mset s' + hm_sum owned_mset (hm_remove p (stmts X))) B"
proof -
  note M = stmts_okD [OF procs_okD(1) [OF ok]]
  let ?m = "hm_remove p (stmts X)"
  have cov: "covered (owned_mset s + hm_sum owned_mset ?m) (c_heap X)" using M(2) blocks_ok_get [OF M(1) s(1)] by simp
  have "set (owned_blocks s) - {0} \<subseteq> dom (c_heap X)" using covered_free(1) [OF cov] by (simp add: freeable_def)
  then have "stmt_sql s = 0 \<or> c_heap X (stmt_sql s) \<noteq> None" by (auto simp: owned_blocks_def)
  then have "q = 0 \<or> q \<noteq> stmt_sql s" using c_strdup_ok(2) [OF lib cov q] by auto
  then have "owned_mset s' = mset (filter (\<lambda>p. p \<noteq> 0) [q]) + owned_mset s"
    using s(2) by (auto simp: s' owned_blocks_def marked_params_def safe_param_count_def is_preallocated_buffer_def)
  then show ?thesis using c_strdup_ok(1) [OF lib cov q] by (simp add: ac_simps)
qed

definition prepare_extra :: "ptr \<Rightarrow> ptr \<Rightarrow> (ptr \<Rightarrow> nat) \<Rightarrow> ptr \<Rightarrow> nat" where
  "prepare_extra cached_ptr p extra = (if cached_ptr \<noteq> 0 \<or> p = 0 then extra else extra(p := Suc (extra p)))"

lemma cached_register_ok:
  assumes fin: "streams_finite L" and ok: "procs_ok extra X" and s: "hm_get (stmts X) p = Some s" and fresh: "tls_refs X p = 0" "0 < extra p"
  shows "returns (rust_cached_stmt_register L t k p X) (\<lambda>X'. procs_ok extra X' \<and> host_kept X X')"
proof (cases "k = 0 \<or> p = 0 \<or> stmt_cache_disabled X")
  case True
  then show ?thesis
    using ok proc_rel_refl [OF ok] by (auto simp: rust_cached_stmt_register_def proc_rel_def)
next
  case False
  then show ?thesis
    using returns_weaken [OF tls_register_ok [OF fin ok s fresh]] by (simp add: rust_cached_stmt_register_def)
qed

lemma cached_prepare_ok:
  assumes lib: "libs_ok L E" and ok: "procs_ok extra X" and conn: "conn = 0 \<or> heap (shim_of X) conn \<noteq> None"
  shows "returns (rust_step_cached_read_prepare_stmt L E t c conn sql k tr X) (\<lambda>(p, X'). procs_ok (prepare_extra c p extra) X' \<and> host_kept X X')"
proof -
  have kept: "host_kept X X" using proc_rel_refl [OF ok] by (simp add: proc_rel_def)
  have L: "streams_finite L" "allocs_fresh E" using lib by (simp_all add: libs_ok_def)
  show ?thesis
  proof (cases "c = 0 \<and> conn \<noteq> 0 \<and> k \<noteq> 0 \<and> sql \<noteq> None \<and> tr \<noteq> None")
    case False
    then show ?thesis
      using ok kept by (auto simp: rust_step_cached_read_prepare_stmt_def prepare_extra_def split: option.splits)
  next
    case True
    then obtain r where r: "tr = Some r" "sql \<noteq> None" by blast
    obtain p X1 s where X1: "rust_stmt_create E conn sql k X = Some (p, X1)" "procs_ok (extra(p := Suc (extra p))) X1" "host_kept X X1"
        "tls_stmts X1 = tls_stmts X" "hm_get (stmts X) p = None" and s: "hm_get (stmts X1) p = Some s" "stmt_pg_sql s = 0"
      using returnsD [OF create_ok [OF L(2) ok conn, of sql k]] by auto
    obtain q w B where q: "c_strdup E r (c_heap X1) (world (shim_of X1)) = (q, w, B)" by (metis prod_cases3)
    let ?e = "extra(p := Suc (extra p))" and ?s = "s\<lparr>stmt_pg_sql := q, is_pg := 2, is_cached := 1\<rparr>"
    let ?X = "(put_stmt p ?s (set_shim ((shim_of X1)\<lparr>world := w\<rparr>) X1))\<lparr>c_heap := B\<rparr>"
    note A = stmts_ok_alive [OF procs_okD(1) [OF X1(2)] s(1)]
    have "safe_param_count ?s = safe_param_count s" by (simp add: safe_param_count_def)
    then have "shape_ok ?s" using A by (simp add: shape_ok_def)
    moreover have "same_holds s ?s" by (simp add: same_holds_def)
    ultimately have X2: "procs_ok ?e ?X" "stmt_rel {p} X1 ?X"
      using put_in_place [OF X1(2) s(1) _ _ _ translated_text [OF X1(2) s L(2) q refl], of w] by simp_all
    have "account extra X p = 0" using stmts_ok_none [OF procs_okD(1) [OF ok], of p] X1(5) by simp
    then have t0: "tls_refs ?X p = 0" using X1(4) by (simp add: account_def tls_refs_def)
    obtain X3 where X3: "rust_cached_stmt_register L t k p ?X = Some X3" "procs_ok ?e X3" "host_kept ?X X3"
      using returnsD [OF cached_register_ok [OF L(1) X2(1), of p ?s t k]] t0 by auto
    have kept2: "host_kept X1 ?X" using X2(2) unfolding stmt_rel_def by blast
    have "host_kept X X3" by (rule host_same_trans [OF host_same_trans [OF X1(3) kept2] X3(3)])
    moreover have "p \<noteq> 0" using A by simp
    ultimately show ?thesis
      using True r X1(1) s(1) q X3(1,2) by (auto simp: rust_step_cached_read_prepare_stmt_def prepare_extra_def put_stmt_heap)
  qed
qed

section \<open>The process\<close>

text \<open>
  A process is its state together with the references to statements that no table has: those of
  the code that runs. A step is one call, by a thread, of one entry point.
\<close>

type_synonym 'w process = "(ptr \<Rightarrow> nat) \<times> 'w statements"

inductive process_step :: "'w host_lib \<Rightarrow> 'w libpq \<Rightarrow> 'w stmt_lib \<Rightarrow> 'w process \<Rightarrow> tid \<times> ptr \<Rightarrow> 'w process \<Rightarrow> bool" for Q L E where
  stmt_create: "rust_stmt_create E conn sql k X = Some (p, X') \<Longrightarrow> conn = 0 \<or> heap (shim_of X) conn \<noteq> None \<Longrightarrow>
    process_step Q L E (extra, X) (t, k) (extra(p := Suc (extra p)), X')"
| stmt_register: "k \<noteq> 0 \<Longrightarrow> p \<noteq> 0 \<Longrightarrow> tls_refs X p < extra p \<Longrightarrow>
    process_step Q L E (extra, X) (t, k) (register_extra k p X extra, rust_stmt_register k p X)"
| stmt_prepare: "rust_step_cached_read_prepare_stmt L E t c conn sql k tr X = Some (p, X') \<Longrightarrow> conn = 0 \<or> heap (shim_of X) conn \<noteq> None \<Longrightarrow>
    process_step Q L E (extra, X) (t, k) (prepare_extra c p extra, X')"
| stmt_note: "process_step Q L E (extra, X) (t, k) (extra, note_stmt_prepare_impl E t k sql X)"
| stmt_reset: "reset_impl L E t k X = Some (rc, X') \<Longrightarrow> process_step Q L E (extra, X) (t, k) (extra, X')"
| stmt_clear: "clear_bindings_impl L E t k X = Some (rc, X') \<Longrightarrow> process_step Q L E (extra, X) (t, k) (extra, X')"
| stmt_bind: "sqlite3_bind E t k idx r X = Some (rc, X') \<Longrightarrow> process_step Q L E (extra, X) (t, k) (extra, X')"
| stmt_finalize: "finalize_impl L E t k X = Some (rc, X') \<Longrightarrow>
    process_step Q L E (extra, X) (t, k) (if taken_twice E t k X then extra else finalize_extra t k X extra, X')"
| stmt_ref: "rust_stmt_ref p X = Some X' \<Longrightarrow> hm_get (stmts X) p \<noteq> None \<Longrightarrow> process_step Q L E (extra, X) (t, k) (extra(p := Suc (extra p)), X')"
| stmt_unref: "rust_stmt_unref L p X = Some X' \<Longrightarrow> tls_refs X p < extra p \<Longrightarrow> process_step Q L E (extra, X) (t, k) (extra(p := extra p - 1), X')"
| stmt_rebind: "call_setter f p c X = Some X' \<Longrightarrow> f \<in> {set_conn, set_result_conn, set_streaming_conn} \<Longrightarrow> hm_get (stmts X) p \<noteq> None \<Longrightarrow>
    c = 0 \<or> heap (shim_of X) c \<noteq> None \<Longrightarrow> process_step Q L E (extra, X) (t, k) (extra, X')"
| thread_exit: "ThreadCachedStmts_drop L t X = Some X' \<Longrightarrow> process_step Q L E (extra, X) (t, k) (thread_exit_extra t X extra, X')"
| stmts_cleanup: "rust_stmt_registry_cleanup L X = Some X' \<Longrightarrow> process_step Q L E (extra, X) (t, k) (extra, X')"
| scope_enter: "process_step Q L E (extra, X) (t, db) (extra, snd (ConnScope_enter t db X))"
| scope_leave: "process_step Q L E (extra, X) (t, db) (extra, ConnScope_drop t prev X)"
| host_call: "session_step Q L (hold_of (stmts X), stmt_host X) x (hold_of (stmts X), H') \<Longrightarrow>
    process_step Q L E (extra, X) x (extra, X\<lparr>stmt_host := H'\<rparr>)"

inductive process :: "'w host_lib \<Rightarrow> 'w libpq \<Rightarrow> 'w stmt_lib \<Rightarrow> 'w process \<Rightarrow> (tid \<times> ptr) list \<Rightarrow> 'w process \<Rightarrow> bool" for Q L E where
  process_start: "process Q L E s [] s"
| process_next: "process Q L E s xs s1 \<Longrightarrow> process_step Q L E s1 x s' \<Longrightarrow> process Q L E s (xs @ [x]) s'"

definition process_ok :: "nat \<Rightarrow> 'w process \<Rightarrow> bool" where
  "process_ok pid = (\<lambda>(extra, X). procs_ok extra X \<and> init_pid (pm (shim_of X)) \<in> {0, pid})"

text \<open>The rules of the step, by what their calls have been shown to do.\<close>

lemma process_okI: "process_ok pid (extra, X) \<Longrightarrow> procs_ok extra' X' \<Longrightarrow> host_kept X X' \<Longrightarrow> process_ok pid (extra', X')"
  by (auto simp: process_ok_def host_same_def host_rel_def)

lemma process_ok_same: "process_ok pid (extra, X) \<Longrightarrow> procs_ok extra' X' \<Longrightarrow> stmt_host X' = stmt_host X \<Longrightarrow> process_ok pid (extra', X')"
  by (simp add: process_ok_def)

lemma stmt_ref_step:
  assumes ok: "procs_ok extra X" and p: "0 < account extra X p"
  shows "returns (rust_stmt_ref p X) (\<lambda>X'. procs_ok (extra(p := Suc (extra p))) X' \<and> host_kept X X')"
proof -
  note D = procs_okD [OF ok]
  show ?thesis
  proof (rule returns_weaken [OF stmt_ref_ok [OF D(1) p]], elim conjE)
    fix X' assume X': "stmts_ok ((account extra X)(p := account extra X p + 1)) X'" "stmt_rel {p} X X'"
    then have tab: "tables_same X X'" by (simp add: stmt_rel_def)
    then have "account (extra(p := Suc (extra p))) X' = (account extra X)(p := account extra X p + 1)"
      by (auto simp: account_def reg_refs_def tls_refs_def tables_same_def fun_eq_iff)
    then have "procs_ok (extra(p := Suc (extra p))) X'" using procs_ok_stmt_rel [OF ok _ tab] X'(1) D(5) by (simp add: le_SucI)
    with X'(2) show "procs_ok (extra(p := Suc (extra p))) X' \<and> host_kept X X'" by (simp add: stmt_rel_def)
  qed
qed

lemma stmt_unref_step:
  assumes fin: "streams_finite L" and ok: "procs_ok extra X" and p: "tls_refs X p < extra p"
  shows "returns (rust_stmt_unref L p X) (\<lambda>X'. procs_ok (extra(p := extra p - 1)) X' \<and> host_kept X X')"
proof -
  note D = procs_okD [OF ok]
  have pos: "0 < account extra X p" using p by (simp add: account_def)
  show ?thesis
  proof (rule returns_weaken [OF stmt_unref_ok [OF fin D(1) pos]], elim conjE)
    fix X' assume X': "stmts_ok ((account extra X)(p := account extra X p - 1)) X'" "stmt_rel {p} X X'"
    then have tab: "tables_same X X'" by (simp add: stmt_rel_def)
    then have "account (extra(p := extra p - 1)) X' = (account extra X)(p := account extra X p - 1)"
      using p by (auto simp: account_def reg_refs_def tls_refs_def tables_same_def fun_eq_iff)
    moreover have "tls_refs X q \<le> (extra(p := extra p - 1)) q" for q using D(5) [of q] p by auto
    ultimately have "procs_ok (extra(p := extra p - 1)) X'" using procs_ok_stmt_rel [OF ok _ tab, of "extra(p := extra p - 1)"] X'(1) by simp
    with X'(2) show "procs_ok (extra(p := extra p - 1)) X' \<and> host_kept X X'" by (simp add: stmt_rel_def)
  qed
qed

lemma note_prepare_simps [simp]:
  "stmt_host (note_stmt_prepare_impl E t k sql X) = stmt_host X" "stmts (note_stmt_prepare_impl E t k sql X) = stmts X"
  "c_heap (note_stmt_prepare_impl E t k sql X) = c_heap X" "forward (note_stmt_prepare_impl E t k sql X) = forward X"
  "reverse (note_stmt_prepare_impl E t k sql X) = reverse X" "tls_stmts (note_stmt_prepare_impl E t k sql X) = tls_stmts X"
  by (simp_all add: note_stmt_prepare_impl_def clear_finalized_entry_def remember_prepared_stmt_def Let_def)

lemma register_simps [simp]:
  "stmt_host (rust_stmt_register k p X) = stmt_host X"
  by (simp add: rust_stmt_register_def registry_register_def Let_def)

lemma host_call_ok:
  assumes step: "session_step Q L (hold_of (stmts X), stmt_host X) x (hold_of (stmts X), H')" and ok: "process_ok pid (extra, X)"
    and lib: "calloc_fresh L" "\<forall>w. getpid L w = pid"
  shows "process_ok pid (extra, X\<lparr>stmt_host := H'\<rparr>)"
proof -
  have p: "procs_ok extra X" and ses: "session_ok pid (hold_of (stmts X), stmt_host X)"
    using ok stmts_okD(3,4) [OF procs_okD(1), of extra X] by (simp_all add: process_ok_def session_ok_def host_ok_def)
  from session_step_sound [OF step ses lib]
  have s: "host_ok (hold_of (stmts X)) H'" "init_pid (pm (client H')) \<in> {0, pid}" "env (client H') = env (shim_of X)"
    by (simp_all add: session_ok_def)
  have "account extra (X\<lparr>stmt_host := H'\<rparr>) = account extra X" by (rule account_cong) simp_all
  with p s have "procs_ok extra (X\<lparr>stmt_host := H'\<rparr>)"
    by (simp add: procs_ok_def stmts_ok_def host_ok_def leak_enabled_def reverse_ok_def tls_refs_def)
  then show ?thesis using s(2) by (simp add: process_ok_def)
qed

lemma process_step_sound:
  assumes step: "process_step Q L E s x s'" and ok: "process_ok pid s" and lib: "libs_ok L E" "calloc_fresh L" "\<forall>w. getpid L w = pid"
  shows "process_ok pid s'"
proof -
  have fin: "streams_finite L" "allocs_fresh E" using lib by (simp_all add: libs_ok_def)
  obtain extra X where s: "s = (extra, X)" by (cases s)
  have P: "process_ok pid (extra, X)" and D: "procs_ok extra X" using ok s by (simp_all add: process_ok_def)
  note K = process_okI [OF P]
  from step show ?thesis unfolding s
  proof cases
    case (stmt_create conn sql k p X' t)
    then show ?thesis using returns_SomeD [OF create_ok [OF fin(2) D stmt_create(4)] stmt_create(3)] K by auto
  next
    case (stmt_register k p t)
    then show ?thesis using process_ok_same [OF P register_ok [OF D]] by simp
  next
    case (stmt_prepare t c conn sql k tr p X')
    then show ?thesis using returns_SomeD [OF cached_prepare_ok [OF lib(1) D stmt_prepare(4)] stmt_prepare(3)] K by auto
  next
    case (stmt_note t k sql)
    moreover have "procs_ok extra (note_stmt_prepare_impl E t k sql X) = procs_ok extra X" by (rule procs_ok_cong) simp_all
    ultimately show ?thesis using process_ok_same [OF P] D by simp
  next
    case (stmt_reset t k rc X')
    then show ?thesis using returns_SomeD [OF reset_ok [OF fin(1) D] stmt_reset(3)] K by auto
  next
    case (stmt_clear t k rc X')
    then show ?thesis using returns_SomeD [OF clear_bindings_ok [OF D] stmt_clear(3)] K by auto
  next
    case (stmt_bind t k idx r rc X')
    then show ?thesis using bind_keeps [OF fin(2) D stmt_bind(3)] K by auto
  next
    case (stmt_finalize t k rc X')
    then show ?thesis using returns_SomeD [OF finalize_ok [OF lib(1) D] stmt_finalize(3)] K by auto
  next
    case (stmt_ref p X' t k)
    then have "0 < account extra X p" using stmts_alive [OF D] by blast
    from returns_SomeD [OF stmt_ref_step [OF D this] stmt_ref(3)] stmt_ref K show ?thesis by auto
  next
    case (stmt_unref p X' t k)
    then show ?thesis using returns_SomeD [OF stmt_unref_step [OF fin(1) D stmt_unref(4)] stmt_unref(3)] K by auto
  next
    case (stmt_rebind f p c X' t k)
    then obtain r where r: "hm_get (stmts X) p = Some r" by blast
    from returns_SomeD [OF call_setter_ok [OF D r stmt_rebind(6,4)] stmt_rebind(3)] stmt_rebind K show ?thesis by auto
  next
    case (thread_exit t X' k)
    then show ?thesis using returns_SomeD [OF thread_exit_ok [OF fin(1) D] thread_exit(3)] K by auto
  next
    case (stmts_cleanup X' t k)
    then show ?thesis using returns_SomeD [OF registry_cleanup_ok [OF fin(1) D] stmts_cleanup(3)] K by auto
  next
    case (scope_enter t db)
    moreover have "procs_ok extra (snd (ConnScope_enter t db X)) = procs_ok extra X" by (rule procs_ok_cong) (simp_all add: ConnScope_enter_def)
    ultimately show ?thesis using process_ok_same [OF P] D by (simp add: ConnScope_enter_def)
  next
    case (scope_leave t db prev)
    moreover have "procs_ok extra (ConnScope_drop t prev X) = procs_ok extra X" by (rule procs_ok_cong) (simp_all add: ConnScope_drop_def)
    ultimately show ?thesis using process_ok_same [OF P] D by (simp add: ConnScope_drop_def)
  next
    case (host_call H')
    then show ?thesis using host_call_ok [OF _ P lib(2,3)] by simp
  qed
qed

end
