(* ===== verification/Stmt_Contract.thy ===== *)
theory Stmt_Contract
  imports Stmt_Process
begin

text \<open>
  What the shim promises of prepared statements, for every process that starts from an empty
  pool and whatever its threads call.
\<close>

section \<open>Every process\<close>

definition process_starting :: "nat \<Rightarrow> 'w statements \<Rightarrow> bool" where
  "process_starting pid X \<longleftrightarrow> starting pid (stmt_host X) \<and> stmts X = [] \<and> c_heap X = Map.empty \<and> forward X = [] \<and> reverse X = []
     \<and> tls_stmts X = [] \<and> \<not> leak_enabled X"

lemma process_starting_ok:
  assumes "process_starting pid X"
  shows "process_ok pid (\<lambda>_. 0, X)"
proof -
  have X: "starting pid (stmt_host X)" "stmts X = []" "c_heap X = Map.empty" "forward X = []" "reverse X = []" "tls_stmts X = []" "\<not> leak_enabled X"
    using assms by (simp_all add: process_starting_def)
  have ses: "session_ok pid (\<lambda>_. 0, stmt_host X)" by (rule starting_ok [OF X(1)])
  have "hold_of (stmts X) = (\<lambda>_. 0)" by (auto simp: X hold_of_def fun_eq_iff)
  moreover have "account (\<lambda>_. 0) X = (\<lambda>_. 0)" by (auto simp: X account_def reg_refs_def tls_refs_def hm_values_def fun_eq_iff)
  ultimately show ?thesis
    using ses X(2-7) by (simp add: process_ok_def session_ok_def host_ok_def procs_ok_def stmts_ok_def entry_ok_def blocks_ok_def covered_def
      reverse_ok_def tls_refs_def hm_ok_def hm_get_def)
qed

lemma process_sound:
  assumes "process Q L E s xs s'" "process_ok pid s" "libs_ok L E" "calloc_fresh L" "\<forall>w. getpid L w = pid"
  shows "process_ok pid s'"
  using assms(1,2)
proof induction
  case (process_next s xs s1 x s')
  then show ?case using process_step_sound [OF _ _ assms(3-5)] by blast
qed

lemma returns_some: "returns m P \<Longrightarrow> m \<noteq> None"
  by (cases m) simp_all

text \<open>A library in which SQLite has nothing to say, memory is there, and the clock stands.\<close>

definition fresh_addr :: "ptr set \<Rightarrow> ptr" where
  "fresh_addr live = (if finite live then Suc (Max (insert 0 live)) else 0)"

definition quiet_stmts :: "'w stmt_lib" where
  "quiet_stmts = \<lparr>orig_reset = Some (\<lambda>_ w. (0, w)), orig_finalize = Some (\<lambda>_ w. (0, w)), orig_clear_bindings = Some (\<lambda>_ w. (0, w)),
     orig_sql = None, orig_next_stmt = Some (\<lambda>_ _ _. 0), clock_gettime = (\<lambda>_. (0, 5, 0)),
     c_malloc = (\<lambda>live w. (fresh_addr live, w)), box_new = (\<lambda>live w. (fresh_addr live, w)),
     orig_bind = (\<lambda>_. Some (\<lambda>_ _ w. (0, w))), orig_parameter_name = None, host_text = (\<lambda>_ _. Some ''text''),
     host_bytes = (\<lambda>_ n _. Some (replicate n CHR ''b'')), run_destructor = (\<lambda>_ _ w. w), preferences = (\<lambda>_. None),
     bind_pause = (\<lambda>w. w), format_g17 = (\<lambda>_. ''0.5''), vec_new = (\<lambda>_ live w. (fresh_addr live, w)),
     orig_prepare_v2 = Some (\<lambda>_ _ _ w. ((0, 9), w)),
     sql_translate = (\<lambda>sql. \<lparr>trans_sql = Some sql, trans_names = Some [None, Some ''u2''], trans_count = 2, trans_success = 1\<rparr>)\<rparr>"

lemma fresh_addr_ok:
  assumes fin: "finite live"
  shows "fresh_addr live \<noteq> 0 \<and> fresh_addr live \<notin> live" and "{fresh_addr live..<fresh_addr live + n} \<inter> live = {}"
proof -
  have le: "x \<le> Max (insert 0 live)" if "x \<in> live" for x by (rule Max_ge) (use fin that in auto)
  then have "Suc (Max (insert 0 live)) \<notin> live" by fastforce
  then show "fresh_addr live \<noteq> 0 \<and> fresh_addr live \<notin> live" using fin by (simp add: fresh_addr_def)
  show "{fresh_addr live..<fresh_addr live + n} \<inter> live = {}" using fin le by (fastforce simp: fresh_addr_def)
qed

lemma quiet_libs_ok: "libs_ok (quiet_pq next_addr bump) quiet_stmts"
proof -
  have "streams_finite (quiet_pq next_addr bump)"
    unfolding streams_finite_def by (rule exI [of _ "\<lambda>_ _. 0"]) (simp add: quiet_pq_def results_finite_def)
  moreover have "fresh_addr live = 0 \<or> fresh_addr live \<notin> live" for live using fresh_addr_ok(1) [of live] by (cases "finite live") (auto simp: fresh_addr_def)
  then have "allocs_fresh quiet_stmts" using fresh_addr_ok by (simp add: allocs_fresh_def quiet_stmts_def)
  moreover have "stmt_lists_finite quiet_stmts" by (simp add: stmt_lists_finite_def quiet_stmts_def)
  ultimately show ?thesis by (simp add: libs_ok_def)
qed

definition demo_process :: "'w \<Rightarrow> 'w statements" where
  "demo_process w = \<lparr>stmt_host = host_with (demo_shim w), stmts = [], c_heap = Map.empty, forward = [], reverse = [], tls_stmts = [],
     qcaches = (\<lambda>_. QueryCache_new), qc_enabled = False, finalized_ring = replicate FINALIZED_RING_SIZE FinalizedEntry_empty, finalized_idx = 0,
     prepared_ring = replicate PREPARED_RING_SIZE PreparedEntry_empty, prepared_idx = 0, current_conn = (\<lambda>_. 0)\<rparr>"

lemma demo_process_starting: "process_starting 1 (demo_process w)"
  using starting_demo [of w] by (simp add: process_starting_def demo_process_def leak_enabled_def host_with_def demo_shim_def env_truthy_str_def)

lemma demo_run:
  "\<exists>p X'. process busy_lib (quiet_pq id Suc) quiet_stmts (\<lambda>_. 0, demo_process (7 :: nat)) [(4, 9)] ((\<lambda>_. 0)(p := 1), X')
    \<and> hm_get (stmts X') p \<noteq> None"
proof -
  have ok: "procs_ok (\<lambda>_. 0) (demo_process (7 :: nat))" using process_starting_ok [OF demo_process_starting [of "7 :: nat"]] by (simp add: process_ok_def)
  have fresh: "allocs_fresh (quiet_stmts :: nat stmt_lib)" using quiet_libs_ok by (auto simp: libs_ok_def)
  obtain p X' where run: "rust_stmt_create quiet_stmts 0 (Some ''SELECT 1'') 9 (demo_process (7 :: nat)) = Some (p, X')" "hm_get (stmts X') p \<noteq> None"
    using returnsD [OF create_ok [OF fresh ok, of 0 "Some ''SELECT 1''" 9]] by auto
  have "process busy_lib (quiet_pq id Suc) quiet_stmts (\<lambda>_. 0, demo_process (7 :: nat)) ([] @ [(4, 9)]) ((\<lambda>_. 0)(p := Suc 0), X')"
    by (rule process_next [OF process_start], rule process_step.stmt_create [OF run(1)]) simp
  then show ?thesis using run(2) by auto
qed

lemma quiet_pid: "\<forall>w. getpid (quiet_pq next_addr bump) w = 1"
  by (simp add: quiet_pq_def)





section \<open>A statement's life\<close>

lemma hm_sum_same:
  "hm_ok m \<Longrightarrow> hm_ok m' \<Longrightarrow> (\<And>k. hm_get m' k = hm_get m k) \<Longrightarrow> hm_sum f m' = (hm_sum f m :: 'b :: comm_monoid_add)"
proof (induction m arbitrary: m')
  case Nil
  have "m' = []"
  proof (cases m')
    case (Cons a as)
    then show ?thesis using Nil(3) [of "fst a"] by (simp add: hm_get_def split: if_splits)
  qed simp
  then show ?case by simp
next
  case (Cons a m)
  obtain k v where a: "a = (k, v)" by (cases a)
  have get: "hm_get m' k = Some v" using Cons.prems(3) [of k] by (simp add: a hm_get_def)
  have m: "hm_ok m" "hm_get m k = None" using Cons.prems(1) by (auto simp: a hm_ok_def hm_get_def map_of_eq_None_iff)
  have "hm_get (hm_remove k m') q = hm_get m q" for q using Cons.prems(3) [of q] m(2) by (cases "q = k") (auto simp: a hm_get_def hm_get_remove [unfolded hm_get_def])
  from Cons.IH [OF m(1) _ this] Cons.prems(2) show ?case by (simp add: a hm_sum_get [OF Cons.prems(2) get])
qed

lemma create_register:
  assumes lib: "allocs_fresh E" and ok: "procs_ok extra X" and conn: "conn = 0 \<or> heap (shim_of X) conn \<noteq> None"
    and k: "k \<noteq> 0" "hm_get (forward X) k = None"
  shows "returns (rust_stmt_create E conn sql k X) (\<lambda>(p, X1). p \<noteq> 0 \<and> hm_get (stmts X) p = None \<and> procs_ok extra (rust_stmt_register k p X1)
    \<and> tls_refs X p = 0 \<and> extra p = 0 \<and> forward X1 = forward X \<and> tls_stmts X1 = tls_stmts X \<and> finalized_ring X1 = finalized_ring X
    \<and> env (shim_of X1) = env (shim_of X) \<and> (\<forall>q. q \<noteq> p \<longrightarrow> hm_get (stmts X1) q = hm_get (stmts X) q))"
proof (rule returns_weaken [OF create_ok [OF lib ok conn]], clarsimp)
  fix p X1 s
  assume new: "hm_get (stmts X) p = None" and ok1: "procs_ok (extra(p := Suc (extra p))) X1" and f: "forward X1 = forward X" "tls_stmts X1 = tls_stmts X"
    and s: "hm_get (stmts X1) p = Some s" and host: "host_kept X X1"
  have none: "account extra X p = 0" using stmts_ok_none [OF procs_okD(1) [OF ok], of p] new by simp
  have p: "p \<noteq> 0" using stmts_ok_alive [OF procs_okD(1) [OF ok1] s] by simp
  have "tls_refs X1 p < (extra(p := Suc (extra p))) p" using none f by (simp add: account_def tls_refs_def)
  from register_ok [OF ok1 k(1) p this]
  have "procs_ok (register_extra k p X1 (extra(p := Suc (extra p)))) (rust_stmt_register k p X1)" .
  moreover have "register_extra k p X1 (extra(p := Suc (extra p))) = extra" using f k by (auto simp: register_extra_def fun_eq_iff)
  ultimately show "0 < p \<and> procs_ok extra (rust_stmt_register k p X1) \<and> tls_refs X p = 0 \<and> extra p = 0 \<and> env (shim_of X1) = env (shim_of X)"
    using p none host_same_ok [OF host] by (simp add: account_def)
qed

lemma finalize_frees:
  assumes lib: "libs_ok L E" and ok: "procs_ok extra X" and p: "hm_get (forward X) k = Some p" "k \<noteq> 0" "p \<noteq> 0" "account extra X p = 1"
    and new: "find_finalized_entry k X = None"
  shows "returns (finalize_impl L E t k X) (\<lambda>(rc, X'). procs_ok extra X' \<and> host_kept X X' \<and> hm_get (stmts X') p = None
    \<and> forward X' = hm_remove k (forward X) \<and> (\<forall>q. q \<noteq> p \<longrightarrow> q \<noteq> rust_cached_stmt_find t k X \<longrightarrow> hm_get (stmts X') q = hm_get (stmts X) q))"
proof -
  have fin: "streams_finite L" and lists: "stmt_lists_finite E" using lib by (simp_all add: libs_ok_def)
  have first: "\<not> taken_twice E t k X" using new by (simp add: taken_twice_def is_recently_finalized_stmt_def)
  have find: "rust_stmt_find k X = p" using p by (simp add: rust_stmt_find_def unwrap_or_null_def)
  note D = procs_okD [OF ok]
  have reg: "0 < reg_refs X p" using reg_refs_get [OF D(2) p(1)] .
  have gone: "account extra X' p = 0" if "forward X' = hm_remove k (forward X)" "\<forall>q. tls_refs X' q + of_bool (c = q \<and> q \<noteq> 0) = tls_refs X q" for X' c
  proof -
    have "reg_refs X' p + of_bool (hm_get (forward X) k = Some p) = reg_refs X p"
      using hm_sum_remove [OF D(2), of "\<lambda>v. of_bool (v = p)" k] that(1) p(1) by (simp add: reg_refs_sum)
    moreover have "tls_refs X' p \<le> tls_refs X p" using that(2) by (metis le_add1)
    ultimately show ?thesis using p(1,4) reg by (simp add: account_def)
  qed
  show ?thesis
    unfolding finalize_eq [OF lists] find if_not_P [OF first] if_P [OF p(3)]
  proof (simp only: returns_bind, rule returns_weaken [OF finalize_registered_ok [OF fin ok p(1,2)]], elim conjE)
    fix X' assume X': "procs_ok extra X'" "host_kept X X'" "forward X' = hm_remove k (forward X)"
      "\<forall>q. tls_refs X' q + of_bool (rust_cached_stmt_find t k X = q \<and> q \<noteq> 0) = tls_refs X q"
      "\<forall>q. q \<noteq> p \<longrightarrow> q \<noteq> rust_cached_stmt_find t k X \<longrightarrow> hm_get (stmts X') q = hm_get (stmts X) q"
    have "hm_get (stmts X') p = None" using stmts_ok_none [OF procs_okD(1) [OF X'(1)], of p] gone [OF X'(3,4)] by simp
    with X' show "returns (Some (fst (call_orig (orig_finalize E) k X'), clear_prepared_stmt k (snd (call_orig (orig_finalize E) k X'))))
      (\<lambda>(rc, X'). procs_ok extra X' \<and> host_kept X X' \<and> hm_get (stmts X') p = None
        \<and> forward X' = hm_remove k (forward X) \<and> (\<forall>q. q \<noteq> p \<longrightarrow> q \<noteq> rust_cached_stmt_find t k X \<longrightarrow> hm_get (stmts X') q = hm_get (stmts X) q))"
      by simp
  qed
qed


lemma demo_not_finalized: "find_finalized_entry k (demo_process w) = None"
  by (auto simp: find_finalized_entry_def demo_process_def find_None_iff FinalizedEntry_empty_def)

lemma demo_procs_ok: "procs_ok (\<lambda>_. 0) (demo_process w)"
  using process_starting_ok [OF demo_process_starting [of w]] by (simp add: process_ok_def)


section \<open>Reset and clear_bindings\<close>

lemma settled_simps [simp]:
  "stmt_sql (settled s) = stmt_sql s" "stmt_pg_sql (settled s) = stmt_pg_sql s" "stmt_conn (settled s) = stmt_conn s" "stmt_refs (settled s) = stmt_refs s"
  "param_values (settled s) = param_values s" "param_buffers (settled s) = param_buffers s" "in_step (settled s) = in_step s"
  by (simp_all add: settled_def)

lemma was_reset_fields:
  assumes "was_reset s s'"
  shows "set (heap_params s') \<subseteq> {0}" "stmt_result s' = 0" "cached_result s' = None" "result_conn s' = 0" "current_row s' = -1" "in_step s' = 0"
    "stmt_sql s' = stmt_sql s" "stmt_pg_sql s' = stmt_pg_sql s" "stmt_conn s' = stmt_conn s" "stmt_refs s' = stmt_refs s"
proof -
  obtain s1 where s1: "params_cleared s s1" "result_cleared s1 s'" using assms by (auto simp: was_reset_def)
  have p: "s1 = s\<lparr>in_step := 0, param_values := map (\<lambda>(keep, p). if keep then p else 0) (marked_params s)\<rparr>" using s1(1) by (simp add: params_cleared_def)
  obtain a b where s': "s' = (settled s1)\<lparr>stmt_result := 0, cached_result := None, result_conn := 0, metadata_only_result := 0,
     current_row := -1, num_rows := 0, num_cols := 0, write_executed := 0, read_done := 0,
     decoded_blobs := replicate (length (decoded_blobs s1)) 0, cached_text := replicate (length (cached_text s1)) 0,
     cached_blob := replicate (length (cached_blob s1)) 0, decoded_blob_lens := a, cached_blob_len := b,
     decoded_blob_row := -1, cached_row := -1, stmt_col_names := None, num_col_names := (if stmt_col_names s1 = None then num_col_names s1 else 0)\<rparr>"
    using s1(2) unfolding result_cleared_def by blast
  have v: "param_values s' = map (\<lambda>(keep, p). if keep then p else 0) (marked_params s)" "param_buffers s' = param_buffers s"
    unfolding s' by (simp_all add: p)
  show "set (heap_params s') \<subseteq> {0}" by (rule heap_params_cleared(1) [OF v])
  show "stmt_result s' = 0" "cached_result s' = None" "result_conn s' = 0" "current_row s' = -1" "in_step s' = 0"
    "stmt_sql s' = stmt_sql s" "stmt_pg_sql s' = stmt_pg_sql s" "stmt_conn s' = stmt_conn s" "stmt_refs s' = stmt_refs s"
    unfolding s' by (simp_all add: p)
qed

text \<open>
  C8. A reset makes a statement ready to run again: its result and its row are gone, its
  reference to the connection of the result with them, every parameter that is on the heap
  is null, and its text, its connection and its references stay; no other statement changes.
\<close>

theorem reset_clears:
  assumes "streams_finite L" and "procs_ok extra X" and "rust_stmt_find_any t k X = p" and "hm_get (stmts X) p = Some s"
  shows "\<exists>rc X' s'. reset_impl L E t k X = Some (rc, X') \<and> hm_get (stmts X') p = Some s'
    \<and> stmt_result s' = 0 \<and> cached_result s' = None \<and> result_conn s' = 0 \<and> current_row s' = -1 \<and> in_step s' = 0 \<and> set (heap_params s') \<subseteq> {0}
    \<and> stmt_sql s' = stmt_sql s \<and> stmt_pg_sql s' = stmt_pg_sql s \<and> stmt_conn s' = stmt_conn s \<and> stmt_refs s' = stmt_refs s
    \<and> (\<forall>q. q \<noteq> p \<longrightarrow> hm_get (stmts X') q = hm_get (stmts X) q) \<and> procs_ok extra X'"
proof -
  have p: "p \<noteq> 0" using stmts_ok_alive [OF procs_okD(1) [OF assms(2)] assms(4)] by simp
  obtain rc X' s' where r: "reset_pg_stmt_locked L E k p X = Some (rc, X')" "procs_ok extra X'" "hm_get (stmts X') p = Some s'" "was_reset s s'"
      "\<forall>q. q \<noteq> p \<longrightarrow> hm_get (stmts X') q = hm_get (stmts X) q"
    using returnsD [OF reset_locked_ok [OF assms(1,2,4), of E k]] by auto
  have "reset_impl L E t k X = Some (rc, X')" using r(1) p assms(3) by (simp add: reset_impl_def)
  with r(2,3,5) was_reset_fields [OF r(4)] show ?thesis by blast
qed

theorem reset_clears_witness:
  "\<exists>p X rc X' s'. hm_get (stmts X) p \<noteq> None \<and> reset_impl (quiet_pq id Suc) quiet_stmts 4 9 X = Some (rc, X') \<and> hm_get (stmts X') p = Some s' \<and> current_row s' = -1"
proof -
  have fresh: "allocs_fresh (quiet_stmts :: nat stmt_lib)" and fin: "streams_finite (quiet_pq id Suc :: nat libpq)"
    using quiet_libs_ok [of id "Suc"] by (auto simp: libs_ok_def)
  have none: "hm_get (forward (demo_process (7 :: nat))) 9 = None" by (simp add: demo_process_def hm_get_def)
  obtain p and X1 :: "nat statements" where X1: "procs_ok (\<lambda>_. 0) (rust_stmt_register 9 p X1)" "p \<noteq> 0"
    using returnsD [OF create_register [OF fresh demo_procs_ok [of "7 :: nat"] _ _ none, of 0 None]] by auto
  let ?X = "rust_stmt_register 9 p X1"
  have f: "hm_get (forward ?X) 9 = Some p" using X1(2) by (simp add: rust_stmt_register_def registry_register_def Let_def)
  then obtain s where s: "hm_get (stmts ?X) p = Some s" using registered_alive [OF X1(1)] by blast
  have "rust_stmt_find_any 4 9 ?X = p" using f by (simp add: rust_stmt_find_any_def)
  from reset_clears [OF fin X1(1) this s, of quiet_stmts] s show ?thesis by blast
qed

section \<open>What a thread's end leaves behind\<close>

text \<open>
  A cached statement has two references: the one it was created with, and the one of the thread's
  cache. The end of the thread gives back the second only, so the statement stays allocated
  with the connections it refers to, and no table leads to it.
\<close>

lemma thread_exit_leaks:
  assumes "streams_finite L" "procs_ok extra X" "(k, p) \<in> set (tls_of t X)"
  shows "\<exists>X'. ThreadCachedStmts_drop L t X = Some X' \<and> hm_get (stmts X') p \<noteq> None"
proof -
  obtain X' where X': "ThreadCachedStmts_drop L t X = Some X'" "procs_ok (thread_exit_extra t X extra) X'"
    using returnsD [OF thread_exit_ok [OF assms(1,2)]] by blast
  obtain i where "i < length (tls_of t X)" "snd (tls_of t X ! i) = p" using assms(3) by (metis in_set_conv_nth snd_conv)
  then have "0 < tls_refs X p" using tls_entry_refs [OF procs_okD(3) [OF assms(2)]] by blast
  then have "0 < thread_exit_extra t X extra p" using procs_okD(5) [OF assms(2), of p] by (simp add: thread_exit_extra_def)
  then have "account (thread_exit_extra t X extra) X' p \<noteq> 0" by (simp add: account_def)
  then show ?thesis using X' stmts_ok_none [OF procs_okD(1) [OF X'(2)], of p] by simp
qed

end
