(* ===== verification/Stmt_Rings.thy ===== *)
theory Stmt_Rings
  imports Stmt_Contract
begin

text \<open>
  The ring of finalized statements against what it stands for: the history of the process. The
  ring is an array of 2048 records written round and round under a counter of 32 bits; the
  history is the list of what was prepared and finalized, the latest first.
\<close>

section \<open>Histories\<close>

text \<open>What is written to the rings: each with the state of the world at the time.\<close>

datatype 'w ring_op =
    Finalized 'w tid ptr "string option" int
  | Prepared 'w tid ptr "string option"

definition at_world :: "'w \<Rightarrow> 'w statements \<Rightarrow> 'w statements" where
  "at_world w X = set_shim ((shim_of X)\<lparr>world := w\<rparr>) X"

fun ring_write :: "'w stmt_lib \<Rightarrow> 'w ring_op \<Rightarrow> 'w statements \<Rightarrow> 'w statements" where
  "ring_write E (Finalized w t k sql pg) X = remember_finalized_stmt E t k sql pg (at_world w X)"
| "ring_write E (Prepared w t k sql) X = note_stmt_prepare_impl E t k sql (at_world w X)"

text \<open>The record of a finalize, and the record the history has of a handle: the latest, unless the handle was prepared again or 2048 others were finalized since.\<close>

definition time_at :: "'w stmt_lib \<Rightarrow> 'w \<Rightarrow> u64" where
  "time_at E w = (let (rc, tv_sec, tv_nsec) = clock_gettime E w in if rc \<noteq> 0 then 0 else tv_sec * 1000000000 + tv_nsec)"

definition final_entry :: "'w stmt_lib \<Rightarrow> 'w \<Rightarrow> tid \<Rightarrow> ptr \<Rightarrow> string option \<Rightarrow> int \<Rightarrow> FinalizedEntry" where
  "final_entry E w t k sql pg = \<lparr>fin_stmt = k, fin_ts_ns = time_at E w, fin_tid = t, fin_is_pg = pg, fin_sql = write_sql_buf sql\<rparr>"

fun remembered :: "'w stmt_lib \<Rightarrow> ptr \<Rightarrow> nat \<Rightarrow> 'w ring_op list \<Rightarrow> FinalizedEntry option" where
  "remembered E k room [] = None"
| "remembered E k room (Prepared w t k' sql # ops) = (if k' = k then None else remembered E k room ops)"
| "remembered E k room (Finalized w t k' sql pg # ops) =
     (if k' = 0 then remembered E k room ops
      else if room = 0 then None
      else if k' = k then Some (final_entry E w t k' sql pg)
      else remembered E k (room - 1) ops)"

text \<open>No handle is finalized again while the history still has a record of it.\<close>

fun finalized_once :: "'w stmt_lib \<Rightarrow> 'w ring_op list \<Rightarrow> bool" where
  "finalized_once E [] = True"
| "finalized_once E (Prepared w t k sql # ops) = finalized_once E ops"
| "finalized_once E (Finalized w t k sql pg # ops) \<longleftrightarrow> remembered E k FINALIZED_RING_SIZE ops = None \<and> finalized_once E ops"

section \<open>The slots of the ring\<close>

text \<open>The records in the order they were written, a cleared one empty.\<close>

definition cleared :: "ptr \<Rightarrow> FinalizedEntry \<Rightarrow> FinalizedEntry" where
  "cleared k e = (if fin_stmt e = k then FinalizedEntry_empty else e)"

fun ring_log :: "'w stmt_lib \<Rightarrow> 'w ring_op list \<Rightarrow> FinalizedEntry list" where
  "ring_log E [] = []"
| "ring_log E (Prepared w t k sql # ops) = (if k = 0 then ring_log E ops else map (cleared k) (ring_log E ops))"
| "ring_log E (Finalized w t k sql pg # ops) = (if k = 0 then ring_log E ops else final_entry E w t k sql pg # ring_log E ops)"

definition slot_age :: "nat \<Rightarrow> nat \<Rightarrow> nat" where
  "slot_age r i = (if i < r then r - 1 - i else r + (FINALIZED_RING_SIZE - 1) - i)"

definition nth_or_empty :: "FinalizedEntry list \<Rightarrow> nat \<Rightarrow> FinalizedEntry" where
  "nth_or_empty es j = (if j < length es then es ! j else FinalizedEntry_empty)"

definition ring_matches :: "FinalizedEntry list \<Rightarrow> 'w statements \<Rightarrow> bool" where
  "ring_matches es X \<longleftrightarrow> length (finalized_ring X) = FINALIZED_RING_SIZE \<and>
     (\<forall>i < FINALIZED_RING_SIZE. finalized_ring X ! i = nth_or_empty es (slot_age (unat (finalized_idx X) mod FINALIZED_RING_SIZE) i))"

lemma unat_Suc_mod: "unat ((i :: u32) + 1) mod FINALIZED_RING_SIZE = (let r = unat i mod FINALIZED_RING_SIZE in if r = FINALIZED_RING_SIZE - 1 then 0 else Suc r)"
proof -
  have "unat (i + 1) mod FINALIZED_RING_SIZE = Suc (unat i) mod FINALIZED_RING_SIZE"
    by (simp add: unat_word_ariths FINALIZED_RING_SIZE_def mod_mod_cancel)
  then show ?thesis by (simp add: mod_Suc Let_def FINALIZED_RING_SIZE_def)
qed

lemma write_slot:
  assumes "ring_matches es X" "finalized_idx X' = finalized_idx X + 1"
    and "finalized_ring X' = (finalized_ring X)[unat (finalized_idx X) mod FINALIZED_RING_SIZE := e]"
  shows "ring_matches (e # es) X'"
proof -
  define r where "r = unat (finalized_idx X) mod FINALIZED_RING_SIZE"
  have new: "finalized_ring X' = (finalized_ring X)[r := e]" using assms(3) by (simp add: r_def)
  have r: "r < FINALIZED_RING_SIZE" by (simp add: r_def FINALIZED_RING_SIZE_def)
  have len: "length (finalized_ring X) = FINALIZED_RING_SIZE" using assms(1) by (simp add: ring_matches_def)
  have "finalized_ring X' ! i = nth_or_empty (e # es) (slot_age (if r = FINALIZED_RING_SIZE - 1 then 0 else Suc r) i)" if i: "i < FINALIZED_RING_SIZE" for i
  proof (cases "i = r")
    case True
    then show ?thesis using r len by (auto simp: new slot_age_def nth_or_empty_def FINALIZED_RING_SIZE_def)
  next
    case False
    then have "slot_age (if r = FINALIZED_RING_SIZE - 1 then 0 else Suc r) i = Suc (slot_age r i)"
      using r i by (auto simp: slot_age_def FINALIZED_RING_SIZE_def)
    moreover have "finalized_ring X ! i = nth_or_empty es (slot_age r i)" using assms(1) i by (simp add: ring_matches_def r_def)
    ultimately show ?thesis using False by (simp add: new nth_or_empty_def)
  qed
  then show ?thesis using len by (simp add: ring_matches_def assms(2) new unat_Suc_mod Let_def r_def)
qed

lemma clear_slots:
  assumes "ring_matches es X" "finalized_idx X' = finalized_idx X" "finalized_ring X' = map (cleared k) (finalized_ring X)"
  shows "ring_matches (map (cleared k) es) X'"
proof -
  have "cleared k FinalizedEntry_empty = FinalizedEntry_empty" by (simp add: cleared_def)
  then have "cleared k (nth_or_empty es j) = nth_or_empty (map (cleared k) es) j" for j by (simp add: nth_or_empty_def)
  then show ?thesis using assms by (simp add: ring_matches_def)
qed

lemma ring_matches_cong: "finalized_ring X' = finalized_ring X \<Longrightarrow> finalized_idx X' = finalized_idx X \<Longrightarrow> ring_matches es X' = ring_matches es X"
  by (simp add: ring_matches_def)

lemma ring_write_matches:
  assumes "ring_matches (ring_log E ops) X"
  shows "ring_matches (ring_log E (op # ops)) (ring_write E op X)"
proof (cases op)
  case (Finalized w t k sql pg)
  have time: "now_monotonic_ns E (at_world w X) = time_at E w" by (simp add: now_monotonic_ns_def time_at_def at_world_def)
  have at: "ring_matches (ring_log E ops) (at_world w X)" using assms ring_matches_cong [of "at_world w X" X] by (simp add: at_world_def)
  show ?thesis
  proof (cases "k = 0")
    case True
    then show ?thesis using at by (simp add: Finalized remember_finalized_stmt_def)
  next
    case False
    then show ?thesis
      by (simp add: Finalized) (rule write_slot [OF at], simp_all add: remember_finalized_stmt_def Let_def final_entry_def time)
  qed
next
  case (Prepared w t k sql)
  have at: "ring_matches (ring_log E ops) (at_world w X)" using assms ring_matches_cong [of "at_world w X" X] by (simp add: at_world_def)
  show ?thesis
  proof (cases "k = 0")
    case True
    then show ?thesis using at by (simp add: Prepared note_stmt_prepare_impl_def remember_prepared_stmt_def clear_finalized_entry_def)
  next
    case False
    then show ?thesis
      by (simp add: Prepared) (rule clear_slots [OF at], simp_all add: note_stmt_prepare_impl_def remember_prepared_stmt_def clear_finalized_entry_def cleared_def Let_def)
  qed
qed

section \<open>The ring and the history\<close>

text \<open>The history's record is the first of the log, which is the only one the ring has.\<close>

lemma remembered_log:
  "k \<noteq> 0 \<Longrightarrow> remembered E k room ops = find (\<lambda>e. fin_stmt e = k) (take room (ring_log E ops))"
proof (induction E k room ops rule: remembered.induct)
  case (2 E k room w t k' sql ops)
  have find_map: "find (\<lambda>e. fin_stmt e = k) (map (cleared k') es) = (if k' = k then None else find (\<lambda>e. fin_stmt e = k) es)" for es
    using \<open>k \<noteq> 0\<close> by (induction es) (auto simp: cleared_def FinalizedEntry_empty_def)
  show ?case
  proof (cases "k' = k")
    case True
    then show ?thesis using 2(2) find_map by (simp add: take_map)
  qed (use 2 in \<open>simp add: take_map find_map\<close>)
next
  case (3 E k room w t k' sql pg ops)
  then show ?case by (cases room) (simp_all add: final_entry_def)
qed simp

lemma find_unique:
  assumes "\<And>x. P x \<Longrightarrow> (x \<in> set xs) = (x \<in> set ys)" "\<And>x y. x \<in> set ys \<Longrightarrow> y \<in> set ys \<Longrightarrow> P x \<Longrightarrow> P y \<Longrightarrow> x = y"
  shows "find P xs = find P ys"
proof (cases "find P ys")
  case None
  then have "\<And>x. x \<in> set xs \<Longrightarrow> \<not> P x" using assms(1) by (auto simp: find_None_iff)
  then have "find P xs = None" by (simp add: find_None_iff)
  then show ?thesis using None by simp
next
  case (Some y)
  then have y: "y \<in> set ys" "P y" by (auto simp: find_Some_iff)
  then have "find P xs \<noteq> None" using assms(1) [of y] by (auto simp: find_None_iff)
  then obtain x where x: "find P xs = Some x" by blast
  then have "x \<in> set xs" "P x" by (auto simp: find_Some_iff)
  then show ?thesis using x Some assms y by metis
qed

lemma log_unique:
  assumes "finalized_once E ops" "k \<noteq> 0"
  shows "x \<in> set (take FINALIZED_RING_SIZE (ring_log E ops)) \<Longrightarrow> y \<in> set (take FINALIZED_RING_SIZE (ring_log E ops)) \<Longrightarrow> fin_stmt x = k \<Longrightarrow> fin_stmt y = k \<Longrightarrow> x = y"
  using assms(1)
proof (induction E ops arbitrary: x y rule: finalized_once.induct)
  case (2 E w t k' sql ops)
  show ?case
  proof (cases "k' = 0")
    case False
    have "z \<in> set (take FINALIZED_RING_SIZE (ring_log E ops))"
      if "z \<in> set (take FINALIZED_RING_SIZE (ring_log E (Prepared w t k' sql # ops)))" "fin_stmt z = k" for z
      using that assms(2) False by (auto simp: cleared_def FinalizedEntry_empty_def take_map split: if_splits)
    then show ?thesis using 2(1) [of x y] 2(2-6) by simp
  next
    case True
    then show ?thesis using 2(1) [of x y] 2(2-6) by simp
  qed
next
  case (3 E w t k' sql pg ops)
  let ?es = "ring_log E ops"
  show ?case
  proof (cases "k' = 0")
    case False
    obtain n where n: "FINALIZED_RING_SIZE = Suc n" by (cases FINALIZED_RING_SIZE) (simp_all add: FINALIZED_RING_SIZE_def)
    have sub: "set (take n ?es) \<subseteq> set (take FINALIZED_RING_SIZE ?es)" using n by (intro set_take_subset_set_take) simp
    have "find (\<lambda>e. fin_stmt e = k') (take FINALIZED_RING_SIZE ?es) = None" using 3(6) False by (simp add: remembered_log)
    then have none: "fin_stmt z \<noteq> k'" if "z \<in> set (take n ?es)" for z using that sub by (auto simp: find_None_iff)
    have in_log: "z = final_entry E w t k' sql pg \<or> z \<in> set (take n ?es)" if "z \<in> set (take FINALIZED_RING_SIZE (ring_log E (Finalized w t k' sql pg # ops)))" for z
      using that False by (simp add: n)
    show ?thesis
    proof (cases "k' = k")
      case True
      then show ?thesis using in_log [OF 3(2)] in_log [OF 3(3)] none [of x] none [of y] 3(4,5) by blast
    next
      case other: False
      then have "x \<in> set (take n ?es)" "y \<in> set (take n ?es)" using in_log [OF 3(2)] in_log [OF 3(3)] 3(4,5) by (auto simp: final_entry_def)
      then show ?thesis using 3(1) [of x y] 3(4-6) sub by auto
    qed
  next
    case True
    then show ?thesis using 3(1) [of x y] 3(2-6) by simp
  qed
qed simp

lemma ring_set:
  assumes "ring_matches es X" "fin_stmt e \<noteq> 0"
  shows "e \<in> set (finalized_ring X) \<longleftrightarrow> e \<in> set (take FINALIZED_RING_SIZE es)"
proof -
  define r where "r = unat (finalized_idx X) mod FINALIZED_RING_SIZE"
  have r: "r < FINALIZED_RING_SIZE" by (simp add: r_def FINALIZED_RING_SIZE_def)
  have ne: "e \<noteq> FinalizedEntry_empty" using assms(2) by (auto simp: FinalizedEntry_empty_def)
  have ring: "finalized_ring X ! i = nth_or_empty es (slot_age r i)" if "i < FINALIZED_RING_SIZE" for i
    using assms(1) that by (simp add: ring_matches_def r_def)
  have age: "slot_age r i < FINALIZED_RING_SIZE" if "i < FINALIZED_RING_SIZE" for i using that r by (auto simp: slot_age_def FINALIZED_RING_SIZE_def)
  have twice: "slot_age r (slot_age r j) = j" if "j < FINALIZED_RING_SIZE" for j using that r by (auto simp: slot_age_def FINALIZED_RING_SIZE_def)
  have len: "length (finalized_ring X) = FINALIZED_RING_SIZE" using assms(1) by (simp add: ring_matches_def)
  show ?thesis
  proof
    assume "e \<in> set (finalized_ring X)"
    then obtain i where i: "i < FINALIZED_RING_SIZE" "finalized_ring X ! i = e" by (auto simp: in_set_conv_nth len)
    then have "slot_age r i < length es" "es ! slot_age r i = e" using ring ne by (auto simp: nth_or_empty_def split: if_splits)
    then show "e \<in> set (take FINALIZED_RING_SIZE es)" using age [OF i(1)] by (auto simp: in_set_conv_nth)
  next
    assume "e \<in> set (take FINALIZED_RING_SIZE es)"
    then obtain j where j: "j < FINALIZED_RING_SIZE" "j < length es" "es ! j = e" by (auto simp: in_set_conv_nth)
    then have "finalized_ring X ! slot_age r j = e" using ring [OF age] twice by (simp add: nth_or_empty_def)
    then show "e \<in> set (finalized_ring X)" using age [OF j(1)] len nth_mem by metis
  qed
qed


text \<open>A library whose world is the clock, in seconds.\<close>

definition ticking :: "u64 stmt_lib" where
  "ticking = quiet_stmts\<lparr>clock_gettime := \<lambda>w. (0, w, 0)\<rparr>"

lemma demo_ring: "finalized_ring (demo_process w) = replicate FINALIZED_RING_SIZE FinalizedEntry_empty" "finalized_idx (demo_process w) = 0"
  by (simp_all add: demo_process_def)


text \<open>
  The first record of a handle in the order of the slots is not always its latest. A handle
  finalized at five seconds and again at sixty, with no prepare seen in between, counts as
  finalized long ago, so that a second finalize right after is not caught.
\<close>

lemma stale_record_hides_newer:
  "\<not> is_recently_finalized_stmt ticking 9 (foldr (ring_write ticking) [Finalized 60 4 9 None 0, Finalized 5 4 9 None 0] (demo_process 5))"
proof -
  define a where "a = final_entry ticking 5 4 9 None 0"
  define b where "b = final_entry ticking 60 4 9 None 0"
  let ?X = "foldr (ring_write ticking) [Finalized 60 4 9 None 0, Finalized 5 4 9 None 0] (demo_process 5)"
  have split: "replicate FINALIZED_RING_SIZE e = e # e # replicate 2046 e" for e :: FinalizedEntry
  proof -
    have n: "FINALIZED_RING_SIZE = Suc (Suc 2046)" by (simp add: FINALIZED_RING_SIZE_def)
    show ?thesis unfolding n replicate_Suc ..
  qed
  have time: "now_monotonic_ns ticking (at_world w X) = w * 1000000000" for w X
    by (simp add: now_monotonic_ns_def at_world_def ticking_def)
  have "finalized_ring ?X = (replicate FINALIZED_RING_SIZE FinalizedEntry_empty)[0 := a, 1 := b]"
    by (simp add: remember_finalized_stmt_def Let_def demo_ring a_def b_def final_entry_def time time_at_def ticking_def FINALIZED_RING_SIZE_def at_world_def
        now_monotonic_ns_def)
  then have "find_finalized_entry 9 ?X = Some a" by (simp add: find_finalized_entry_def split a_def final_entry_def)
  moreover have "now_monotonic_ns ticking ?X = 60000000000"
    by (simp add: remember_finalized_stmt_def Let_def now_monotonic_ns_def ticking_def at_world_def)
  ultimately show ?thesis
    by (simp add: is_recently_finalized_stmt_def a_def final_entry_def time_at_def ticking_def FINALIZED_RECENT_MS_def)
qed

end
