(* ===== verification/Query_Cache_Memory.thy ===== *)
theory Query_Cache_Memory
  imports Query_Cache
begin

text \<open>
  The memory of the result cache: every block the allocator hands out belongs to an entry
  until the entry is freed, and what a store has copied is what a lookup finds.
\<close>

section \<open>The blocks an entry owns\<close>

definition row_owned :: "CachedRow \<Rightarrow> nat" where
  "row_owned r = (case row_values r of None \<Rightarrow> 0 | Some vs \<Rightarrow> some_count vs + 1)
     + (if row_lengths r = None then 0 else 1) + (if row_nulls r = None then 0 else 1)"

definition owned :: "CachedResult \<Rightarrow> nat" where
  "owned e = (if col_types e = None then 0 else 1) + (case col_names e of None \<Rightarrow> 0 | Some ns \<Rightarrow> some_count ns + 1)
     + (case rows e of None \<Rightarrow> 0 | Some rs \<Rightarrow> sum_list (map row_owned rs) + 1)"

text \<open>The sizes an entry notes cover all that it owns.\<close>

definition sizes_cover :: "CachedResult \<Rightarrow> bool" where
  "sizes_cover e \<longleftrightarrow> (\<forall>ns. col_names e = Some ns \<longrightarrow> length ns \<le> res_cols e)
     \<and> (\<forall>rs. rows e = Some rs \<longrightarrow> (\<forall>r \<in> set rs. \<forall>vs. row_values r = Some vs \<longrightarrow> length vs \<le> res_cols e)
          \<and> (\<forall>r \<in> set (drop (res_rows e) rs). row_owned r = 0))"

lemma row_free_owned: "\<forall>vs. row_values r = Some vs \<longrightarrow> length vs \<le> n \<Longrightarrow> row_free n r = row_owned r"
  by (simp add: row_free_def row_owned_def split: option.splits)

lemma entry_free_owned:
  assumes "sizes_cover e"
  shows "entry_free e = owned e"
proof -
  have "sum_list (map (row_free (res_cols e)) (take (res_rows e) rs)) = sum_list (map row_owned rs)" if rs: "rows e = Some rs" for rs
  proof -
    have row: "row_free (res_cols e) r = row_owned r" if "r \<in> set rs" for r
      using assms rs that by (intro row_free_owned) (auto simp: sizes_cover_def)
    then have "map (row_free (res_cols e)) (take (res_rows e) rs) = map row_owned (take (res_rows e) rs)"
      by (auto dest: in_set_takeD)
    moreover have "sum_list (map row_owned (drop (res_rows e) rs)) = 0"
      using assms rs by (auto simp: sizes_cover_def)
    moreover have "sum_list (map row_owned rs) = sum_list (map row_owned (take (res_rows e) rs)) + sum_list (map row_owned (drop (res_rows e) rs))"
      by (metis append_take_drop_id map_append sum_list_append)
    ultimately show ?thesis by (simp only:)
  qed
  moreover have "take (res_cols e) ns = ns" if "col_names e = Some ns" for ns
    using assms that by (simp add: sizes_cover_def)
  ultimately show ?thesis by (simp add: entry_free_def owned_def split: option.splits)
qed

lemma owned_empty: "col_types e = None \<Longrightarrow> col_names e = None \<Longrightarrow> rows e = None \<Longrightarrow> owned e = 0"
  by (simp add: owned_def)

lemma owned_0_iff: "owned e = 0 \<longleftrightarrow> col_types e = None \<and> col_names e = None \<and> rows e = None"
  by (auto simp: owned_def split: option.splits)

section \<open>What the copies take\<close>

lemma malloc_blocks: "malloc alloc h = (ok, h') \<Longrightarrow> snd h' = snd h + (if ok then 1 else 0)"
  by (auto simp: malloc_def Let_def split: prod.splits)

lemma some_count_Cons [simp]: "some_count (x # xs) = (if x = None then 0 else 1) + some_count xs"
  by (simp add: some_count_def)

lemma some_count_Nil [simp]: "some_count [] = 0"
  by (simp add: some_count_def)

lemma some_count_replicate [simp]: "some_count (replicate n None) = 0"
  by (simp add: some_count_def)

lemma copy_names_blocks:
  "copy_names alloc ns n h = (names, m, h') \<Longrightarrow> snd h' = snd h + some_count names \<and> length names = length ns"
proof (induction ns arbitrary: n h names)
  case (Cons x ns)
  obtain got h1 where m: "malloc alloc h = (got, h1)" by (cases "malloc alloc h")
  show ?case
  proof (cases x)
    case None
    obtain rest r where "copy_names alloc ns n h = (rest, r)" by (cases "copy_names alloc ns n h")
    with Cons.prems Cons.IH [of n h rest] None show ?thesis by auto
  next
    case (Some a)
    obtain rest r where "copy_names alloc ns (if got then n + length a + 1 else n) h1 = (rest, r)"
      by (cases "copy_names alloc ns (if got then n + length a + 1 else n) h1")
    with Cons.prems Cons.IH [of "if got then n + length a + 1 else n" h1 rest] Some m malloc_blocks [OF m] show ?thesis
      by (auto split: if_splits)
  qed
qed simp

lemma copy_cells_blocks:
  "copy_cells alloc cs n h = (ok, copies, m, h') \<Longrightarrow> snd h' = snd h + some_count (map fst copies) \<and> length copies = length cs"
proof (induction cs arbitrary: n h ok copies)
  case (Cons c cs)
  obtain null_flag len src where c: "c = (null_flag, len, src)" by (cases c)
  obtain got h1 where g: "malloc alloc h = (got, h1)" by (cases "malloc alloc h")
  note b = malloc_blocks [OF g]
  show ?case
  proof (cases "null_flag = 0")
    case True
    obtain ok' rest r where "copy_cells alloc cs (n + len + 1) h1 = (ok', rest, r)" by (metis prod_cases3)
    with Cons.prems Cons.IH [of "n + len + 1" h1 ok' rest] True g b show ?thesis
      by (auto simp: c map_replicate_const split: if_splits)
  next
    case False
    obtain ok' rest r where "copy_cells alloc cs n h = (ok', rest, r)" by (metis prod_cases3)
    with Cons.prems Cons.IH [of n h ok' rest] False show ?thesis by (auto simp: c)
  qed
qed simp

lemma row_owned_row_of: "row_owned (row_of copies) = some_count (map fst copies) + 3"
  by (simp add: row_owned_def row_of_def)

lemma row_values_row_of [simp]: "row_values (row_of copies) = Some (map fst copies)"
  by (simp add: row_of_def)

lemma copy_rows_blocks:
  assumes "\<forall>r \<in> set rs. length r = nc"
  shows "copy_rows alloc rs n h = (ok, out, m, h') \<Longrightarrow> snd h' = snd h + sum_list (map row_owned out) \<and> length out \<le> length rs
    \<and> (\<forall>r \<in> set out. \<forall>vs. row_values r = Some vs \<longrightarrow> length vs = nc)"
  using assms
proof (induction rs arbitrary: n h ok out m h')
  case (Cons x rs)
  obtain v h1 where v: "malloc alloc h = (v, h1)" by (cases "malloc alloc h")
  obtain l h2 where l: "malloc alloc h1 = (l, h2)" by (cases "malloc alloc h1")
  obtain k h3 where k: "malloc alloc h2 = (k, h3)" by (cases "malloc alloc h2")
  note b = malloc_blocks [OF v] malloc_blocks [OF l] malloc_blocks [OF k]
  obtain ok1 copies n' h4 where c: "copy_cells alloc x n h3 = (ok1, copies, n', h4)" by (metis prod_cases4)
  note cb = copy_cells_blocks [OF c]
  obtain ok' out' m' h5 where d: "copy_rows alloc rs n' h4 = (ok', out', m', h5)" by (metis prod_cases4)
  show ?case
  proof (cases "v \<and> l \<and> k")
    case False
    with Cons.prems v l k b show ?thesis by (auto simp: row_owned_def)
  next
    case True
    show ?thesis
    proof (cases ok1)
      case False
      with Cons.prems v l k b c cb True show ?thesis by (auto simp: row_owned_row_of)
    next
      case ok1: True
      have "snd h5 = snd h4 + sum_list (map row_owned out') \<and> length out' \<le> length rs
        \<and> (\<forall>r \<in> set out'. \<forall>vs. row_values r = Some vs \<longrightarrow> length vs = nc)"
        using Cons.IH [of n' h4 ok' out' m' h5] d Cons.prems by auto
      with Cons.prems v l k b c d cb True ok1 show ?thesis by (auto simp: row_owned_row_of)
    qed
  qed
qed simp

section \<open>A store that has memory\<close>

definition plenty :: "'w alloc \<Rightarrow> bool" where
  "plenty alloc \<longleftrightarrow> (\<forall>w. fst (alloc w))"

definition wf_data :: "result_data \<Rightarrow> bool" where
  "wf_data d \<longleftrightarrow> length (d_names d) = length (d_types d) \<and> (\<forall>r \<in> set (d_rows d). length r = length (d_types d))"

lemma malloc_plenty: "plenty alloc \<Longrightarrow> \<exists>w. malloc alloc h = (True, w, snd h + 1)"
  by (cases "alloc (fst h)") (auto simp: malloc_def plenty_def Let_def split: prod.splits dest: spec [of _ "fst h"])

lemma fill_entry_memory:
  assumes mem: "plenty alloc" and wf: "wf_data d" and e: "owned e = 0" "\<not> is_active e"
    and fill: "fill_entry alloc key created d e (w, b) = (ok, e', w', b')"
  shows "b' = b + owned e' \<and> (if ok then sizes_cover e' else owned e' = 0)"
proof -
  let ?nc = "length (d_types d)" and ?nr = "length (d_rows d)"
  obtain w1 where m1: "malloc alloc (w, b) = (True, w1, b + 1)" using malloc_plenty [OF mem, of "(w, b)"] by auto
  obtain w2 where m2: "malloc alloc (w1, b + 1) = (True, w2, b + 2)" using malloc_plenty [OF mem, of "(w1, b + 1)"] by auto
  obtain names n w3 b3 where nm: "copy_names alloc (d_names d) 0 (w2, b + 2) = (names, n, w3, b3)" by (metis prod_cases4)
  have b3: "b3 = b + 2 + some_count names" "length names = ?nc"
    using copy_names_blocks [OF nm] wf by (simp_all add: wf_data_def)
  obtain w4 where m3: "malloc alloc (w3, b3) = (True, w4, b3 + 1)" using malloc_plenty [OF mem, of "(w3, b3)"] by auto
  obtain ok' rs n' w5 b5 where rw: "copy_rows alloc (d_rows d) n (w4, b3 + 1) = (ok', rs, n', w5, b5)" by (metis prod_cases5)
  have b5: "b5 = b3 + 1 + sum_list (map row_owned rs)" "length rs \<le> ?nr" "\<forall>r \<in> set rs. \<forall>vs. row_values r = Some vs \<longrightarrow> length vs = ?nc"
    using copy_rows_blocks [OF _ rw, of ?nc] wf by (simp_all add: wf_data_def)
  let ?e = "e\<lparr>col_types := Some (d_types d), col_names := Some names, rows := Some (rs @ replicate (?nr - length rs) CachedRow_null)\<rparr>"
  have null: "row_owned CachedRow_null = 0" by (simp add: row_owned_def CachedRow_null_def)
  have own: "owned (?e\<lparr>res_rows := p, res_cols := q, cache_key := a, res_refs := r\<rparr>) = b5 - b" for a r p q
    using b3(1) b5(1) by (simp add: owned_def null sum_list_replicate)
  have ge: "b \<le> b5" using b3(1) b5(1) by simp
  have cover: "sizes_cover (?e\<lparr>res_rows := length rs, res_cols := ?nc, cache_key := a, res_refs := r\<rparr>)" for a r
    using b3(2) b5(3) null by (auto simp: sizes_cover_def CachedRow_null_def)
  show ?thesis
  proof (cases ok')
    case True
    have "length rs = ?nr" using copy_rows_done [of alloc "d_rows d" n "(w4, b3 + 1)" rs] rw True by auto
    then have "ok" "b' = b5" and e': "e' = ?e\<lparr>cache_key := key, created_ms := created, res_refs := 0, res_rows := length rs, res_cols := ?nc, hit_count := 0\<rparr>"
      using fill m1 m2 nm m3 rw True by (simp_all add: fill_entry_def Let_def)
    then show ?thesis using own [where a = key and r = 0 and p = "length rs" and q = ?nc] cover [where a = key and r = 0] ge by (simp add: owned_def sizes_cover_def)
  next
    case False
    let ?p = "?e\<lparr>res_rows := length rs, res_cols := ?nc, cache_key := 1, res_refs := 0\<rparr>"
    have free: "cleanup_partial ?p = (entry_free ?p, snd (cleanup_partial ?p))"
      by (simp add: cleanup_partial_def free_data_def is_active_def is_referenced_def entry_free_def)
    have "entry_free ?p = b5 - b" using entry_free_owned [OF cover] own by simp
    moreover have "owned (snd (cleanup_partial ?p)) = 0"
      by (simp add: cleanup_partial_def free_data_def is_active_def is_referenced_def owned_0_iff)
    moreover have "\<not> ok" "b' = b5 - entry_free ?p" "e' = snd (cleanup_partial ?p)"
      using fill m1 m2 nm m3 rw False free by (simp_all add: fill_entry_def Let_def split_beta)
    ultimately show ?thesis using ge by simp
  qed
qed

section \<open>Every block has an owner\<close>

definition entry_mem :: "CachedResult \<Rightarrow> bool" where
  "entry_mem e \<longleftrightarrow> (if is_active e then sizes_cover e else owned e = 0)"

definition qc_mem :: "QueryCache \<Rightarrow> bool" where
  "qc_mem cache \<longleftrightarrow> (\<forall>e \<in> set (entries cache). entry_mem e) \<and> blocks cache = sum_list (map owned (entries cache))"

lemma qc_mem_new: "qc_mem QueryCache_new"
  by (simp add: qc_mem_def entry_mem_def QueryCache_new_def CachedResult_empty_def is_active_def owned_def sum_list_replicate)

lemma qc_mem_update:
  assumes "qc_mem cache" "i < length (entries cache)" "entries cache' = (entries cache)[i := e]" "entry_mem e"
    and "blocks cache' + owned (entries cache ! i) = blocks cache + owned e"
  shows "qc_mem cache'"
proof -
  have "map owned ((entries cache)[i := e]) = (map owned (entries cache))[i := owned e]" by (rule map_update)
  moreover have "owned (entries cache ! i) \<le> sum_list (map owned (entries cache))"
    using elem_le_sum_list [of i "map owned (entries cache)"] assms(2) by simp
  ultimately have "sum_list (map owned ((entries cache)[i := e])) = sum_list (map owned (entries cache)) + owned e - owned (entries cache ! i)"
    using assms(2) by (simp add: sum_list_update)
  moreover have "\<forall>x \<in> set ((entries cache)[i := e]). entry_mem x"
    using assms(1,4) set_update_subset_insert [of "entries cache" i e] by (auto simp: qc_mem_def)
  ultimately show ?thesis using assms by (simp add: qc_mem_def)
qed

lemma qc_mem_le: "qc_mem cache \<Longrightarrow> i < length (entries cache) \<Longrightarrow> owned (entries cache ! i) \<le> blocks cache"
  using elem_le_sum_list [of i "map owned (entries cache)"] by (simp add: qc_mem_def)

text \<open>What freeing an entry gives back is what it owned.\<close>

lemma free_data_mem:
  assumes "entry_mem e" "free_data e = (freed, n, e')"
  shows "n + owned e' = owned e \<and> entry_mem e' \<and> (if freed then owned e' = 0 \<and> \<not> is_active e' else e' = e)"
proof (cases rule: free_data_cases [of e])
  case kept
  then show ?thesis using assms by simp
next
  case freed
  have e': "owned e' = 0" "\<not> is_active e'" using assms(2) freed by (auto simp: owned_0_iff is_active_def)
  moreover have "n = owned e" using assms freed entry_free_owned [of e] by (simp add: entry_mem_def)
  ultimately show ?thesis using assms(2) freed by (auto simp: entry_mem_def)
qed

lemma owned_counters [simp]:
  "owned (e\<lparr>res_refs := n, hit_count := m\<rparr>) = owned e" "owned (e\<lparr>res_refs := n\<rparr>) = owned e" "owned (e\<lparr>created_ms := c\<rparr>) = owned e"
  "entry_mem (e\<lparr>res_refs := n, hit_count := m\<rparr>) = entry_mem e" "entry_mem (e\<lparr>res_refs := n\<rparr>) = entry_mem e"
  "entry_mem (e\<lparr>created_ms := c\<rparr>) = entry_mem e"
  by (simp_all add: owned_def entry_mem_def is_active_def sizes_cover_def)

lemma qc_mem_entry: "qc_mem cache \<Longrightarrow> i < length (entries cache) \<Longrightarrow> entry_mem (entries cache ! i)"
  by (simp add: qc_mem_def)

lemma qc_mem_freed:
  assumes "qc_mem cache" "i < length (entries cache)" "free_data (entries cache ! i) = (freed, n, e)"
    and "entries cache' = (entries cache)[i := e]" "blocks cache' = blocks cache - n"
  shows "qc_mem cache'"
proof -
  note f = free_data_mem [OF qc_mem_entry [OF assms(1,2)] assms(3)]
  then have "n \<le> blocks cache" using qc_mem_le [OF assms(1,2)] by simp
  with f assms show ?thesis by (intro qc_mem_update [OF assms(1,2,4)]) auto
qed

lemma lookup_mem: "qc_mem cache \<Longrightarrow> qc_mem (snd (rust_query_cache_lookup True key t cache))"
proof (cases "key = 0 \<or> position (\<lambda>e. cache_key e = key) (entries cache) = None")
  case True
  then show "qc_mem cache \<Longrightarrow> ?thesis" by (auto simp: rust_query_cache_lookup_def qc_mem_def)
next
  case False
  assume mem: "qc_mem cache"
  from False obtain i where p: "position (\<lambda>e. cache_key e = key) (entries cache) = Some i" and key: "key \<noteq> 0" by auto
  have i: "i < length (entries cache)" using p by (simp add: position_Some)
  obtain freed n e where f: "free_data (entries cache ! i) = (freed, n, e)" by (metis prod_cases3)
  show ?thesis
  proof (cases "entry_age t (entries cache ! i) < QUERY_CACHE_TTL_MS")
    case True
    then show ?thesis using p key qc_mem_entry [OF mem i]
      by (intro qc_mem_update [OF mem i, where e = "(entries cache ! i)\<lparr>res_refs := res_refs (entries cache ! i) + 1, hit_count := hit_count (entries cache ! i) + 1\<rparr>"])
        (simp_all add: rust_query_cache_lookup_def Let_def)
  next
    case False
    then show ?thesis using p key f by (intro qc_mem_freed [OF mem i f]) (simp_all add: rust_query_cache_lookup_def Let_def)
  qed
qed

lemma invalidate_mem: "qc_mem cache \<Longrightarrow> qc_mem (rust_query_cache_invalidate True key cache)"
proof (cases "key = 0 \<or> position (\<lambda>e. cache_key e = key) (entries cache) = None")
  case True
  then show "qc_mem cache \<Longrightarrow> ?thesis" by (auto simp: rust_query_cache_invalidate_def)
next
  case False
  assume mem: "qc_mem cache"
  from False obtain i where p: "position (\<lambda>e. cache_key e = key) (entries cache) = Some i" and key: "key \<noteq> 0" by auto
  have i: "i < length (entries cache)" using p by (simp add: position_Some)
  obtain freed n e where f: "free_data (entries cache ! i) = (freed, n, e)" by (metis prod_cases3)
  show ?thesis
  proof (cases freed)
    case True
    then show ?thesis using p key f by (intro qc_mem_freed [OF mem i f]) (simp_all add: rust_query_cache_invalidate_def)
  next
    case False
    have "entry_mem (mark_expired (entries cache ! i)) \<and> owned (mark_expired (entries cache ! i)) = owned (entries cache ! i)"
      using qc_mem_entry [OF mem i] by (simp add: mark_expired_def)
    with False show ?thesis using p key f 
      by (intro qc_mem_update [OF mem i, where e = "mark_expired (entries cache ! i)"]) (simp_all add: rust_query_cache_invalidate_def)
  qed
qed

lemma release_mem:
  assumes "qc_mem cache" "i < length (entries cache)"
  shows "qc_mem (rust_query_cache_release True (Some i) cache)"
  using qc_mem_entry [OF assms]
  by (intro qc_mem_update [OF assms, where e = "(entries cache ! i)\<lparr>res_refs := res_refs (entries cache ! i) - 1\<rparr>"])
    (simp_all add: rust_query_cache_release_def)

lemma store_mem:
  assumes mem: "qc_mem cache" and ok: "qc_ok cache" and al: "plenty alloc" and wf: "wf_data d"
    and st: "rust_query_cache_store alloc enabled key nr nc d t created cache w = (cache', w')"
  shows "qc_mem cache'"
proof (cases "\<not> enabled \<or> key = 0 \<or> nc \<le> 0 \<or> QUERY_CACHE_MAX_ROWS < nr \<or> nr \<le> 0
    \<or> scan_slots key t 0 (entries cache) no_choice = None \<or> (\<exists>c. scan_slots key t 0 (entries cache) no_choice = Some c \<and> chosen_slot c = None)")
  case True
  with st have "cache' = cache" unfolding rust_query_cache_store_def by (elim disjE exE) (simp_all split: if_splits)
  then show ?thesis using mem by simp
next
  case False
  then obtain c i where c: "scan_slots key t 0 (entries cache) no_choice = Some c" "chosen_slot c = Some i" by auto
  note slot = store_slot [OF c]
  let ?e = "entries cache ! i"
  obtain reclaimed n e1 where f: "(if is_active ?e then free_data ?e else (True, 0, ?e)) = (reclaimed, n, e1)" by (metis prod_cases3)
  have em: "entry_mem ?e" using qc_mem_entry [OF mem] slot by blast
  have "reclaimed \<and> \<not> is_active e1 \<and> owned e1 = 0 \<and> n = owned ?e"
  proof (cases "is_active ?e")
    case True
    then have "free_data ?e = (reclaimed, n, e1)" using f by simp
    moreover from this have "reclaimed" using True slot by (auto simp: free_data_def split: if_splits)
    ultimately show ?thesis using free_data_mem [OF em, of reclaimed n e1] by auto
  next
    case False
    then show ?thesis using f em by (auto simp: entry_mem_def)
  qed
  then have e1: "reclaimed" "\<not> is_active e1" "owned e1 = 0" "n = owned ?e" by simp_all
  obtain ok e2 w2 b where fill: "fill_entry alloc key created d e1 (w, blocks cache - n) = (ok, e2, w2, b)" by (metis prod_cases4)
  note fm = fill_entry_memory [OF al wf e1(3,2) fill]
  have "n \<le> blocks cache" using qc_mem_le [OF mem, of i] slot e1(4) by simp
  moreover have "entries cache' = (entries cache)[i := e2]" "blocks cache' = b"
    using st False c e1 fill by (auto simp: rust_query_cache_store_def Let_def f)
  moreover have "entry_mem e2"
    using fm fill_entry_spec [OF fill e1(2)] False by (auto simp: entry_mem_def is_active_def split: if_splits)
  ultimately show ?thesis using slot fm e1(4) by (intro qc_mem_update [OF mem, where e = e2 and i = i]) auto
qed

text \<open>The stores of a run are given arrays of matching sizes.\<close>

definition stores_wf :: "qc_op list \<Rightarrow> bool" where
  "stores_wf opers \<longleftrightarrow> (\<forall>key d t created. Store key d t created \<in> set opers \<longrightarrow> wf_data d)"

lemma qc_step_mem:
  assumes "qc_mem cache" "qc_ok cache" "plenty alloc" "qc_step alloc oper (cache, w) = (cache', w')" "stores_wf [oper]" "releases_entries [oper]"
  shows "qc_mem cache'"
proof (cases oper)
  case (Lookup key t)
  then show ?thesis using assms(4) lookup_mem [OF assms(1), of key t] by (auto simp: qc_step_def)
next
  case (Store key d t created)
  then show ?thesis using assms(4,5) store_mem [OF assms(1,2,3)] by (auto simp: qc_step_def stores_wf_def)
next
  case (Invalidate key)
  then show ?thesis using assms(4) invalidate_mem [OF assms(1), of key] by (auto simp: qc_step_def)
next
  case (Release i)
  then show ?thesis using assms(2,4,6) release_mem [OF assms(1), of i] by (auto simp: qc_step_def releases_entries_def qc_ok_def)
qed

lemma qc_run_mem:
  assumes "plenty alloc" "stores_wf opers" "releases_entries opers" "qc_run alloc opers (QueryCache_new, w) = (cache, w')"
  shows "qc_mem cache"
  using assms(2-4)
proof (induction opers arbitrary: cache w' rule: rev_induct)
  case Nil
  then show ?case using qc_mem_new by (simp add: qc_run_def)
next
  case (snoc oper opers)
  obtain c1 w1 where r: "qc_run alloc opers (QueryCache_new, w) = (c1, w1)" by fastforce
  have "stores_wf opers" "stores_wf [oper]" "releases_entries opers" "releases_entries [oper]"
    using snoc.prems(1,2) by (auto simp: stores_wf_def releases_entries_def)
  with r snoc qc_run_inv [OF _ r] show ?case
    by (intro qc_step_mem [of c1 alloc oper w1 cache w', OF _ _ assms(1)]) (auto simp: qc_run_snoc)
qed

lemma drop_frees_all:
  assumes "qc_mem cache"
  shows "blocks (QueryCache_drop cache) = 0"
proof -
  have "fst (force_free_data e) = owned e" if "e \<in> set (entries cache)" for e
  proof -
    have "entry_mem e" using assms that by (simp add: qc_mem_def)
    then show ?thesis using entry_free_owned [of "e\<lparr>res_refs := 0\<rparr>"]
      by (auto simp: force_free_data_def free_data_def is_active_def is_referenced_def entry_mem_def sizes_cover_def)
  qed
  then have "sum_list (map (fst \<circ> force_free_data) (entries cache)) = sum_list (map owned (entries cache))"
    by (intro arg_cong [where f = sum_list] map_cong) simp_all
  moreover have "blocks cache = sum_list (map owned (entries cache))" using assms by (simp add: qc_mem_def)
  ultimately show ?thesis by (simp add: QueryCache_drop_def)
qed

text \<open>
  C27. The cache neither leaks nor frees twice while there is memory: after any sequence of
  calls, an eviction, an expiry or a result too large to keep included, the blocks taken from
  the allocator and not given back are exactly those the entries own, and the end of the
  thread gives back every one of them, referenced or not.
\<close>

theorem query_cache_no_leak:
  assumes "plenty alloc" and "stores_wf opers" and "releases_entries opers" and "qc_run alloc opers (QueryCache_new, w) = (cache, w')"
  shows "blocks cache = sum_list (map owned (entries cache)) \<and> blocks (QueryCache_drop cache) = 0"
  using qc_run_mem [OF assms] drop_frees_all [of cache] by (simp add: qc_mem_def)

section \<open>A store is found\<close>

definition cell_size :: "cell \<Rightarrow> nat" where
  "cell_size = (\<lambda>(null_flag, len, src). if null_flag \<noteq> 0 then 0 else len + 1)"

definition data_size :: "result_data \<Rightarrow> nat" where
  "data_size d = sum_list (map (\<lambda>n. case n of None \<Rightarrow> 0 | Some s \<Rightarrow> length s + 1) (d_names d))
     + sum_list (map (\<lambda>r. sum_list (map cell_size r)) (d_rows d))"

definition cacheable :: "result_data \<Rightarrow> bool" where
  "cacheable d \<longleftrightarrow> d_types d \<noteq> [] \<and> d_rows d \<noteq> [] \<and> int (length (d_rows d)) \<le> QUERY_CACHE_MAX_ROWS \<and> data_size d \<le> QUERY_CACHE_MAX_BYTES"

lemma copy_names_plenty:
  "plenty alloc \<Longrightarrow> \<exists>h'. copy_names alloc ns n h = (ns, n + sum_list (map (\<lambda>n. case n of None \<Rightarrow> 0 | Some s \<Rightarrow> length s + 1) ns), h')"
proof (induction ns arbitrary: n h)
  case (Cons x ns)
  show ?case
  proof (cases x)
    case None
    then show ?thesis using Cons.IH [OF Cons.prems, of n h] by auto
  next
    case (Some a)
    obtain w where "malloc alloc h = (True, w, snd h + 1)" using malloc_plenty [OF Cons.prems] by blast
    with Some show ?thesis using Cons.IH [OF Cons.prems, of "n + length a + 1" "(w, snd h + 1)"] by (auto simp: add.assoc)
  qed
qed simp

lemma copy_cells_plenty:
  assumes "plenty alloc"
  shows "n + sum_list (map cell_size cs) \<le> QUERY_CACHE_MAX_BYTES \<Longrightarrow>
    \<exists>h'. copy_cells alloc cs n h = (True, map copied cs, n + sum_list (map cell_size cs), h')"
proof (induction cs arbitrary: n h)
  case (Cons c cs)
  obtain null_flag len src where c: "c = (null_flag, len, src)" by (cases c)
  show ?case
  proof (cases "null_flag = 0")
    case True
    obtain w where m: "malloc alloc h = (True, w, snd h + 1)" using malloc_plenty [OF assms] by blast
    obtain h' where "copy_cells alloc cs (n + len + 1) (w, snd h + 1) = (True, map copied cs, n + len + 1 + sum_list (map cell_size cs), h')"
      using Cons.IH [of "n + len + 1" "(w, snd h + 1)"] Cons.prems True by (auto simp: c cell_size_def)
    with True m Cons.prems show ?thesis by (simp add: c cell_size_def copied_def)
  next
    case False
    obtain h' where "copy_cells alloc cs n h = (True, map copied cs, n + sum_list (map cell_size cs), h')"
      using Cons.IH [of n h] Cons.prems False by (auto simp: c cell_size_def)
    with False show ?thesis by (simp add: c cell_size_def copied_def)
  qed
qed simp

lemma copy_rows_plenty:
  assumes "plenty alloc"
  shows "n + sum_list (map (\<lambda>r. sum_list (map cell_size r)) rs) \<le> QUERY_CACHE_MAX_BYTES \<Longrightarrow>
    \<exists>m h'. copy_rows alloc rs n h = (True, map (\<lambda>r. row_of (map copied r)) rs, m, h')"
proof (induction rs arbitrary: n h)
  case (Cons x rs)
  obtain w1 where m1: "malloc alloc h = (True, w1, snd h + 1)" using malloc_plenty [OF assms] by blast
  obtain w2 where m2: "malloc alloc (w1, snd h + 1) = (True, w2, snd h + 2)" using malloc_plenty [OF assms, of "(w1, snd h + 1)"] by auto
  obtain w3 where m3: "malloc alloc (w2, snd h + 2) = (True, w3, snd h + 3)" using malloc_plenty [OF assms, of "(w2, snd h + 2)"] by auto
  obtain h' where c: "copy_cells alloc x n (w3, snd h + 3) = (True, map copied x, n + sum_list (map cell_size x), h')"
    using copy_cells_plenty [OF assms, of n x] Cons.prems by fastforce
  obtain m h'' where "copy_rows alloc rs (n + sum_list (map cell_size x)) h' = (True, map (\<lambda>r. row_of (map copied r)) rs, m, h'')"
    using Cons.IH [of "n + sum_list (map cell_size x)" h'] Cons.prems by auto
  with m1 m2 m3 c show ?case by simp
qed simp

lemma fill_entry_plenty:
  assumes "plenty alloc" "data_size d \<le> QUERY_CACHE_MAX_BYTES"
  shows "\<exists>e' h'. fill_entry alloc key created d e h = (True, e', h') \<and> col_names e' = Some (d_names d)"
proof -
  obtain w1 where m1: "malloc alloc h = (True, w1, snd h + 1)" using malloc_plenty [OF assms(1)] by blast
  obtain w2 where m2: "malloc alloc (w1, snd h + 1) = (True, w2, snd h + 2)" using malloc_plenty [OF assms(1), of "(w1, snd h + 1)"] by auto
  obtain n h3 where n: "copy_names alloc (d_names d) 0 (w2, snd h + 2) = (d_names d, n, h3)"
    and size: "n + sum_list (map (\<lambda>r. sum_list (map cell_size r)) (d_rows d)) \<le> QUERY_CACHE_MAX_BYTES"
    using copy_names_plenty [OF assms(1), of "d_names d" 0 "(w2, snd h + 2)"] assms(2) unfolding data_size_def by fastforce
  obtain w4 where m3: "malloc alloc h3 = (True, w4, snd h3 + 1)" using malloc_plenty [OF assms(1)] by blast
  obtain m h5 where r: "copy_rows alloc (d_rows d) n (w4, snd h3 + 1) = (True, map (\<lambda>r. row_of (map copied r)) (d_rows d), m, h5)"
    using copy_rows_plenty [OF assms(1) size, of "(w4, snd h3 + 1)"] by blast
  show ?thesis using m1 m2 m3 n r by (simp add: fill_entry_def Let_def)
qed

lemma scan_slots_finds:
  assumes "\<forall>e \<in> set es. cache_key e = key \<longrightarrow> \<not> is_referenced e"
    and "oldest_reclaimable_slot c = None \<longrightarrow> oldest_reclaimable_time c = - 1"
    and "chosen_slot c \<noteq> None \<or> (\<exists>e \<in> set es. \<not> is_referenced e \<and> created_ms e \<noteq> - 1)"
  shows "\<exists>c'. scan_slots key t i es c = Some c' \<and> chosen_slot c' \<noteq> None"
  using assms
proof (induction es arbitrary: i c)
  case (Cons e es)
  have found: "chosen_slot (c\<lparr>empty_slot := get_or_insert (empty_slot c) j\<rparr>) \<noteq> None"
    "chosen_slot (c\<lparr>expired_slot := get_or_insert (expired_slot c) j\<rparr>) \<noteq> None"
    "chosen_slot (c\<lparr>oldest_reclaimable_time := y, oldest_reclaimable_slot := Some j\<rparr>) \<noteq> None"
    "chosen_slot (c\<lparr>exact_match_slot := Some j\<rparr>) \<noteq> None" for y j
    by (auto simp: chosen_slot_def or_else_def get_or_insert_def split: option.splits)
  consider "cache_key e = key" | "cache_key e \<noteq> key" "\<not> is_active e" | "cache_key e \<noteq> key" "is_active e" "QUERY_CACHE_TTL_MS \<le> entry_age t e" "\<not> is_referenced e"
    | "cache_key e \<noteq> key" "is_active e" "\<not> (QUERY_CACHE_TTL_MS \<le> entry_age t e \<and> \<not> is_referenced e)" "\<not> is_referenced e" "created_ms e < oldest_reclaimable_time c"
    | "cache_key e \<noteq> key" "is_active e" "\<not> (QUERY_CACHE_TTL_MS \<le> entry_age t e \<and> \<not> is_referenced e)" "is_referenced e \<or> \<not> created_ms e < oldest_reclaimable_time c"
    by blast
  then show ?case
  proof cases
    case 1
    then show ?thesis using Cons.prems found(4) by auto
  next
    case 2
    then show ?thesis using Cons.IH [of "c\<lparr>empty_slot := get_or_insert (empty_slot c) i\<rparr>" "i + 1"] Cons.prems found(1) by auto
  next
    case 3
    then show ?thesis using Cons.IH [of "c\<lparr>expired_slot := get_or_insert (expired_slot c) i\<rparr>" "i + 1"] Cons.prems found(2) by auto
  next
    case 4
    then show ?thesis
      using Cons.IH [of "c\<lparr>oldest_reclaimable_time := created_ms e, oldest_reclaimable_slot := Some i\<rparr>" "i + 1"] Cons.prems found(3) by auto
  next
    case 5
    have "chosen_slot c \<noteq> None" if "\<not> is_referenced e" "created_ms e \<noteq> - 1"
    proof -
      have "\<not> created_ms e < oldest_reclaimable_time c" using 5 that by blast
      then have "oldest_reclaimable_time c \<noteq> - 1" using that(2) by (metis word_order.extremum_strict word_order.not_eq_extremum)
      then show ?thesis using Cons.prems(2) by (auto simp: chosen_slot_def or_else_def split: option.splits)
    qed
    then show ?thesis using 5 Cons.IH [of c "i + 1"] Cons.prems by auto
  qed
qed simp

lemma store_written:
  assumes ok: "qc_ok cache" and al: "plenty alloc" and d: "cacheable d" and key: "key \<noteq> 0"
    and live: "\<forall>e \<in> set (entries cache). cache_key e = key \<longrightarrow> \<not> is_referenced e"
    and room: "\<exists>e \<in> set (entries cache). \<not> is_referenced e \<and> created_ms e \<noteq> - 1"
    and st: "qc_step alloc (Store key d t created) (cache, w) = (cache', w')"
  shows "\<exists>i<length (entries cache'). holds (entries cache' ! i) d \<and> cache_key (entries cache' ! i) = key
    \<and> created_ms (entries cache' ! i) = created \<and> col_names (entries cache' ! i) = Some (d_names d)
    \<and> res_refs (entries cache' ! i) = 0"
proof -
  obtain c where c: "scan_slots key t 0 (entries cache) no_choice = Some c" "chosen_slot c \<noteq> None"
    using scan_slots_finds [OF live, of no_choice t 0] room by (auto simp: no_choice_def)
  then obtain i where i: "chosen_slot c = Some i" by blast
  note slot = store_slot [OF c(1) i]
  let ?e = "entries cache ! i"
  obtain reclaimed n e1 where f: "(if is_active ?e then free_data ?e else (True, 0, ?e)) = (reclaimed, n, e1)" by (metis prod_cases3)
  have e1: "reclaimed" "\<not> is_active e1" using f slot by (cases "is_active ?e"; auto simp: free_data_def is_active_def)+
  obtain e2 w2 b where fill: "fill_entry alloc key created d e1 (w, blocks cache - n) = (True, e2, w2, b)" "col_names e2 = Some (d_names d)"
    using fill_entry_plenty [OF al, of d key created e1 "(w, blocks cache - n)"] d by (auto simp: cacheable_def)
  have e2: "holds e2 d" "cache_key e2 = key" "created_ms e2 = created" "res_refs e2 = 0" using fill_entry_spec [OF fill(1) e1(2)] by simp_all
  have "0 < length (d_types d)" "0 < length (d_rows d)" using d by (auto simp: cacheable_def)
  then have "entries cache' = (entries cache)[i := e2]"
    using st key d c(1) i e1(1) fill(1) by (auto simp: qc_step_def rust_query_cache_store_def Let_def f cacheable_def)
  with slot e2 fill(2) show ?thesis by (intro exI [of _ i]) simp
qed

lemma position_key:
  assumes "keys_distinct es" "i < length es" "cache_key (es ! i) = key" "key \<noteq> 0"
  shows "position (\<lambda>e. cache_key e = key) es = Some i"
proof -
  have "cache_key (es ! j) \<noteq> key" if "j < i" for j
  proof
    assume "cache_key (es ! j) = key"
    then have "i = j" using assms that unfolding keys_distinct_def is_active_def by (metis order.strict_trans)
    then show False using that by simp
  qed
  then show ?thesis using assms by (simp add: position_Some)
qed

lemma store_lookup_hit:
  assumes ok: "qc_ok cache" and "plenty alloc" "cacheable d" "key \<noteq> 0"
    and "\<forall>e \<in> set (entries cache). cache_key e = key \<longrightarrow> \<not> is_referenced e"
    and "\<exists>e \<in> set (entries cache). \<not> is_referenced e \<and> created_ms e \<noteq> - 1" and "t' - created < QUERY_CACHE_TTL_MS"
  shows "\<exists>i<QUERY_CACHE_SIZE. \<exists>cache'. rust_query_cache_lookup True key t' (fst (qc_step alloc (Store key d t created) (cache, w1))) = (Some i, cache')
    \<and> holds (entries cache' ! i) d \<and> col_names (entries cache' ! i) = Some (d_names d) \<and> is_referenced (entries cache' ! i)"
proof -
  obtain c w2 where c: "qc_step alloc (Store key d t created) (cache, w1) = (c, w2)" by fastforce
  obtain i where i: "i < length (entries c)" "holds (entries c ! i) d" "cache_key (entries c ! i) = key" "created_ms (entries c ! i) = created"
    "col_names (entries c ! i) = Some (d_names d)" "res_refs (entries c ! i) = 0"
    using store_written [OF ok assms(2-6) c] by blast
  have "qc_ok c" by (rule entry_step_ok [OF ok qc_step_entries [OF ok c]]) simp
  then have p: "position (\<lambda>e. cache_key e = key) (entries c) = Some i" and len: "i < QUERY_CACHE_SIZE"
    using position_key [OF _ i(1,3) assms(4)] i(1) by (simp_all add: qc_ok_def)
  from len p c i assms(4,7) show ?thesis
    by (intro exI [of _ i]) (simp add: rust_query_cache_lookup_def entry_age_def Let_def holds_def is_referenced_def)
qed


section \<open>Examples\<close>

definition demo_data :: result_data where
  "demo_data = \<lparr>d_types = [23], d_names = [Some ''id''], d_rows = [[(0, 1, Some ''7'')]]\<rparr>"

definition steady :: "unit alloc" where "steady w = (True, w)"

lemma demo_facts:
  "plenty steady" "cacheable demo_data" "wf_data demo_data"
  by (simp_all add: plenty_def steady_def cacheable_def demo_data_def data_size_def cell_size_def wf_data_def
      QUERY_CACHE_MAX_ROWS_def QUERY_CACHE_MAX_BYTES_def)

lemma demo_hit:
  "\<exists>i<QUERY_CACHE_SIZE. \<exists>cache'. rust_query_cache_lookup True 9 1500 (fst (qc_run steady [Store 9 demo_data 1000 1000] (QueryCache_new, ()))) = (Some i, cache')
    \<and> holds (entries cache' ! i) demo_data \<and> col_names (entries cache' ! i) = Some (d_names demo_data) \<and> is_referenced (entries cache' ! i)"
proof -
  have "\<exists>e \<in> set (entries QueryCache_new). \<not> is_referenced e \<and> created_ms e \<noteq> - 1"
    "\<forall>e \<in> set (entries QueryCache_new). cache_key e = 9 \<longrightarrow> \<not> is_referenced e"
    by (simp_all add: QueryCache_new_def CachedResult_empty_def is_referenced_def QUERY_CACHE_SIZE_def)
  with store_lookup_hit [OF qc_ok_new demo_facts(1,2), of 9 1500 1000 1000 "()"] show ?thesis
    by (simp add: qc_run_def QUERY_CACHE_TTL_MS_def)
qed

theorem query_cache_fresh_witness:
  "\<exists>i cache' pre post d t0 created. rust_query_cache_lookup True 9 1500 (fst (qc_run steady [Store 9 demo_data 1000 1000] (QueryCache_new, ()))) = (Some i, cache')
    \<and> [Store 9 demo_data 1000 1000] = pre @ Store 9 d t0 created # post \<and> holds (entries cache' ! i) d"
proof -
  obtain cache where run: "qc_run steady [Store 9 demo_data 1000 1000] (QueryCache_new, ()) = (cache, ())" by (metis old.unit.exhaust surj_pair)
  obtain i cache' where hit: "rust_query_cache_lookup True 9 1500 cache = (Some i, cache')" using demo_hit run by auto
  have rel: "releases_entries [Store 9 demo_data 1000 1000]" and ttl: "QUERY_CACHE_TTL_MS \<le> 1500"
    by (simp_all add: releases_entries_def QUERY_CACHE_TTL_MS_def)
  obtain pre post d t0 created where "[Store 9 demo_data 1000 1000] = pre @ Store 9 d t0 created # post" "holds (entries cache' ! i) d"
    using query_cache_fresh [OF rel run hit ttl] by blast
  with run hit show ?thesis by (metis fst_conv)
qed

theorem cached_result_stable_witness:
  "\<exists>i cache' cache''. qc_run steady [Store 9 demo_data 1000 1000, Lookup 9 1500] (QueryCache_new, ()) = (cache', ())
    \<and> qc_run steady [Invalidate 9] (cache', ()) = (cache'', ()) \<and> same_contents (entries cache' ! i) (entries cache'' ! i)
    \<and> is_referenced (entries cache'' ! i)"
proof -
  obtain i cache' where hit: "rust_query_cache_lookup True 9 1500 (fst (qc_run steady [Store 9 demo_data 1000 1000] (QueryCache_new, ()))) = (Some i, cache')"
    "is_referenced (entries cache' ! i)" using demo_hit by auto
  have pre: "qc_run steady ([Store 9 demo_data 1000 1000] @ [Lookup 9 1500]) (QueryCache_new, ()) = (cache', ())"
    unfolding qc_run_snoc using hit(1) by (simp add: qc_step_def split_beta)
  obtain cache'' where post: "qc_run steady [Invalidate 9] (cache', ()) = (cache'', ())" by (metis old.unit.exhaust surj_pair)
  have "releases_entries ([Store 9 demo_data 1000 1000] @ [Lookup 9 1500])" "releases_entries [Invalidate 9]" "Release i \<notin> set [Invalidate 9]"
    by (simp_all add: releases_entries_def)
  with cached_result_stable [OF _ pre hit(2) _ _ post] have "same_contents (entries cache' ! i) (entries cache'' ! i) \<and> is_referenced (entries cache'' ! i)" by blast
  with pre post show ?thesis by auto
qed

theorem query_cache_no_leak_witness:
  "\<exists>cache. qc_run steady [Store 9 demo_data 1000 1000] (QueryCache_new, ()) = (cache, ())
    \<and> blocks cache = sum_list (map owned (entries cache)) \<and> blocks (QueryCache_drop cache) = 0"
proof -
  obtain cache where run: "qc_run steady [Store 9 demo_data 1000 1000] (QueryCache_new, ()) = (cache, ())" by (metis old.unit.exhaust surj_pair)
  have "stores_wf [Store 9 demo_data 1000 1000]" "releases_entries [Store 9 demo_data 1000 1000]"
    using demo_facts(3) by (simp_all add: stores_wf_def releases_entries_def)
  from query_cache_no_leak [OF demo_facts(1) this run] run show ?thesis by blast
qed


text \<open>
  When the array of column names cannot be had, the entry has no key yet, and the cleanup
  frees nothing: the types stay allocated in an empty slot, and the next store in that slot
  overwrites the pointer to them.
\<close>

definition second_fails :: "nat alloc" where "second_fails w = (w \<noteq> 1, w + 1)"

lemma names_failure_leaks:
  "\<exists>e1 h1 e2 h2. fill_entry second_fails 9 1000 demo_data CachedResult_empty (0, 0) = (False, e1, h1)
    \<and> fill_entry second_fails 9 1000 demo_data e1 h1 = (True, e2, h2) \<and> snd h2 = owned e2 + 1"
  by (simp add: fill_entry_def malloc_def second_fails_def demo_data_def CachedResult_empty_def cleanup_partial_def free_data_def is_active_def
      QUERY_CACHE_MAX_BYTES_def owned_def row_owned_def row_of_def Let_def)

end
