(* ===== verification/Spec2Isabelle.thy ===== *)
theory Spec2Isabelle
  imports Stmt_Rings Query_Cache_Memory
begin

text \<open>
  Verification of the client core of plex-postgresql, the shim that answers Plex Media
  Server's SQLite calls from PostgreSQL (\<^verbatim>\<open>src/rust/plex-pg-core/src\<close>).

  Plan, in the order of the program's own dependencies: the error classes and the statement
  hash; the per-connection prepared-statement cache; the transaction forwarder; the
  connection structs and their life cycle over libpq; the connection pool and its
  acquisition phases; the release and health paths; the handle lookup; the statement
  registry.
\<close>

end
